(* ===== verification/Orcm_Prelude.thy ===== *)
theory Orcm_Prelude
  imports Main "HOL-Library.Word"
begin

text \<open>
  Shared vocabulary of the development: the status codes every layer of the program returns
  (\<^verbatim>\<open>opal/include/opal/constants.h\<close>, \<^verbatim>\<open>orte/include/orte/constants.h\<close>,
  \<^verbatim>\<open>orcm/include/orcm/constants.h\<close>), C strings and the \<^verbatim>\<open><string.h>\<close> and
  \<^verbatim>\<open><ctype.h>\<close> functions the sources call, and generic lemmas on lists that several
  components use.

  A C string is a HOL string without its terminating NUL; where the NUL is part of the data
  (hash keys of length \<^verbatim>\<open>strlen(s) + 1\<close>) it is added by \<open>cstr_bytes\<close>.
\<close>

named_theorems status_simps "code-to-status equations"

section \<open>Status codes\<close>

text \<open>
  The three layers alias each other's codes (\<^verbatim>\<open>ORCM_ERR_BAD_PARAM = ORTE_ERR_BAD_PARAM =
  OPAL_ERR_BAD_PARAM\<close>), so one constructor stands for the three names.
\<close>

datatype status =
    SUCCESS
  | ERROR
  | ERR_OUT_OF_RESOURCE
  | ERR_RESOURCE_BUSY
  | ERR_BAD_PARAM
  | ERR_NOT_SUPPORTED
  | ERR_NOT_FOUND
  | ERR_NOT_AVAILABLE
  | ERR_FILE_READ_FAILURE
  | ERR_FILE_WRITE_FAILURE
  | ERR_FILE_OPEN_FAILURE
  | ERR_PACK_MISMATCH
  | ERR_PACK_FAILURE
  | ERR_UNPACK_FAILURE
  | ERR_UNPACK_INADEQUATE_SPACE
  | ERR_UNPACK_READ_PAST_END_OF_BUFFER
  | ERR_TYPE_MISMATCH
  | ERR_UNKNOWN_DATA_TYPE
  | ERR_BUFFER
  | ERR_RECV_MORE_THAN_POSTED
  | ERR_COPY_FAILURE
  | ERR_NO_ANY_GROUP
  | ERR_GROUP_NOT_EXIST
  | ERR_NODE_NOT_EXIST

fun status_code :: "status \<Rightarrow> int" where
  "status_code SUCCESS = 0"
| "status_code ERROR = -1"
| "status_code ERR_OUT_OF_RESOURCE = -2"
| "status_code ERR_RESOURCE_BUSY = -4"
| "status_code ERR_BAD_PARAM = -5"
| "status_code ERR_NOT_SUPPORTED = -8"
| "status_code ERR_NOT_FOUND = -13"
| "status_code ERR_NOT_AVAILABLE = -16"
| "status_code ERR_FILE_READ_FAILURE = -19"
| "status_code ERR_FILE_WRITE_FAILURE = -20"
| "status_code ERR_FILE_OPEN_FAILURE = -21"
| "status_code ERR_PACK_MISMATCH = -22"
| "status_code ERR_PACK_FAILURE = -23"
| "status_code ERR_UNPACK_FAILURE = -24"
| "status_code ERR_UNPACK_INADEQUATE_SPACE = -25"
| "status_code ERR_UNPACK_READ_PAST_END_OF_BUFFER = -26"
| "status_code ERR_TYPE_MISMATCH = -27"
| "status_code ERR_UNKNOWN_DATA_TYPE = -29"
| "status_code ERR_BUFFER = -30"
| "status_code ERR_RECV_MORE_THAN_POSTED = -102"
| "status_code ERR_COPY_FAILURE = -110"
| "status_code ERR_NO_ANY_GROUP = -203"
| "status_code ERR_GROUP_NOT_EXIST = -204"
| "status_code ERR_NODE_NOT_EXIST = -205"

section \<open>Bytes, C strings, characters\<close>

type_synonym byte = "8 word"

text \<open>Machine sizes: \<^verbatim>\<open>size_t\<close> is 64 bits wide and wraps.\<close>

definition size_t :: "nat \<Rightarrow> nat" where
  "size_t n = n mod 2 ^ 64"

definition char_byte :: "char \<Rightarrow> byte" where
  "char_byte c = of_nat (of_char c)"

text \<open>The bytes of \<^verbatim>\<open>s\<close> with its terminating NUL: \<^verbatim>\<open>strlen(s) + 1\<close> of them.\<close>

definition cstr_bytes :: "string \<Rightarrow> byte list" where
  "cstr_bytes s = map char_byte s @ [0]"

text \<open>
  \<^verbatim>\<open>0 == strncmp(a, b, n)\<close>: two NUL-terminated strings agree on their first \<open>n\<close>
  characters, or end together before that.
\<close>

definition strncmp_eq :: "string \<Rightarrow> string \<Rightarrow> nat \<Rightarrow> bool" where
  "strncmp_eq a b n \<longleftrightarrow> take n a = take n b"

definition isdigit :: "char \<Rightarrow> bool" where
  "isdigit c \<longleftrightarrow> 48 \<le> (of_char c :: nat) \<and> (of_char c :: nat) \<le> 57"

definition isalpha :: "char \<Rightarrow> bool" where
  "isalpha c \<longleftrightarrow> (65 \<le> (of_char c :: nat) \<and> (of_char c :: nat) \<le> 90)
     \<or> (97 \<le> (of_char c :: nat) \<and> (of_char c :: nat) \<le> 122)"

definition digit_value :: "char \<Rightarrow> nat" where
  "digit_value c = of_char c - 48"

section \<open>Generic lemmas\<close>

lemma status_code_inj: "status_code a = status_code b \<Longrightarrow> a = b"
  by (cases a; cases b) simp_all

lemma strncmp_eq_full [simp]: "strncmp_eq a b (length a + 1) \<longleftrightarrow> a = b"
proof
  assume "strncmp_eq a b (length a + 1)"
  then have *: "a = take (length a + 1) b"
    by (simp add: strncmp_eq_def)
  then have "length a = min (length b) (length a + 1)"
    by (metis length_take)
  then have "length b \<le> length a" by simp
  with * show "a = b" by simp
qed (simp add: strncmp_eq_def)

lemma strncmp_eq_full_Suc [simp]: "strncmp_eq a b (Suc (length a)) \<longleftrightarrow> a = b"
  using strncmp_eq_full [of a b] by simp

text \<open>Cutting a string at the first occurrence of a character.\<close>

lemma takeWhile_notin [simp]: "d \<notin> set xs \<Longrightarrow> takeWhile (\<lambda>c. c \<noteq> d) xs = xs"
  by (induction xs) auto

lemma dropWhile_notin [simp]: "d \<notin> set xs \<Longrightarrow> dropWhile (\<lambda>c. c \<noteq> d) xs = []"
  by (induction xs) auto

lemma takeWhile_cut [simp]: "d \<notin> set xs \<Longrightarrow> takeWhile (\<lambda>c. c \<noteq> d) (xs @ d # ys) = xs"
  by (induction xs) auto

lemma dropWhile_cut [simp]: "d \<notin> set xs \<Longrightarrow> dropWhile (\<lambda>c. c \<noteq> d) (xs @ d # ys) = d # ys"
  by (induction xs) auto

lemma size_t_id [simp]: "n < 2 ^ 64 \<Longrightarrow> size_t n = n"
  by (simp add: size_t_def)

lemma char_byte_inj: "char_byte c = char_byte d \<Longrightarrow> c = d"
proof -
  assume "char_byte c = char_byte d"
  then have "unat (of_nat (of_char c) :: byte) = unat (of_nat (of_char d) :: byte)"
    by (simp add: char_byte_def)
  moreover have "of_char c < (256::nat)" "of_char d < (256::nat)"
    by (simp_all add: of_char_def take_bit_nat_def)
  ultimately have "(of_char c :: nat) = of_char d"
    by (simp add: unat_of_nat)
  then show ?thesis by simp
qed

lemma cstr_bytes_inj [simp]: "cstr_bytes a = cstr_bytes b \<longleftrightarrow> a = b"
  by (auto simp: cstr_bytes_def dest: char_byte_inj intro: map_injective injI)

end
