(* ===== verification/Dictionary.thy ===== *)
theory Dictionary
  imports Orcm_Prelude
begin

text \<open>
  What the code above the hash table relies on: a keyed store whose operations are status
  returning C calls. \<open>lookup\<close> is the abstraction, the finite map the store stands for; the
  laws say what each call returns on a store that satisfies the invariant, and what it makes of
  the map. \<open>None\<close> in place of a result is a call that never returns; the laws exclude it.
\<close>

section \<open>Sequences of calls\<close>

text \<open>
  A client's calls in order, what each returns, and the same calls on a map. A client stops at
  the first update that reports an allocation failure.
\<close>

datatype ('k, 'v) call = Get 'k | Put 'k 'v | Remove 'k

fun run_calls ::
  "('s \<Rightarrow> 'k \<Rightarrow> (status \<times> 'v option \<times> 's) option) \<Rightarrow> ('s \<Rightarrow> 'k \<Rightarrow> 'v \<Rightarrow> (status \<times> 's) option)
    \<Rightarrow> ('s \<Rightarrow> 'k \<Rightarrow> (status \<times> 's) option) \<Rightarrow> 's \<Rightarrow> ('k, 'v) call list
    \<Rightarrow> ((status \<times> 'v option) list \<times> 's) option" where
  "run_calls get put remove s [] = Some ([], s)"
| "run_calls get put remove s (Get k # cs) =
     (case get s k of
        None \<Rightarrow> None
      | Some (st, r, s') \<Rightarrow>
          map_option (\<lambda>(outs, s''). ((st, r) # outs, s'')) (run_calls get put remove s' cs))"
| "run_calls get put remove s (Put k v # cs) =
     (case put s k v of
        None \<Rightarrow> None
      | Some (st, s') \<Rightarrow>
          if st = ERR_OUT_OF_RESOURCE then Some ([(st, None)], s')
          else map_option (\<lambda>(outs, s''). ((st, None) # outs, s'')) (run_calls get put remove s' cs))"
| "run_calls get put remove s (Remove k # cs) =
     (case remove s k of
        None \<Rightarrow> None
      | Some (st, s') \<Rightarrow>
          map_option (\<lambda>(outs, s''). ((st, None) # outs, s'')) (run_calls get put remove s' cs))"

fun spec_calls :: "('k \<rightharpoonup> 'v) \<Rightarrow> ('k, 'v) call list \<Rightarrow> (status \<times> 'v option) list \<times> ('k \<rightharpoonup> 'v)" where
  "spec_calls m [] = ([], m)"
| "spec_calls m (Get k # cs) =
     (let (outs, m') = spec_calls m cs
      in ((if m k = None then ERR_NOT_FOUND else SUCCESS, m k) # outs, m'))"
| "spec_calls m (Put k v # cs) =
     (let (outs, m') = spec_calls (m(k \<mapsto> v)) cs in ((SUCCESS, None) # outs, m'))"
| "spec_calls m (Remove k # cs) =
     (let (outs, m') = spec_calls (m(k := None)) cs
      in ((if m k = None then ERR_NOT_FOUND else SUCCESS, None) # outs, m'))"

section \<open>The interface\<close>

locale dictionary =
  fixes invar :: "'s \<Rightarrow> bool"
    and lookup :: "'s \<Rightarrow> 'k \<Rightarrow> 'v option"
    and get :: "'s \<Rightarrow> 'k \<Rightarrow> (status \<times> 'v option \<times> 's) option"
    and put :: "'s \<Rightarrow> 'k \<Rightarrow> 'v \<Rightarrow> (status \<times> 's) option"
    and remove :: "'s \<Rightarrow> 'k \<Rightarrow> (status \<times> 's) option"
  assumes get_absent: "invar s \<Longrightarrow> lookup s k = None \<Longrightarrow>
      \<exists>s'. get s k = Some (ERR_NOT_FOUND, None, s') \<and> invar s' \<and> lookup s' = lookup s"
    and get_present: "invar s \<Longrightarrow> lookup s k = Some v \<Longrightarrow>
      \<exists>s'. get s k = Some (SUCCESS, Some v, s') \<and> invar s' \<and> lookup s' = lookup s"
    and put_absent: "invar s \<Longrightarrow> lookup s k = None \<Longrightarrow>
      \<exists>st s'. put s k v = Some (st, s') \<and> st \<in> {SUCCESS, ERR_OUT_OF_RESOURCE} \<and>
        (st = SUCCESS \<longrightarrow> invar s') \<and> lookup s' = (lookup s)(k \<mapsto> v)"
    and put_present: "invar s \<Longrightarrow> lookup s k = Some w \<Longrightarrow>
      \<exists>s'. put s k v = Some (SUCCESS, s') \<and> invar s' \<and> lookup s' = (lookup s)(k \<mapsto> v)"
    and remove_absent: "invar s \<Longrightarrow> lookup s k = None \<Longrightarrow>
      \<exists>s'. remove s k = Some (ERR_NOT_FOUND, s') \<and> invar s' \<and> lookup s' = lookup s"
    and remove_present: "invar s \<Longrightarrow> lookup s k = Some v \<Longrightarrow>
      \<exists>s'. remove s k = Some (SUCCESS, s') \<and> invar s' \<and> lookup s' = (lookup s)(k := None)"
begin

text \<open>Every call on a store at rest returns.\<close>

lemma get_returns:
  assumes "invar s"
  shows "\<exists>s'. get s k = Some (if lookup s k = None then ERR_NOT_FOUND else SUCCESS, lookup s k, s') \<and>
    invar s' \<and> lookup s' = lookup s"
proof (cases "lookup s k")
  case None
  with get_absent [OF assms None] show ?thesis by simp
next
  case (Some v)
  with get_present [OF assms Some] show ?thesis by simp
qed

lemma put_returns:
  assumes "invar s"
  shows "\<exists>st s'. put s k v = Some (st, s') \<and> st \<in> {SUCCESS, ERR_OUT_OF_RESOURCE} \<and>
    (st = SUCCESS \<longrightarrow> invar s') \<and> lookup s' = (lookup s)(k \<mapsto> v)"
proof (cases "lookup s k")
  case None
  with put_absent [OF assms None] show ?thesis by simp
next
  case (Some w)
  with put_present [OF assms Some] show ?thesis by blast
qed

lemma remove_returns:
  assumes "invar s"
  shows "\<exists>s'. remove s k = Some (if lookup s k = None then ERR_NOT_FOUND else SUCCESS, s') \<and>
    invar s' \<and> lookup s' = (lookup s)(k := None)"
proof (cases "lookup s k")
  case None
  with remove_absent [OF assms None] show ?thesis by (simp add: fun_upd_idem)
next
  case (Some w)
  with remove_present [OF assms Some] show ?thesis by simp
qed

lemma put_success:
  assumes "invar s" "put s k v = Some (SUCCESS, s')"
  shows "invar s'" "lookup s' = (lookup s)(k \<mapsto> v)"
  using put_returns [OF assms(1), of k v] assms(2) by simp_all

text \<open>A successful update is read back, and reads of other keys are not affected.\<close>

lemma get_put:
  assumes "invar s" "put s k v = Some (SUCCESS, s')"
  shows "\<exists>st s''. get s' k' = Some (st, ((lookup s)(k \<mapsto> v)) k', s'') \<and> invar s''"
  using get_returns [of s' k'] put_success [OF assms] by auto

lemma get_remove:
  assumes "invar s" "remove s k = Some (st, s')"
  shows "\<exists>st s''. get s' k' = Some (st, ((lookup s)(k := None)) k', s'') \<and> invar s''"
  using get_returns [of s' k'] remove_returns [OF assms(1), of k] assms(2) by auto

text \<open>Removing what was just stored gives back the map one had before it.\<close>

lemma remove_put:
  assumes "invar s" "lookup s k = None" "put s k v = Some (SUCCESS, s')"
  shows "\<exists>s''. remove s' k = Some (SUCCESS, s'') \<and> invar s'' \<and> lookup s'' = lookup s"
  using remove_present [of s' k v] put_success [OF assms(1,3)] assms(2)
  by (simp add: fun_upd_idem)

text \<open>
  Every sequence of calls returns, and as long as no allocation fails each call returns what the
  map returns.
\<close>

lemma run_calls_refine:
  assumes "invar s"
  shows "\<exists>outs s'. run_calls get put remove s cs = Some (outs, s') \<and>
    ((\<forall>out\<in>set outs. fst out \<noteq> ERR_OUT_OF_RESOURCE) \<longrightarrow>
       outs = fst (spec_calls (lookup s) cs) \<and> invar s' \<and> lookup s' = snd (spec_calls (lookup s) cs))"
  using assms
proof (induction cs arbitrary: s)
  case Nil
  then show ?case by simp
next
  case (Cons c cs)
  show ?case
  proof (cases c)
    case (Get k)
    with get_returns [OF Cons.prems, of k] obtain s' where
      g: "get s k = Some (if lookup s k = None then ERR_NOT_FOUND else SUCCESS, lookup s k, s')"
        "invar s'" "lookup s' = lookup s" by blast
    from Cons.IH [OF g(2)] obtain outs s'' where
      "run_calls get put remove s' cs = Some (outs, s'')"
      "(\<forall>out\<in>set outs. fst out \<noteq> ERR_OUT_OF_RESOURCE) \<longrightarrow> outs = fst (spec_calls (lookup s') cs) \<and>
         invar s'' \<and> lookup s'' = snd (spec_calls (lookup s') cs)" by blast
    with g Get show ?thesis by (simp add: Let_def split_def)
  next
    case (Put k v)
    with put_returns [OF Cons.prems, of k v] obtain st s' where
      p: "put s k v = Some (st, s')" "st \<in> {SUCCESS, ERR_OUT_OF_RESOURCE}"
        "st = SUCCESS \<longrightarrow> invar s'" "lookup s' = (lookup s)(k \<mapsto> v)" by blast
    show ?thesis
    proof (cases "st = SUCCESS")
      case True
      with p have "invar s'" by simp
      from Cons.IH [OF this] obtain outs s'' where
        "run_calls get put remove s' cs = Some (outs, s'')"
        "(\<forall>out\<in>set outs. fst out \<noteq> ERR_OUT_OF_RESOURCE) \<longrightarrow> outs = fst (spec_calls (lookup s') cs) \<and>
           invar s'' \<and> lookup s'' = snd (spec_calls (lookup s') cs)" by blast
      with p True Put show ?thesis by (simp add: Let_def split_def)
    next
      case False
      with p Put show ?thesis by auto
    qed
  next
    case (Remove k)
    with remove_returns [OF Cons.prems, of k] obtain s' where
      g: "remove s k = Some (if lookup s k = None then ERR_NOT_FOUND else SUCCESS, s')"
        "invar s'" "lookup s' = (lookup s)(k := None)" by blast
    from Cons.IH [OF g(2)] obtain outs s'' where
      "run_calls get put remove s' cs = Some (outs, s'')"
      "(\<forall>out\<in>set outs. fst out \<noteq> ERR_OUT_OF_RESOURCE) \<longrightarrow> outs = fst (spec_calls (lookup s') cs) \<and>
         invar s'' \<and> lookup s'' = snd (spec_calls (lookup s') cs)" by blast
    with g Remove show ?thesis by (simp add: Let_def split_def)
  qed
qed

end

end
