(* ===== verification/Opal_Hash_Table.thy ===== *)
theory Opal_Hash_Table
  imports Dictionary "HOL-Library.Multiset"
begin

text \<open>
  The hash table of \<^verbatim>\<open>opal/class/opal_hash_table.c\<close>: open addressing with linear
  probing, growth at a density limit and re-insertion of the followers of a removed element.
  The first part translates the C functions; the second proves that on every well-formed table
  they implement a finite map, and interprets the \<open>dictionary\<close> interface on them.

  A slot is \<open>None\<close> when its \<^verbatim>\<open>valid\<close> flag is 0; what an invalid element still holds is
  never read by the code. The build modelled is the one with \<^verbatim>\<open>OPAL_ENABLE_DEBUG\<close>, so
  the checks for a missing \<^verbatim>\<open>init\<close> and for a different key type are branches of the
  operations. A \<^verbatim>\<open>for (;;)\<close> loop takes its fuel as its first argument, and an operation
  that does not return has the value \<open>None\<close>.
\<close>

section \<open>Data\<close>

text \<open>The key union of \<^verbatim>\<open>opal_hash_element_t\<close> and the type methods that tell which member is in use.\<close>

datatype hkey = KeyU32 "32 word" | KeyU64 "64 word" | KeyPtr "byte list"

datatype hmethods = Methods_uint32 | Methods_uint64 | Methods_ptr

type_synonym 'v slot = "(hkey \<times> 'v) option"

record 'v opal_hash_table =
  ht_table :: "'v slot list"
  ht_capacity :: nat
  ht_size :: nat
  ht_growth_trigger :: nat
  ht_density_numer :: nat
  ht_density_denom :: nat
  ht_growth_numer :: nat
  ht_growth_denom :: nat
  ht_type_methods :: "hmethods option"

fun key_methods :: "hkey \<Rightarrow> hmethods" where
  "key_methods (KeyU32 _) = Methods_uint32"
| "key_methods (KeyU64 _) = Methods_uint64"
| "key_methods (KeyPtr _) = Methods_ptr"

section \<open>Hashing\<close>

text \<open>\<^verbatim>\<open>hash = HASH_MULTIPLIER*hash + *scanner++\<close>, in 64-bit arithmetic.\<close>

definition opal_hash_hash_key_ptr :: "byte list \<Rightarrow> 64 word" where
  "opal_hash_hash_key_ptr key = foldl (\<lambda>hash c. 31 * hash + ucast c) 0 key"

fun hash_elt :: "hkey \<Rightarrow> 64 word" where
  "hash_elt (KeyU32 k) = ucast k"
| "hash_elt (KeyU64 k) = k"
| "hash_elt (KeyPtr k) = opal_hash_hash_key_ptr k"

text \<open>The first index probed: \<^verbatim>\<open>hash % capacity\<close>.\<close>

definition home :: "nat \<Rightarrow> hkey \<Rightarrow> nat" where
  "home capacity k = unat (hash_elt k) mod capacity"

section \<open>Construction\<close>

definition opal_hash_table_construct :: "'v opal_hash_table" where
  "opal_hash_table_construct =
     \<lparr>ht_table = [], ht_capacity = 0, ht_size = 0, ht_growth_trigger = 0,
      ht_density_numer = 0, ht_density_denom = 0, ht_growth_numer = 0, ht_growth_denom = 0,
      ht_type_methods = None\<rparr>"

definition opal_hash_round_capacity_up :: "nat \<Rightarrow> nat" where
  "opal_hash_round_capacity_up capacity = size_t (size_t (capacity + 29) div 30 * 30 + 1)"

text \<open>
  \<^verbatim>\<open>calloc(n, sizeof(opal_hash_element_t))\<close>: it fails when the product of its arguments
  does not fit a \<^verbatim>\<open>size_t\<close> (an element has 32 bytes), and otherwise as the allocator
  \<open>mem\<close> decides.
\<close>

definition calloc_ok :: "(nat \<Rightarrow> bool) \<Rightarrow> nat \<Rightarrow> bool" where
  "calloc_ok mem n \<longleftrightarrow> n * 32 < 2 ^ 64 \<and> mem n"

definition opal_hash_table_init2 ::
  "(nat \<Rightarrow> bool) \<Rightarrow> 'v opal_hash_table \<Rightarrow> nat \<Rightarrow> nat \<Rightarrow> nat \<Rightarrow> nat \<Rightarrow> nat
     \<Rightarrow> status \<times> 'v opal_hash_table" where
  "opal_hash_table_init2 mem ht estimated_max_size density_numer density_denom
     growth_numer growth_denom =
     (let est_capacity = size_t (estimated_max_size * density_denom) div density_numer;
          capacity = opal_hash_round_capacity_up est_capacity
      in if \<not> calloc_ok mem capacity
         then (ERR_OUT_OF_RESOURCE, ht\<lparr>ht_table := []\<rparr>)
         else (SUCCESS,
               ht\<lparr>ht_table := replicate capacity None,
                  ht_capacity := capacity,
                  ht_density_numer := density_numer,
                  ht_density_denom := density_denom,
                  ht_growth_numer := growth_numer,
                  ht_growth_denom := growth_denom,
                  ht_growth_trigger := size_t (capacity * density_numer) div density_denom,
                  ht_type_methods := None\<rparr>))"

definition opal_hash_table_init ::
  "(nat \<Rightarrow> bool) \<Rightarrow> 'v opal_hash_table \<Rightarrow> nat \<Rightarrow> status \<times> 'v opal_hash_table" where
  "opal_hash_table_init mem ht table_size = opal_hash_table_init2 mem ht table_size 1 2 2 1"

definition opal_hash_table_get_size :: "'v opal_hash_table \<Rightarrow> nat" where
  "opal_hash_table_get_size ht = ht_size ht"

definition opal_hash_table_remove_all :: "'v opal_hash_table \<Rightarrow> status \<times> 'v opal_hash_table" where
  "opal_hash_table_remove_all ht =
     (SUCCESS, ht\<lparr>ht_table := map (\<lambda>_. None) (ht_table ht), ht_size := 0,
                  ht_type_methods := None\<rparr>)"

section \<open>Probing\<close>

text \<open>\<^verbatim>\<open>if (ii == capacity) { ii = 0; }\<close>\<close>

definition wrap :: "nat \<Rightarrow> nat \<Rightarrow> nat" where
  "wrap capacity ii = (if ii = capacity then 0 else ii)"

text \<open>
  The search loop of \<^verbatim>\<open>get_value\<close>, \<^verbatim>\<open>set_value\<close> and \<^verbatim>\<open>remove_value\<close>: from
  \<open>ii\<close> on, wrapping, to the first slot that is invalid or holds the key.
\<close>

fun probe :: "nat \<Rightarrow> 'v slot list \<Rightarrow> hkey \<Rightarrow> nat \<Rightarrow> nat option" where
  "probe 0 t k ii = None"
| "probe (Suc fuel) t k ii =
     (let ii = wrap (length t) ii
      in case t ! ii of
           None \<Rightarrow> Some ii
         | Some (k', v) \<Rightarrow> if k' = k then Some ii else probe fuel t k (ii + 1))"

text \<open>The loop of \<^verbatim>\<open>opal_hash_grow\<close> that looks for a free slot of the new table.\<close>

fun find_free :: "nat \<Rightarrow> 'v slot list \<Rightarrow> nat \<Rightarrow> nat option" where
  "find_free 0 t ii = None"
| "find_free (Suc fuel) t ii =
     (let ii = wrap (length t) ii
      in if t ! ii = None then Some ii else find_free fuel t (ii + 1))"

fun grow_insert :: "'v slot list \<Rightarrow> 'v slot list \<Rightarrow> 'v slot list option" where
  "grow_insert [] new_table = Some new_table"
| "grow_insert (None # old) new_table = grow_insert old new_table"
| "grow_insert (Some (k, v) # old) new_table =
     (case find_free (length new_table) new_table (home (length new_table) k) of
        None \<Rightarrow> None
      | Some ii \<Rightarrow> grow_insert old (new_table[ii := Some (k, v)]))"

definition opal_hash_grow ::
  "(nat \<Rightarrow> bool) \<Rightarrow> 'v opal_hash_table \<Rightarrow> (status \<times> 'v opal_hash_table) option" where
  "opal_hash_grow mem ht =
     (let new_capacity = opal_hash_round_capacity_up
                           (size_t (ht_capacity ht * ht_growth_numer ht) div ht_growth_denom ht)
      in if \<not> calloc_ok mem new_capacity then Some (ERR_OUT_OF_RESOURCE, ht)
         else case grow_insert (ht_table ht) (replicate new_capacity None) of
                None \<Rightarrow> None
              | Some new_table \<Rightarrow>
                  Some (SUCCESS,
                    ht\<lparr>ht_table := new_table,
                       ht_capacity := new_capacity,
                       ht_growth_trigger :=
                         size_t (new_capacity * ht_density_numer ht) div ht_density_denom ht\<rparr>))"

section \<open>Removal of an element\<close>

text \<open>
  The inner loop of \<^verbatim>\<open>opal_hash_table_remove_elt_at\<close>: where the element at \<open>ii\<close>
  belongs, \<open>ii\<close> itself or the first free slot before it on its probe path. \<open>jj\<close> meets
  \<open>ii\<close> after at most \<^verbatim>\<open>capacity\<close> steps.
\<close>

fun settle :: "nat \<Rightarrow> 'v slot list \<Rightarrow> nat \<Rightarrow> nat \<Rightarrow> nat" where
  "settle 0 t ii jj = ii"
| "settle (Suc fuel) t ii jj =
     (let jj = wrap (length t) jj
      in if jj = ii then ii
         else if t ! jj = None then jj
         else settle fuel t ii (jj + 1))"

text \<open>The outer loop: scan the elements that follow the removed one up to an invalid one.\<close>

fun reinsert :: "nat \<Rightarrow> 'v slot list \<Rightarrow> nat \<Rightarrow> 'v slot list option" where
  "reinsert 0 t ii = None"
| "reinsert (Suc fuel) t ii =
     (let ii = wrap (length t) ii
      in case t ! ii of
           None \<Rightarrow> Some t
         | Some (k, v) \<Rightarrow>
             (let jj = settle (length t) t ii (home (length t) k)
              in if jj = ii then reinsert fuel t (ii + 1)
                 else reinsert fuel (t[jj := Some (k, v), ii := None]) (ii + 1)))"

definition opal_hash_table_remove_elt_at ::
  "'v opal_hash_table \<Rightarrow> nat \<Rightarrow> (status \<times> 'v opal_hash_table) option" where
  "opal_hash_table_remove_elt_at ht ii =
     (if ht_table ht ! ii = None then Some (ERROR, ht)
      else case reinsert (ht_capacity ht) ((ht_table ht)[ii := None]) (ii + 1) of
             None \<Rightarrow> None
           | Some t \<Rightarrow> Some (SUCCESS, ht\<lparr>ht_table := t, ht_size := ht_size ht - 1\<rparr>))"

section \<open>Lookup, update, removal by key\<close>

text \<open>
  The three key types have textually identical functions, up to the key they read; each C
  function is an instance of these.
\<close>

definition other_methods :: "'v opal_hash_table \<Rightarrow> hkey \<Rightarrow> bool" where
  "other_methods ht k \<longleftrightarrow> ht_type_methods ht \<notin> {None, Some (key_methods k)}"

definition get_value ::
  "'v opal_hash_table \<Rightarrow> hkey \<Rightarrow> (status \<times> 'v option \<times> 'v opal_hash_table) option" where
  "get_value ht k =
     (if ht_capacity ht = 0 then Some (ERROR, None, ht)
      else if other_methods ht k then Some (ERROR, None, ht)
      else
        let ht = ht\<lparr>ht_type_methods := Some (key_methods k)\<rparr>
        in case probe (ht_capacity ht) (ht_table ht) k (home (ht_capacity ht) k) of
             None \<Rightarrow> None
           | Some ii \<Rightarrow>
               (case ht_table ht ! ii of
                  None \<Rightarrow> Some (ERR_NOT_FOUND, None, ht)
                | Some (k', v) \<Rightarrow> Some (SUCCESS, Some v, ht)))"

definition set_value ::
  "(nat \<Rightarrow> bool) \<Rightarrow> 'v opal_hash_table \<Rightarrow> hkey \<Rightarrow> 'v
     \<Rightarrow> (status \<times> 'v opal_hash_table) option" where
  "set_value mem ht k v =
     (if ht_capacity ht = 0 then Some (ERR_BAD_PARAM, ht)
      else if other_methods ht k then Some (ERROR, ht)
      else
        let ht = ht\<lparr>ht_type_methods := Some (key_methods k)\<rparr>
        in case probe (ht_capacity ht) (ht_table ht) k (home (ht_capacity ht) k) of
             None \<Rightarrow> None
           | Some ii \<Rightarrow>
               (case ht_table ht ! ii of
                  None \<Rightarrow>
                    (let ht = ht\<lparr>ht_table := (ht_table ht)[ii := Some (k, v)],
                                 ht_size := ht_size ht + 1\<rparr>
                     in if ht_size ht \<ge> ht_growth_trigger ht then opal_hash_grow mem ht
                        else Some (SUCCESS, ht))
                | Some (k', v') \<Rightarrow>
                    Some (SUCCESS, ht\<lparr>ht_table := (ht_table ht)[ii := Some (k', v)]\<rparr>)))"

definition remove_value ::
  "'v opal_hash_table \<Rightarrow> hkey \<Rightarrow> (status \<times> 'v opal_hash_table) option" where
  "remove_value ht k =
     (if ht_capacity ht = 0 then Some (ERROR, ht)
      else if other_methods ht k then Some (ERROR, ht)
      else
        let ht = ht\<lparr>ht_type_methods := Some (key_methods k)\<rparr>
        in case probe (ht_capacity ht) (ht_table ht) k (home (ht_capacity ht) k) of
             None \<Rightarrow> None
           | Some ii \<Rightarrow>
               (case ht_table ht ! ii of
                  None \<Rightarrow> Some (ERR_NOT_FOUND, ht)
                | Some _ \<Rightarrow> opal_hash_table_remove_elt_at ht ii))"

definition opal_hash_table_get_value_uint32 ::
  "'v opal_hash_table \<Rightarrow> 32 word \<Rightarrow> (status \<times> 'v option \<times> 'v opal_hash_table) option" where
  "opal_hash_table_get_value_uint32 ht key = get_value ht (KeyU32 key)"

definition opal_hash_table_set_value_uint32 ::
  "(nat \<Rightarrow> bool) \<Rightarrow> 'v opal_hash_table \<Rightarrow> 32 word \<Rightarrow> 'v
     \<Rightarrow> (status \<times> 'v opal_hash_table) option" where
  "opal_hash_table_set_value_uint32 mem ht key value = set_value mem ht (KeyU32 key) value"

definition opal_hash_table_remove_value_uint32 ::
  "'v opal_hash_table \<Rightarrow> 32 word \<Rightarrow> (status \<times> 'v opal_hash_table) option" where
  "opal_hash_table_remove_value_uint32 ht key = remove_value ht (KeyU32 key)"

definition opal_hash_table_get_value_uint64 ::
  "'v opal_hash_table \<Rightarrow> 64 word \<Rightarrow> (status \<times> 'v option \<times> 'v opal_hash_table) option" where
  "opal_hash_table_get_value_uint64 ht key = get_value ht (KeyU64 key)"

definition opal_hash_table_set_value_uint64 ::
  "(nat \<Rightarrow> bool) \<Rightarrow> 'v opal_hash_table \<Rightarrow> 64 word \<Rightarrow> 'v
     \<Rightarrow> (status \<times> 'v opal_hash_table) option" where
  "opal_hash_table_set_value_uint64 mem ht key value = set_value mem ht (KeyU64 key) value"

definition opal_hash_table_remove_value_uint64 ::
  "'v opal_hash_table \<Rightarrow> 64 word \<Rightarrow> (status \<times> 'v opal_hash_table) option" where
  "opal_hash_table_remove_value_uint64 ht key = remove_value ht (KeyU64 key)"

definition opal_hash_table_get_value_ptr ::
  "'v opal_hash_table \<Rightarrow> byte list \<Rightarrow> (status \<times> 'v option \<times> 'v opal_hash_table) option" where
  "opal_hash_table_get_value_ptr ht key = get_value ht (KeyPtr key)"

definition opal_hash_table_set_value_ptr ::
  "(nat \<Rightarrow> bool) \<Rightarrow> 'v opal_hash_table \<Rightarrow> byte list \<Rightarrow> 'v
     \<Rightarrow> (status \<times> 'v opal_hash_table) option" where
  "opal_hash_table_set_value_ptr mem ht key value = set_value mem ht (KeyPtr key) value"

definition opal_hash_table_remove_value_ptr ::
  "'v opal_hash_table \<Rightarrow> byte list \<Rightarrow> (status \<times> 'v opal_hash_table) option" where
  "opal_hash_table_remove_value_ptr ht key = remove_value ht (KeyPtr key)"

section \<open>Traversal\<close>

text \<open>A node pointer is the index of its element; \<open>None\<close> is NULL.\<close>

definition opal_hash_table_get_next_elt :: "'v opal_hash_table \<Rightarrow> nat option \<Rightarrow> nat option" where
  "opal_hash_table_get_next_elt ht prev =
     List.find (\<lambda>ii. ht_table ht ! ii \<noteq> None)
       [(case prev of None \<Rightarrow> 0 | Some p \<Rightarrow> p + 1) ..< ht_capacity ht]"

definition get_next_key ::
  "'v opal_hash_table \<Rightarrow> nat option \<Rightarrow> status \<times> (hkey \<times> 'v \<times> nat) option" where
  "get_next_key ht in_node =
     (case opal_hash_table_get_next_elt ht in_node of
        None \<Rightarrow> (ERROR, None)
      | Some ii \<Rightarrow>
          (case ht_table ht ! ii of
             None \<Rightarrow> (ERROR, None)
           | Some (k, v) \<Rightarrow> (SUCCESS, Some (k, v, ii))))"

definition opal_hash_table_get_next_key_uint32 ::
  "'v opal_hash_table \<Rightarrow> nat option \<Rightarrow> status \<times> (32 word \<times> 'v \<times> nat) option" where
  "opal_hash_table_get_next_key_uint32 ht in_node =
     (case get_next_key ht in_node of
        (SUCCESS, Some (KeyU32 k, v, ii)) \<Rightarrow> (SUCCESS, Some (k, v, ii))
      | _ \<Rightarrow> (ERROR, None))"

definition opal_hash_table_get_first_key_uint32 ::
  "'v opal_hash_table \<Rightarrow> status \<times> (32 word \<times> 'v \<times> nat) option" where
  "opal_hash_table_get_first_key_uint32 ht = opal_hash_table_get_next_key_uint32 ht None"

definition opal_hash_table_get_next_key_uint64 ::
  "'v opal_hash_table \<Rightarrow> nat option \<Rightarrow> status \<times> (64 word \<times> 'v \<times> nat) option" where
  "opal_hash_table_get_next_key_uint64 ht in_node =
     (case get_next_key ht in_node of
        (SUCCESS, Some (KeyU64 k, v, ii)) \<Rightarrow> (SUCCESS, Some (k, v, ii))
      | _ \<Rightarrow> (ERROR, None))"

definition opal_hash_table_get_first_key_uint64 ::
  "'v opal_hash_table \<Rightarrow> status \<times> (64 word \<times> 'v \<times> nat) option" where
  "opal_hash_table_get_first_key_uint64 ht = opal_hash_table_get_next_key_uint64 ht None"

definition opal_hash_table_get_next_key_ptr ::
  "'v opal_hash_table \<Rightarrow> nat option \<Rightarrow> status \<times> (byte list \<times> 'v \<times> nat) option" where
  "opal_hash_table_get_next_key_ptr ht in_node =
     (case get_next_key ht in_node of
        (SUCCESS, Some (KeyPtr k, v, ii)) \<Rightarrow> (SUCCESS, Some (k, v, ii))
      | _ \<Rightarrow> (ERROR, None))"

definition opal_hash_table_get_first_key_ptr ::
  "'v opal_hash_table \<Rightarrow> status \<times> (byte list \<times> 'v \<times> nat) option" where
  "opal_hash_table_get_first_key_ptr ht = opal_hash_table_get_next_key_ptr ht None"

section \<open>Well-formed tables\<close>

text \<open>
  \<open>x\<close> lies on the cyclic path from \<open>a\<close> to \<open>b\<close>, \<open>b\<close> excluded (for indices below the
  capacity).
\<close>

definition between :: "nat \<Rightarrow> nat \<Rightarrow> nat \<Rightarrow> bool" where
  "between a b x \<longleftrightarrow> (if a \<le> b then a \<le> x \<and> x < b else a \<le> x \<or> x < b)"

text \<open>The valid elements in slot order, and the map they stand for.\<close>

definition entries :: "'v slot list \<Rightarrow> (hkey \<times> 'v) list" where
  "entries t = map the (filter (\<lambda>s. s \<noteq> None) t)"

definition tbl_map :: "'v slot list \<Rightarrow> hkey \<rightharpoonup> 'v" where
  "tbl_map t = map_of (entries t)"

text \<open>
  No hole on the probe path of any element except those that a set \<open>G\<close> excuses, and no key
  twice. A table at rest has no excused hole.
\<close>

definition paths_ok :: "'v slot list \<Rightarrow> (nat \<Rightarrow> nat \<Rightarrow> bool) \<Rightarrow> bool" where
  "paths_ok t excused \<longleftrightarrow>
     (\<forall>i<length t. \<forall>k v. t ! i = Some (k, v) \<longrightarrow>
        (\<forall>x<length t. between (home (length t) k) i x \<longrightarrow> t ! x \<noteq> None \<or> excused i x))"

definition wf_slots :: "'v slot list \<Rightarrow> bool" where
  "wf_slots t \<longleftrightarrow> t \<noteq> [] \<and> paths_ok t (\<lambda>_ _. False) \<and> distinct (map fst (entries t))"

definition wf_table :: "'v opal_hash_table \<Rightarrow> bool" where
  "wf_table ht \<longleftrightarrow>
     wf_slots (ht_table ht) \<and>
     ht_capacity ht = length (ht_table ht) \<and>
     ht_size ht = length (entries (ht_table ht)) \<and>
     ht_size ht < ht_capacity ht \<and>
     ht_capacity ht < 2 ^ 59 \<and>
     ht_density_numer ht = 1 \<and> ht_density_denom ht = 2 \<and>
     ht_growth_numer ht = 2 \<and> ht_growth_denom ht = 1 \<and>
     ht_growth_trigger ht = ht_capacity ht div 2 \<and>
     (\<forall>k\<in>fst ` set (entries (ht_table ht)). ht_type_methods ht = Some (key_methods k))"

section \<open>Cyclic paths\<close>

lemma between_empty [simp]: "\<not> between a a x"
  by (simp add: between_def)

lemma between_step:
  assumes "i < n" "r < n" "x < n" "r \<noteq> i"
  shows "between i r x \<longleftrightarrow> x = i \<or> between (wrap n (i + 1)) r x"
  using assms by (auto simp: between_def wrap_def)

lemma between_snoc:
  assumes "a < n" "i < n" "x < n" "a \<noteq> wrap n (i + 1)"
  shows "between a (wrap n (i + 1)) x \<longleftrightarrow> between a i x \<or> x = i"
  using assms by (auto simp: between_def wrap_def split: if_splits)

lemma between_cases:
  assumes "h < n" "r < n" "s < n" "r \<noteq> s"
  shows "between h s r \<or> between h r s"
  using assms by (auto simp: between_def)

lemma between_prefix:
  assumes "h < n" "i < n" "g < n" "x < n" "between h i g" "between h g x"
  shows "between h i x \<and> x \<noteq> i \<and> x \<noteq> g"
  using assms by (auto simp: between_def split: if_splits)

lemma between_suffix:
  assumes "h < n" "i < n" "g < n" "x < n" "between h i g" "between (wrap n (g + 1)) i x"
  shows "between h i x"
  using assms by (auto simp: between_def wrap_def split: if_splits)

lemma between_after:
  assumes "g < n" "i < n" "j < n" "i \<noteq> g" "j \<noteq> g" "i \<noteq> j" "\<not> between (wrap n (g + 1)) j i"
  shows "between (wrap n (g + 1)) i j"
  using assms by (auto simp: between_def wrap_def split: if_splits)

lemma between_full:
  assumes "g < n" "i < n" "i \<noteq> g"
  shows "between (wrap n (g + 1)) g i"
  using assms by (auto simp: between_def wrap_def split: if_splits)

text \<open>Steps from \<open>a\<close> to \<open>b\<close> on the cycle.\<close>

definition steps :: "nat \<Rightarrow> nat \<Rightarrow> nat \<Rightarrow> nat" where
  "steps n a b = (if a \<le> b then b - a else n - a + b)"

lemma steps_less: "a < n \<Longrightarrow> b < n \<Longrightarrow> steps n a b < n"
  by (auto simp: steps_def)

lemma steps_wrap:
  assumes "a < n" "b < n" "a \<noteq> b"
  shows "steps n a b = Suc (steps n (wrap n (a + 1)) b)"
  using assms by (auto simp: steps_def wrap_def)

lemma wrap_less: "i \<le> n \<Longrightarrow> 0 < n \<Longrightarrow> wrap n i < n"
  by (auto simp: wrap_def)

lemma wrap_id [simp]: "i < n \<Longrightarrow> wrap n i = i"
  by (simp add: wrap_def)

lemma home_less: "0 < n \<Longrightarrow> home n k < n"
  by (simp add: home_def)

section \<open>Entries\<close>

lemma entries_simps [simp]:
  "entries [] = []"
  "entries (None # t) = entries t"
  "entries (Some e # t) = e # entries t"
  "entries (t @ u) = entries t @ entries u"
  by (simp_all add: entries_def)

lemma entries_replicate [simp]: "entries (replicate n None) = []"
  by (induction n) simp_all

lemma entries_clear [simp]: "entries (map (\<lambda>_. None) t) = []"
  by (induction t) simp_all

lemma in_entries: "e \<in> set (entries t) \<longleftrightarrow> (\<exists>i<length t. t ! i = Some e)"
  by (auto simp: entries_def in_set_conv_nth image_iff)

lemma entries_update:
  assumes "i < length t"
  shows "mset (entries (t[i := s])) + mset (entries [t ! i]) = mset (entries t) + mset (entries [s])"
proof -
  have "t = take i t @ [t ! i] @ drop (Suc i) t"
    using assms by (simp add: id_take_nth_drop)
  from arg_cong [OF this, of entries]
  have t: "entries t = entries (take i t) @ entries [t ! i] @ entries (drop (Suc i) t)"
    by (simp only: entries_simps(4))
  have "t[i := s] = take i t @ [s] @ drop (Suc i) t"
    using assms by (simp add: upd_conv_take_nth_drop)
  from arg_cong [OF this, of entries]
  have u: "entries (t[i := s]) = entries (take i t) @ entries [s] @ entries (drop (Suc i) t)"
    by (simp only: entries_simps(4))
  show ?thesis
    by (simp only: t u mset_append ac_simps)
qed

lemma entries_free:
  assumes "length (entries t) < length t"
  obtains f where "f < length t" "t ! f = None"
proof -
  have "\<not> (\<forall>f<length t. t ! f \<noteq> None)"
  proof
    assume "\<forall>f<length t. t ! f \<noteq> None"
    then have "filter (\<lambda>s. s \<noteq> None) t = t"
      by (auto simp: filter_id_conv in_set_conv_nth)
    with assms show False by (simp add: entries_def)
  qed
  with that show ?thesis by blast
qed

lemma entries_index_unique:
  assumes "distinct (map fst (entries t))" "i < length t" "j < length t"
    "t ! i = Some (k, v)" "t ! j = Some (k, w)"
  shows "i = j"
  using assms
proof (induction t arbitrary: i j)
  case (Cons s t)
  have no: "\<not> (t ! n = Some (k, u) \<and> n < length t)" if "s = Some (k, w')" for n u w'
    using that Cons.prems(1) in_entries [of "(k, u)" t] by (force simp: image_iff)
  have d: "distinct (map fst (entries t))"
    using Cons.prems(1) by (cases s) auto
  show ?case
    using Cons.prems Cons.IH [OF d] no by (cases i; cases j) auto
qed simp

lemma map_of_mset_cong:
  assumes "mset xs = mset ys" "distinct (map fst xs)"
  shows "map_of xs = map_of ys" "distinct (map fst ys)"
proof -
  show d: "distinct (map fst ys)"
    using assms by (metis mset_eq_imp_distinct_iff mset_map)
  show "map_of xs = map_of ys"
  proof
    fix k
    have "map_of xs k = Some v \<longleftrightarrow> map_of ys k = Some v" for v
      using assms d by (metis map_of_eq_Some_iff mset_eq_setD)
    then show "map_of xs k = map_of ys k"
      by (metis option.exhaust)
  qed
qed

section \<open>The probe loop\<close>

lemma probe_result:
  assumes "probe fuel t k i = Some r" "i \<le> length t" "t \<noteq> []"
  shows "r < length t \<and> (t ! r = None \<or> (\<exists>v. t ! r = Some (k, v))) \<and>
    (\<forall>x<length t. between (wrap (length t) i) r x \<longrightarrow> (\<exists>k' v. t ! x = Some (k', v) \<and> k' \<noteq> k))"
  using assms
proof (induction fuel arbitrary: i)
  case (Suc fuel)
  let ?i = "wrap (length t) i"
  have i: "?i < length t"
    using Suc.prems(2,3) by (simp add: wrap_less)
  show ?case
  proof (cases "\<exists>k' v. t ! ?i = Some (k', v) \<and> k' \<noteq> k")
    case True
    then obtain k' v where e: "t ! ?i = Some (k', v)" "k' \<noteq> k" by blast
    with Suc.prems(1) have "probe fuel t k (?i + 1) = Some r"
      by (simp add: Let_def)
    from Suc.IH [OF this] i Suc.prems(3)
    have r: "r < length t" "t ! r = None \<or> (\<exists>v. t ! r = Some (k, v))"
      "\<forall>x<length t. between (wrap (length t) (?i + 1)) r x \<longrightarrow>
         (\<exists>k' v. t ! x = Some (k', v) \<and> k' \<noteq> k)"
      by auto
    with e have "r \<noteq> ?i" by auto
    with r e i show ?thesis
      by (auto simp: between_step [of ?i "length t" r])
  next
    case False
    then have "t ! ?i = None \<or> (\<exists>v. t ! ?i = Some (k, v))"
      by (cases "t ! ?i") auto
    with Suc.prems(1) i show ?thesis
      by (auto simp: Let_def split: option.splits if_splits)
  qed
qed simp

lemma probe_stops:
  assumes "f < length t" "t ! f = None \<or> (\<exists>v. t ! f = Some (k, v))" "i \<le> length t"
    "steps (length t) (wrap (length t) i) f < fuel"
  shows "\<exists>r. probe fuel t k i = Some r"
  using assms(3,4)
proof (induction fuel arbitrary: i)
  case (Suc fuel)
  let ?i = "wrap (length t) i"
  have i: "?i < length t"
    using Suc.prems(1) assms(1) by (auto intro: wrap_less)
  show ?case
  proof (cases "f = ?i")
    case True
    with assms(2) show ?thesis by (auto simp: Let_def)
  next
    case False
    with steps_wrap [OF i assms(1)] Suc.prems
    have "steps (length t) (wrap (length t) (?i + 1)) f < fuel" by simp
    with Suc.IH [of "?i + 1"] i show ?thesis
      by (auto simp: Let_def split: option.split)
  qed
qed simp

text \<open>Where every slot holds another key, the loop of the C function never ends.\<close>

lemma probe_diverges:
  assumes "\<forall>x<length t. \<exists>k' v. t ! x = Some (k', v) \<and> k' \<noteq> k" "i \<le> length t" "t \<noteq> []"
  shows "probe fuel t k i = None"
proof (cases "probe fuel t k i")
  case (Some r)
  with probe_result [OF Some assms(2,3)] assms(1) show ?thesis by force
qed

lemma probe_total:
  assumes "length (entries t) < length t"
  shows "\<exists>r. probe (length t) t k (home (length t) k) = Some r"
proof -
  obtain f where f: "f < length t" "t ! f = None"
    using assms entries_free by blast
  have h: "home (length t) k < length t"
    using f by (intro home_less) auto
  show ?thesis
    using f h by (intro probe_stops) (auto simp: steps_less)
qed

text \<open>On well-formed slots the loop finds the key wherever it is stored.\<close>

lemma probe_finds:
  assumes wf: "wf_slots t" and r: "probe fuel t k (home (length t) k) = Some r"
    and s: "s < length t" "t ! s = Some (k, v)"
  shows "r = s"
proof (rule ccontr)
  assume ne: "r \<noteq> s"
  let ?h = "home (length t) k"
  have t: "t \<noteq> []" and h: "?h < length t"
    using wf by (auto simp: wf_slots_def home_less)
  from probe_result [OF r] h t
  have r': "r < length t" "t ! r = None \<or> (\<exists>v. t ! r = Some (k, v))"
    "\<forall>x<length t. between ?h r x \<longrightarrow> (\<exists>k' v. t ! x = Some (k', v) \<and> k' \<noteq> k)"
    by auto
  from between_cases [OF h r'(1) s(1) ne] show False
  proof
    assume "between ?h s r"
    with wf s r'(1) have "t ! r \<noteq> None"
      by (auto simp: wf_slots_def paths_ok_def)
    with r'(2) obtain w where "t ! r = Some (k, w)" by auto
    with entries_index_unique [of t r s k w v] wf r'(1) s ne show False
      by (auto simp: wf_slots_def)
  next
    assume "between ?h r s"
    with r'(3) s show False by fastforce
  qed
qed

lemma tbl_map_Some:
  assumes "wf_slots t"
  shows "tbl_map t k = Some v \<longleftrightarrow> (\<exists>i<length t. t ! i = Some (k, v))"
  using assms by (simp add: tbl_map_def wf_slots_def map_of_eq_Some_iff in_entries)

lemma probe_slot:
  assumes wf: "wf_slots t" and r: "probe fuel t k (home (length t) k) = Some r"
  shows "r < length t \<and> t ! r = map_option (Pair k) (tbl_map t k)"
proof -
  have t: "t \<noteq> []" and h: "home (length t) k < length t"
    using wf by (auto simp: wf_slots_def home_less)
  have r': "r < length t" "t ! r = None \<or> (\<exists>v. t ! r = Some (k, v))"
    using probe_result [OF r] h t by auto
  show ?thesis
  proof (cases "tbl_map t k")
    case None
    then have "\<not> (\<exists>v. t ! r = Some (k, v))"
      using tbl_map_Some [OF wf, of k] r'(1) by auto
    with None r' show ?thesis by simp
  next
    case (Some v)
    then obtain s where s: "s < length t" "t ! s = Some (k, v)"
      using tbl_map_Some [OF wf] by blast
    with probe_finds [OF wf r s] Some show ?thesis by simp
  qed
qed

section \<open>Writing a slot\<close>

lemma paths_ok_insert:
  assumes "paths_ok t (\<lambda>_ _. False)" "r < length t"
    "\<forall>x<length t. between (home (length t) k) r x \<longrightarrow> t ! x \<noteq> None"
  shows "paths_ok (t[r := Some (k, v)]) (\<lambda>_ _. False)"
  unfolding paths_ok_def
proof (intro allI impI, simp)
  fix i k' v' x
  assume i: "i < length t" "t[r := Some (k, v)] ! i = Some (k', v')"
    and x: "x < length t" "between (home (length t) k') i x"
  show "\<exists>a b. t[r := Some (k, v)] ! x = Some (a, b)"
  proof (cases "i = r")
    case True
    with i x assms show ?thesis by (cases "x = r") (auto simp: nth_list_update)
  next
    case False
    with i have "t ! i = Some (k', v')" by simp
    with assms(1) i x have "t ! x \<noteq> None" by (auto simp: paths_ok_def)
    with x show ?thesis by (cases "x = r") auto
  qed
qed

lemma wf_slots_insert:
  assumes wf: "wf_slots t" and r: "r < length t" "t ! r = None" and k: "tbl_map t k = None"
    and path: "\<forall>x<length t. between (home (length t) k) r x \<longrightarrow> t ! x \<noteq> None"
  shows "wf_slots (t[r := Some (k, v)]) \<and>
    mset (entries (t[r := Some (k, v)])) = add_mset (k, v) (mset (entries t)) \<and>
    tbl_map (t[r := Some (k, v)]) = (tbl_map t)(k \<mapsto> v)"
proof -
  have m: "mset (entries (t[r := Some (k, v)])) = mset ((k, v) # entries t)"
    using entries_update [OF r(1), of "Some (k, v)"] r(2) by simp
  have d: "distinct (map fst ((k, v) # entries t))"
    using wf k by (simp add: wf_slots_def tbl_map_def map_of_eq_None_iff)
  note mm = map_of_mset_cong [OF m [symmetric] d]
  from paths_ok_insert [OF _ r(1) path] wf mm(2) m show ?thesis
    by (auto simp: wf_slots_def tbl_map_def mm(1) [symmetric])
qed

lemma wf_slots_replace:
  assumes wf: "wf_slots t" and r: "r < length t" "t ! r = Some (k, w)"
  shows "wf_slots (t[r := Some (k, v)]) \<and>
    length (entries (t[r := Some (k, v)])) = length (entries t) \<and>
    fst ` set (entries (t[r := Some (k, v)])) = fst ` set (entries t) \<and>
    tbl_map (t[r := Some (k, v)]) = (tbl_map t)(k \<mapsto> v)"
proof -
  let ?u = "t[r := Some (k, v)]"
  have "(k, w) \<in> set (entries t)"
    using r by (auto simp: in_entries)
  then have "mset (entries t) = mset ((k, w) # remove1 (k, w) (entries t))" by simp
  then obtain R where t: "mset (entries t) = mset ((k, w) # R)" by blast
  have "add_mset (k, w) (mset (entries ?u)) = add_mset (k, v) (mset (entries t))"
    using entries_update [OF r(1), of "Some (k, v)"] r(2) by simp
  then have "add_mset (k, w) (mset (entries ?u)) = add_mset (k, w) (add_mset (k, v) (mset R))"
    by (simp add: t add_mset_commute)
  then have u: "mset (entries ?u) = mset ((k, v) # R)" by simp
  have dt: "distinct (map fst (entries t))"
    using wf by (simp add: wf_slots_def)
  note ct = map_of_mset_cong [OF t dt]
  from ct(2) have "distinct (map fst ((k, v) # R))" by simp
  note cu = map_of_mset_cong [OF u [symmetric] this]
  have p: "paths_ok ?u (\<lambda>_ _. False)"
    using wf r by (intro paths_ok_insert) (auto simp: wf_slots_def paths_ok_def)
  have "tbl_map ?u = (tbl_map t)(k \<mapsto> v)"
    by (simp add: tbl_map_def ct(1) cu(1) [symmetric])
  moreover have "length (entries ?u) = length (entries t)"
    using arg_cong [OF t, of size] arg_cong [OF u, of size] by simp
  moreover have "fst ` set (entries ?u) = fst ` set (entries t)"
    using mset_eq_setD [OF t] mset_eq_setD [OF u] by simp
  ultimately show ?thesis
    using wf cu(2) p by (simp add: wf_slots_def)
qed

section \<open>Growing\<close>

lemma find_free_probe:
  assumes "\<forall>x<length t. \<forall>v. t ! x \<noteq> Some (k, v)" "t \<noteq> []" "i \<le> length t"
  shows "find_free fuel t i = probe fuel t k i"
  using assms(3)
proof (induction fuel arbitrary: i)
  case (Suc fuel)
  have i: "wrap (length t) i < length t"
    using Suc.prems assms(2) by (simp add: wrap_less)
  with Suc.IH [of "wrap (length t) i + 1"] assms(1) show ?case
    by (auto simp: Let_def split: option.split)
qed simp

lemma grow_insert_correct:
  assumes "wf_slots u" "distinct (map fst (entries old @ entries u))"
    "length (entries old) + length (entries u) < length u"
  shows "\<exists>t. grow_insert old u = Some t \<and> length t = length u \<and> wf_slots t \<and>
    mset (entries t) = mset (entries old) + mset (entries u)"
  using assms
proof (induction old u rule: grow_insert.induct)
  case (3 k v old u)
  have u: "u \<noteq> []" and h: "home (length u) k < length u"
    using "3.prems"(1) by (auto simp: wf_slots_def home_less)
  have k: "k \<notin> fst ` set (entries u)"
    using "3.prems"(2) by auto
  then have km: "tbl_map u k = None"
    by (simp add: tbl_map_def map_of_eq_None_iff)
  have "\<forall>x<length u. \<forall>v. u ! x \<noteq> Some (k, v)"
    using k in_entries [of "(k, _)" u] by (force simp: image_iff)
  then have ff: "find_free (length u) u (home (length u) k)
      = probe (length u) u k (home (length u) k)"
    using u h by (intro find_free_probe) auto
  obtain r where r: "probe (length u) u k (home (length u) k) = Some r"
    using probe_total [of u k] "3.prems"(3) by auto
  have slot: "r < length u" "u ! r = None"
    using probe_slot [OF "3.prems"(1) r] km by auto
  have "\<forall>x<length u. between (home (length u) k) r x \<longrightarrow> u ! x \<noteq> None"
    using probe_result [OF r] h u by auto
  from wf_slots_insert [OF "3.prems"(1) slot km this]
  have ins: "wf_slots (u[r := Some (k, v)])"
    and m: "mset (entries (u[r := Some (k, v)])) = mset ((k, v) # entries u)"
    by auto
  have m2: "mset (map fst (entries old @ entries (u[r := Some (k, v)]))) =
        mset (map fst (entries (Some (k, v) # old) @ entries u))"
    using m by simp
  have d: "distinct (map fst (entries old @ entries (u[r := Some (k, v)])))"
    using "3.prems"(2) m2 by (metis mset_eq_imp_distinct_iff)
  have l: "length (entries old) + length (entries (u[r := Some (k, v)]))
      < length (u[r := Some (k, v)])"
    using arg_cong [OF m, of size] "3.prems"(3) by simp
  from "3.IH" [OF _ ins d l] ff r obtain t where
    "grow_insert old (u[r := Some (k, v)]) = Some t" "length t = length u" "wf_slots t"
    "mset (entries t) = mset (entries old) + mset (entries (u[r := Some (k, v)]))"
    by auto
  with ff r m show ?case by simp
qed auto

lemma wf_slots_replicate: "0 < n \<Longrightarrow> wf_slots (replicate n None)"
  by (auto simp: wf_slots_def paths_ok_def)

lemma round_up_bounds:
  assumes "c < 2 ^ 63"
  shows "c < opal_hash_round_capacity_up c \<and> opal_hash_round_capacity_up c \<le> c + 30"
proof -
  have "(c + 29) div 30 * 30 \<le> c + 29" "c \<le> (c + 29) div 30 * 30" by presburger+
  moreover have "size_t (c + 29) = c + 29"
    "size_t ((c + 29) div 30 * 30 + 1) = (c + 29) div 30 * 30 + 1"
    using assms calculation by (intro size_t_id; simp)+
  ultimately show ?thesis by (simp add: opal_hash_round_capacity_up_def)
qed

section \<open>Re-inserting the followers of a removed element\<close>

lemma settle_result:
  assumes "g < length t" "t ! g = None" "ii < length t" "t ! ii \<noteq> None" "j \<le> length t"
    "\<forall>x<length t. between (wrap (length t) j) ii x \<longrightarrow> x = g \<or> t ! x \<noteq> None"
    "steps (length t) (wrap (length t) j) ii < fuel"
  shows "settle fuel t ii j = (if between (wrap (length t) j) ii g then g else ii)"
  using assms(5-)
proof (induction fuel arbitrary: j)
  case (Suc fuel)
  let ?j = "wrap (length t) j"
  have j: "?j < length t"
    using Suc.prems(1) assms(1) by (intro wrap_less) auto
  show ?case
  proof (cases "?j = ii")
    case False
    then have first: "between ?j ii ?j"
      using j assms(3) by (auto simp: between_def)
    show ?thesis
    proof (cases "?j = g")
      case True
      with False assms(2) first show ?thesis by (simp add: Let_def)
    next
      case ng: False
      with Suc.prems(2) j first have o: "t ! ?j \<noteq> None" by blast
      have st: "between ?j ii x \<longleftrightarrow> x = ?j \<or> between (wrap (length t) (?j + 1)) ii x"
        if "x < length t" for x
        using between_step [OF j assms(3) that] False by simp
      have "steps (length t) (wrap (length t) (?j + 1)) ii < fuel"
        using steps_wrap [OF j assms(3) False] Suc.prems(3) by simp
      with Suc.IH [of "?j + 1"] Suc.prems(2) st j
      have "settle fuel t ii (?j + 1) = (if between (wrap (length t) (?j + 1)) ii g then g else ii)"
        by auto
      with False ng o st [OF assms(1)] show ?thesis by (simp add: Let_def)
    qed
  qed (simp add: Let_def)
qed simp

text \<open>
  While the followers are scanned, the only hole on a probe path is the gap \<open>g\<close>, and only
  for elements the scan has not reached: those not between the gap and the scan position.
\<close>

definition pending :: "nat \<Rightarrow> nat \<Rightarrow> nat \<Rightarrow> nat \<Rightarrow> nat \<Rightarrow> bool" where
  "pending n g ii i x \<longleftrightarrow> x = g \<and> \<not> between (wrap n (g + 1)) ii i"

lemma paths_ok_done:
  assumes p: "paths_ok t (pending (length t) g ii)" and g: "g < length t" "t ! g = None"
    and ii: "ii < length t" "t ! ii = None"
  shows "paths_ok t (\<lambda>_ _. False)"
  unfolding paths_ok_def
proof (intro allI impI)
  fix i k v x
  assume i: "i < length t" "t ! i = Some (k, v)"
    and x: "x < length t" "between (home (length t) k) i x"
  have h: "home (length t) k < length t"
    using g by (intro home_less) auto
  have all: "t ! y \<noteq> None \<or> pending (length t) g ii i y"
    if "y < length t" "between (home (length t) k) i y" for y
    using p i that by (auto simp: paths_ok_def)
  show "t ! x \<noteq> None \<or> False"
  proof (rule ccontr)
    assume "\<not> ?thesis"
    with all [OF x] have xg: "x = g" and nb: "\<not> between (wrap (length t) (g + 1)) ii i"
      by (auto simp: pending_def)
    have "i \<noteq> g" "i \<noteq> ii"
      using i g ii by auto
    moreover have "ii \<noteq> g"
      using nb between_full [OF g(1) i(1)] \<open>i \<noteq> g\<close> by auto
    ultimately have "between (wrap (length t) (g + 1)) i ii"
      using between_after [OF g(1) i(1) ii(1)] nb by blast
    then have "between (home (length t) k) i ii"
      using between_suffix [OF h i(1) g(1) ii(1)] x(2) xg by blast
    with all [OF ii(1)] ii(2) \<open>ii \<noteq> g\<close> show False
      by (auto simp: pending_def)
  qed
qed

lemma paths_ok_keep:
  assumes p: "paths_ok t (pending (length t) g ii)" and g: "g < length t"
    and ii: "ii < length t" "t ! ii = Some (k, v)" "ii \<noteq> g"
    and nb: "\<not> between (home (length t) k) ii g"
  shows "paths_ok t (pending (length t) g (wrap (length t) (ii + 1)))"
  unfolding paths_ok_def
proof (intro allI impI)
  fix i k' v' x
  assume i: "i < length t" "t ! i = Some (k', v')"
    and x: "x < length t" "between (home (length t) k') i x"
  let ?s = "wrap (length t) (g + 1)"
  have s: "?s < length t" "?s \<noteq> wrap (length t) (ii + 1)"
    using g ii by (auto simp: wrap_def)
  have "t ! x \<noteq> None \<or> pending (length t) g ii i x"
    using p i x by (auto simp: paths_ok_def)
  moreover have "x \<noteq> g" if "i = ii"
    using that nb x i ii by auto
  ultimately show "t ! x \<noteq> None \<or> pending (length t) g (wrap (length t) (ii + 1)) i x"
    using between_snoc [OF s(1) ii(1) i(1) s(2)] by (auto simp: pending_def)
qed

lemma paths_ok_move:
  assumes p: "paths_ok t (pending (length t) g ii)" and g: "g < length t" "t ! g = None"
    and ii: "ii < length t" "t ! ii = Some (k, v)"
    and b: "between (home (length t) k) ii g"
  defines "u \<equiv> t[g := Some (k, v), ii := None]"
  shows "paths_ok u (pending (length u) ii (wrap (length u) (ii + 1)))"
  unfolding paths_ok_def
proof (intro allI impI)
  fix i k' v' x
  assume i: "i < length u" "u ! i = Some (k', v')"
    and x: "x < length u" "between (home (length u) k') i x"
  have h: "home (length t) k < length t"
    using g by (intro home_less) auto
  have n: "length u = length t" and gi: "g \<noteq> ii"
    using g ii by (auto simp: u_def)
  have "i \<noteq> ii"
    using i by (auto simp: u_def)
  have ux: "u ! x \<noteq> None" if "x = g \<or> t ! x \<noteq> None" "x \<noteq> ii"
    using that x g by (auto simp: u_def nth_list_update)
  have "x = g \<or> t ! x \<noteq> None"
  proof (cases "i = g")
    case True
    with i gi g have "k' = k" by (simp add: u_def)
    with x True n between_prefix [OF h ii(1) g(1) _ b, of x]
    have "between (home (length t) k) ii x" by auto
    with p ii x n show ?thesis by (auto simp: paths_ok_def pending_def)
  next
    case False
    with i \<open>i \<noteq> ii\<close> have "t ! i = Some (k', v')" by (simp add: u_def)
    with p i x n show ?thesis by (auto simp: paths_ok_def pending_def)
  qed
  with ux show "u ! x \<noteq> None \<or> pending (length u) ii (wrap (length u) (ii + 1)) i x"
    by (auto simp: pending_def)
qed

lemma mset_entries_cong: "mset t = mset u \<Longrightarrow> mset (entries t) = mset (entries u)"
  by (simp add: entries_def)

lemma reinsert_correct:
  assumes "g < length t" "t ! g = None" "ii \<le> length t"
    "paths_ok t (pending (length t) g (wrap (length t) ii))"
    "f < length t" "f \<noteq> g" "t ! f = None" "steps (length t) (wrap (length t) ii) f < fuel"
  shows "\<exists>u. reinsert fuel t ii = Some u \<and> length u = length t \<and> mset u = mset t \<and>
    paths_ok u (\<lambda>_ _. False)"
  using assms
proof (induction fuel arbitrary: t g ii)
  case (Suc fuel)
  let ?n = "length t" and ?i = "wrap (length t) ii"
  have i: "?i < ?n"
    using Suc.prems by (intro wrap_less) auto
  show ?case
  proof (cases "t ! ?i")
    case None
    with paths_ok_done [OF Suc.prems(4,1,2) i] show ?thesis by (auto simp: Let_def)
  next
    case (Some e)
    obtain k v where e: "t ! ?i = Some (k, v)"
      using Some by (cases e) auto
    then have ne: "?i \<noteq> g" "?i \<noteq> f"
      using Suc.prems by auto
    have h: "home ?n k < ?n"
      using Suc.prems(1) by (intro home_less) auto
    have st: "steps ?n (wrap ?n (?i + 1)) f < fuel"
      using steps_wrap [OF i Suc.prems(5) ne(2)] Suc.prems(8) by simp
    have "\<forall>x<?n. between (home ?n k) ?i x \<longrightarrow> x = g \<or> t ! x \<noteq> None"
      using Suc.prems(4) i e by (auto simp: paths_ok_def pending_def)
    with settle_result [OF Suc.prems(1,2) i, of "home ?n k" ?n] e h steps_less [OF h i]
    have s: "settle ?n t ?i (home ?n k) = (if between (home ?n k) ?i g then g else ?i)"
      by simp
    show ?thesis
    proof (cases "between (home ?n k) ?i g")
      case False
      from paths_ok_keep [OF Suc.prems(4,1) i e ne(1) False]
      have "\<exists>u. reinsert fuel t (?i + 1) = Some u \<and> length u = ?n \<and> mset u = mset t \<and>
          paths_ok u (\<lambda>_ _. False)"
        using Suc.prems i st by (intro Suc.IH [of g]) auto
      with e s False show ?thesis by (simp add: Let_def)
    next
      case True
      let ?u = "t[g := Some (k, v), ?i := None]"
      have m: "mset ?u = mset t"
        using mset_swap [of ?i t g] i Suc.prems(1,2) e by simp
      from paths_ok_move [OF Suc.prems(4,1,2) i e True]
      have "\<exists>u. reinsert fuel ?u (?i + 1) = Some u \<and> length u = length ?u \<and> mset u = mset ?u \<and>
          paths_ok u (\<lambda>_ _. False)"
        using Suc.prems i st ne by (intro Suc.IH [of ?i]) auto
      with e s True ne m show ?thesis by (simp add: Let_def)
    qed
  qed
qed simp

lemma remove_slot_correct:
  assumes wf: "wf_slots t" and free: "length (entries t) < length t"
    and i: "ii < length t" "t ! ii = Some (k, v)"
  shows "\<exists>u. reinsert (length t) (t[ii := None]) (ii + 1) = Some u \<and> length u = length t \<and>
    wf_slots u \<and> mset (entries t) = add_mset (k, v) (mset (entries u)) \<and>
    tbl_map u = (tbl_map t)(k := None)"
proof -
  let ?t = "t[ii := None]"
  obtain f where f: "f < length t" "t ! f = None"
    using free entries_free by blast
  with i have "f \<noteq> ii" by auto
  have w: "wrap (length t) (ii + 1) < length t"
    using i by (intro wrap_less) auto
  have old: "t ! j = Some e" if "?t ! j = Some e" "j < length t" for j e
    using that by (cases "j = ii") auto
  have p: "paths_ok ?t (pending (length ?t) ii (wrap (length ?t) (ii + 1)))"
    unfolding paths_ok_def
  proof (intro allI impI)
    fix j l w x
    assume j: "j < length ?t" "?t ! j = Some (l, w)"
      and x: "x < length ?t" "between (home (length ?t) l) j x"
    with old wf have "t ! x \<noteq> None" by (auto simp: wf_slots_def paths_ok_def)
    with x show "?t ! x \<noteq> None \<or> pending (length ?t) ii (wrap (length ?t) (ii + 1)) j x"
      by (cases "x = ii") (auto simp: pending_def)
  qed
  have "\<exists>u. reinsert (length t) ?t (ii + 1) = Some u \<and> length u = length ?t \<and> mset u = mset ?t \<and>
      paths_ok u (\<lambda>_ _. False)"
    using i f \<open>f \<noteq> ii\<close> p steps_less [OF w f(1)] by (intro reinsert_correct [of ii]) auto
  then obtain u where u: "reinsert (length t) ?t (ii + 1) = Some u" "length u = length t"
    "mset u = mset ?t" "paths_ok u (\<lambda>_ _. False)" by auto
  have m: "mset (entries t) = mset ((k, v) # entries u)"
    using entries_update [OF i(1), of None] i(2) mset_entries_cong [OF u(3)] by simp
  have dt: "distinct (map fst (entries t))"
    using wf by (simp add: wf_slots_def)
  note c = map_of_mset_cong [OF m dt]
  have "map_of (entries u) k = None"
    using c(2) by (simp add: map_of_eq_None_iff)
  then have "tbl_map u = (tbl_map t)(k := None)"
    by (simp add: tbl_map_def c(1) fun_upd_idem)
  moreover have "wf_slots u"
    using u wf c(2) by (auto simp: wf_slots_def)
  ultimately show ?thesis using u m by auto
qed

section \<open>Every operation on a well-formed table\<close>

lemma wf_tableD:
  assumes "wf_table ht"
  shows "wf_slots (ht_table ht)" "ht_capacity ht = length (ht_table ht)"
    "ht_size ht = length (entries (ht_table ht))" "length (entries (ht_table ht)) < length (ht_table ht)"
    "0 < ht_capacity ht" "ht_capacity ht < 2 ^ 59"
  using assms by (auto simp: wf_table_def)

definition ht_map :: "'v opal_hash_table \<Rightarrow> hkey \<rightharpoonup> 'v" where
  "ht_map ht = tbl_map (ht_table ht)"

text \<open>The table accepts keys of one type: it is empty of others and not committed to another.\<close>

definition keyed :: "hmethods \<Rightarrow> 'v opal_hash_table \<Rightarrow> bool" where
  "keyed m ht \<longleftrightarrow> ht_type_methods ht \<in> {None, Some m}"

lemma wf_table_init:
  assumes "opal_hash_table_init mem opal_hash_table_construct n = (SUCCESS, ht)" "n < 2 ^ 62"
  shows "wf_table ht \<and> ht_map ht = Map.empty \<and> ht_type_methods ht = None"
proof -
  let ?c = "opal_hash_round_capacity_up (n * 2)"
  have c: "n * 2 < ?c" using round_up_bounds [of "n * 2"] assms(2) by auto
  have "size_t (n * 2) = n * 2" using assms(2) by (intro size_t_id) auto
  with assms(1) have "calloc_ok mem ?c" and
    ht: "ht_table ht = replicate ?c None" "ht_capacity ht = ?c" "ht_size ht = 0"
      "ht_density_numer ht = 1" "ht_density_denom ht = 2"
      "ht_growth_numer ht = 2" "ht_growth_denom ht = 1"
      "ht_growth_trigger ht = size_t ?c div 2" "ht_type_methods ht = None"
    by (auto simp: opal_hash_table_init_def opal_hash_table_init2_def opal_hash_table_construct_def
        Let_def split: if_splits)
  then have "?c < 2 ^ 59" by (simp add: calloc_ok_def)
  with ht c show ?thesis
    by (simp add: wf_table_def ht_map_def tbl_map_def wf_slots_replicate)
qed

lemma wf_table_remove_all:
  assumes "wf_table ht"
  shows "wf_table (snd (opal_hash_table_remove_all ht)) \<and>
    ht_map (snd (opal_hash_table_remove_all ht)) = Map.empty"
proof -
  have "wf_slots (map (\<lambda>_. None) (ht_table ht))"
    using wf_slots_replicate [of "length (ht_table ht)"] wf_tableD [OF assms]
    by (simp add: map_replicate_const)
  with assms show ?thesis
    by (auto simp: opal_hash_table_remove_all_def wf_table_def ht_map_def tbl_map_def)
qed

lemma get_value_correct:
  assumes wf: "wf_table ht" and k: "keyed (key_methods k) ht"
  shows "get_value ht k =
    Some (if ht_map ht k = None then ERR_NOT_FOUND else SUCCESS, ht_map ht k,
          ht\<lparr>ht_type_methods := Some (key_methods k)\<rparr>)"
proof -
  note D = wf_tableD [OF wf]
  obtain r where r: "probe (length (ht_table ht)) (ht_table ht) k (home (length (ht_table ht)) k) = Some r"
    using probe_total [OF D(4)] by blast
  with probe_slot [OF D(1) r] D k show ?thesis
    by (auto simp: get_value_def ht_map_def keyed_def other_methods_def Let_def split: option.splits)
qed

lemma wf_table_type:
  assumes "wf_table ht" "keyed m ht"
  shows "wf_table (ht\<lparr>ht_type_methods := Some m\<rparr>)"
  using assms by (auto simp: wf_table_def keyed_def)

lemma length_entries_le: "length (entries t) \<le> length t"
  by (simp add: entries_def)

text \<open>
  Growth either fails and leaves the table as it is, or rehashes every element into a larger,
  well-formed table that stands for the same map.
\<close>

lemma opal_hash_grow_correct:
  assumes wf: "wf_slots (ht_table ht)" and cap: "ht_capacity ht = length (ht_table ht)"
    "ht_capacity ht < 2 ^ 59" and size: "ht_size ht = length (entries (ht_table ht))"
    and par: "ht_density_numer ht = 1" "ht_density_denom ht = 2"
      "ht_growth_numer ht = 2" "ht_growth_denom ht = 1"
    and ty: "\<forall>k\<in>fst ` set (entries (ht_table ht)). ht_type_methods ht = Some (key_methods k)"
  shows "opal_hash_grow mem ht = Some (ERR_OUT_OF_RESOURCE, ht) \<or>
    (\<exists>ht'. opal_hash_grow mem ht = Some (SUCCESS, ht') \<and> wf_table ht' \<and> ht_map ht' = ht_map ht \<and>
       ht_type_methods ht' = ht_type_methods ht)"
proof -
  let ?t = "ht_table ht" and ?c = "opal_hash_round_capacity_up (length (ht_table ht) * 2)"
  let ?u = "replicate ?c None :: 'a slot list"
  have c: "length ?t * 2 < ?c"
    using round_up_bounds [of "length ?t * 2"] cap by simp
  have s2: "size_t (length ?t * 2) = length ?t * 2"
    using cap by (intro size_t_id) simp
  show ?thesis
  proof (cases "calloc_ok mem ?c")
    case False
    with cap par s2 show ?thesis by (simp add: opal_hash_grow_def Let_def)
  next
    case True
    then have cb: "?c < 2 ^ 59" by (simp add: calloc_ok_def)
    have d: "distinct (map fst (entries ?t))"
      using wf by (simp add: wf_slots_def)
    have "\<exists>t. grow_insert ?t ?u = Some t \<and> length t = length ?u \<and> wf_slots t \<and>
        mset (entries t) = mset (entries ?t) + mset (entries ?u)"
      using c d length_entries_le [of ?t] by (intro grow_insert_correct) (auto intro: wf_slots_replicate)
    then obtain t where t: "grow_insert ?t ?u = Some t" "length t = ?c" "wf_slots t"
      "mset (entries t) = mset (entries ?t)" by auto
    let ?ht = "ht\<lparr>ht_table := t, ht_capacity := ?c, ht_growth_trigger := ?c div 2\<rparr>"
    have g: "opal_hash_grow mem ht = Some (SUCCESS, ?ht)"
      using True cap par s2 t(1) cb by (simp add: opal_hash_grow_def Let_def)
    have "length (entries t) = length (entries ?t)" "set (entries t) = set (entries ?t)"
      using arg_cong [OF t(4), of size] mset_eq_setD [OF t(4)] by simp_all
    then have "wf_table ?ht"
      using t c cb size par ty length_entries_le [of ?t] by (simp add: wf_table_def)
    moreover have "ht_map ?ht = ht_map ht"
      using map_of_mset_cong(1) [OF t(4) [symmetric] d] by (simp add: ht_map_def tbl_map_def)
    ultimately show ?thesis using g by auto
  qed
qed

lemma set_value_present:
  assumes wf: "wf_table ht" and k: "keyed (key_methods k) ht" and w: "ht_map ht k = Some w"
  shows "\<exists>ht'. set_value mem ht k v = Some (SUCCESS, ht') \<and> wf_table ht' \<and>
    keyed (key_methods k) ht' \<and> ht_map ht' = (ht_map ht)(k \<mapsto> v)"
proof -
  note D = wf_tableD [OF wf]
  let ?t = "ht_table ht"
  obtain r where r: "probe (length ?t) ?t k (home (length ?t) k) = Some r"
    using probe_total [OF D(4)] by blast
  with probe_slot [OF D(1) r] w have s: "r < length ?t" "?t ! r = Some (k, w)"
    by (simp_all add: ht_map_def)
  let ?ht = "ht\<lparr>ht_type_methods := Some (key_methods k), ht_table := ?t[r := Some (k, v)]\<rparr>"
  have "set_value mem ht k v = Some (SUCCESS, ?ht)"
    using r s D k by (simp add: set_value_def keyed_def other_methods_def Let_def)
  moreover have "wf_table ?ht" "ht_map ?ht = (ht_map ht)(k \<mapsto> v)"
    using wf_slots_replace [OF D(1) s, of v] wf k
    by (auto simp: wf_table_def ht_map_def keyed_def)
  ultimately show ?thesis by (auto simp: keyed_def)
qed

lemma set_value_absent:
  assumes wf: "wf_table ht" and k: "keyed (key_methods k) ht" and w: "ht_map ht k = None"
  shows "\<exists>st ht'. set_value mem ht k v = Some (st, ht') \<and> st \<in> {SUCCESS, ERR_OUT_OF_RESOURCE} \<and>
    (ht_size ht + 1 < ht_growth_trigger ht \<longrightarrow> st = SUCCESS) \<and>
    (st = SUCCESS \<longrightarrow> wf_table ht' \<and> keyed (key_methods k) ht') \<and>
    ht_map ht' = (ht_map ht)(k \<mapsto> v)"
proof -
  note D = wf_tableD [OF wf]
  let ?t = "ht_table ht"
  obtain r where r: "probe (length ?t) ?t k (home (length ?t) k) = Some r"
    using probe_total [OF D(4)] by blast
  with probe_slot [OF D(1) r] w have s: "r < length ?t" "?t ! r = None"
    by (simp_all add: ht_map_def)
  have t: "?t \<noteq> []" "home (length ?t) k < length ?t"
    using D(1) by (auto simp: wf_slots_def home_less)
  have path: "\<forall>x<length ?t. between (home (length ?t) k) r x \<longrightarrow> ?t ! x \<noteq> None"
    using probe_result [OF r] t by auto
  let ?u = "?t[r := Some (k, v)]"
  let ?ht = "ht\<lparr>ht_type_methods := Some (key_methods k), ht_table := ?u, ht_size := ht_size ht + 1\<rparr>"
  have ins: "wf_slots ?u" "mset (entries ?u) = mset ((k, v) # entries ?t)"
    "tbl_map ?u = (tbl_map ?t)(k \<mapsto> v)"
    using wf_slots_insert [OF D(1) s _ path, of v] w by (auto simp: ht_map_def)
  have len: "length (entries ?u) = ht_size ht + 1" "set (entries ?u) = insert (k, v) (set (entries ?t))"
    using arg_cong [OF ins(2), of size] mset_eq_setD [OF ins(2)] D(3) by simp_all
  have ty: "\<forall>k'\<in>fst ` set (entries ?u). Some (key_methods k) = Some (key_methods k')"
    using wf k len(2) by (auto simp: wf_table_def keyed_def)
  have res: "set_value mem ht k v =
      (if ht_growth_trigger ht \<le> ht_size ht + 1 then opal_hash_grow mem ?ht else Some (SUCCESS, ?ht))"
    using r s D k by (simp add: set_value_def keyed_def other_methods_def Let_def)
  have map: "ht_map ?ht = (ht_map ht)(k \<mapsto> v)"
    using ins(3) by (simp add: ht_map_def)
  show ?thesis
  proof (cases "ht_growth_trigger ht \<le> ht_size ht + 1")
    case True
    have "opal_hash_grow mem ?ht = Some (ERR_OUT_OF_RESOURCE, ?ht) \<or>
      (\<exists>ht'. opal_hash_grow mem ?ht = Some (SUCCESS, ht') \<and> wf_table ht' \<and> ht_map ht' = ht_map ?ht \<and>
         ht_type_methods ht' = ht_type_methods ?ht)"
      using ins len ty wf by (intro opal_hash_grow_correct) (simp_all add: wf_table_def)
    with True res map show ?thesis by (auto simp: keyed_def)
  next
    case False
    have "wf_table ?ht"
      using False ins len ty wf by (simp add: wf_table_def)
    with False res map show ?thesis by (auto simp: keyed_def)
  qed
qed

text \<open>
  The counters: a lookup keeps them, and an update of a table with room for one more element neither
  grows nor fails.
\<close>

lemma get_value_counters:
  "get_value ht k = Some (st, r, ht') \<Longrightarrow>
     ht_size ht' = ht_size ht \<and> ht_growth_trigger ht' = ht_growth_trigger ht"
  by (auto simp: get_value_def Let_def split: if_splits option.splits)

lemma set_value_counters:
  assumes "set_value mem ht k v = Some (st, ht')" and "ht_size ht + 1 < ht_growth_trigger ht"
    and "wf_table ht" and "keyed (key_methods k) ht"
  shows "st = SUCCESS \<and> ht_size ht' \<le> ht_size ht + 1 \<and> ht_growth_trigger ht' = ht_growth_trigger ht"
  using assms(1,2) assms(4) wf_tableD [OF assms(3)]
  by (auto simp: set_value_def keyed_def other_methods_def Let_def split: if_splits option.splits)

lemma set_value_present_counters:
  assumes "set_value mem ht k v = Some (st, ht')" and "wf_table ht" and "keyed (key_methods k) ht"
    and "ht_map ht k = Some w"
  shows "ht_size ht' = ht_size ht \<and> ht_growth_trigger ht' = ht_growth_trigger ht"
proof -
  note D = wf_tableD [OF assms(2)]
  obtain r where r: "probe (length (ht_table ht)) (ht_table ht) k (home (length (ht_table ht)) k) = Some r"
    using probe_total [OF D(4)] by blast
  with probe_slot [OF D(1) r] assms(4) have "ht_table ht ! r = Some (k, w)"
    by (simp add: ht_map_def)
  with r assms(1,3) D show ?thesis
    by (auto simp: set_value_def keyed_def other_methods_def Let_def)
qed

lemma remove_value_absent:
  assumes wf: "wf_table ht" and k: "keyed (key_methods k) ht" and w: "ht_map ht k = None"
  shows "remove_value ht k = Some (ERR_NOT_FOUND, ht\<lparr>ht_type_methods := Some (key_methods k)\<rparr>)"
proof -
  note D = wf_tableD [OF wf]
  obtain r where r: "probe (length (ht_table ht)) (ht_table ht) k (home (length (ht_table ht)) k) = Some r"
    using probe_total [OF D(4)] by blast
  with probe_slot [OF D(1) r] D k w show ?thesis
    by (auto simp: remove_value_def ht_map_def keyed_def other_methods_def Let_def)
qed

lemma remove_value_present:
  assumes wf: "wf_table ht" and k: "keyed (key_methods k) ht" and w: "ht_map ht k = Some w"
  shows "\<exists>ht'. remove_value ht k = Some (SUCCESS, ht') \<and> wf_table ht' \<and>
    keyed (key_methods k) ht' \<and> ht_map ht' = (ht_map ht)(k := None) \<and> ht_size ht' = ht_size ht - 1"
proof -
  note D = wf_tableD [OF wf]
  let ?t = "ht_table ht"
  obtain r where r: "probe (length ?t) ?t k (home (length ?t) k) = Some r"
    using probe_total [OF D(4)] by blast
  with probe_slot [OF D(1) r] w have s: "r < length ?t" "?t ! r = Some (k, w)"
    by (simp_all add: ht_map_def)
  obtain u where u: "reinsert (length ?t) (?t[r := None]) (r + 1) = Some u" "length u = length ?t"
    "wf_slots u" "mset (entries ?t) = mset ((k, w) # entries u)" "tbl_map u = (tbl_map ?t)(k := None)"
    using remove_slot_correct [OF D(1) D(4) s] by auto
  let ?ht = "ht\<lparr>ht_type_methods := Some (key_methods k), ht_table := u, ht_size := ht_size ht - 1\<rparr>"
  have "remove_value ht k = Some (SUCCESS, ?ht)"
    using r s D k u(1)
    by (simp add: remove_value_def opal_hash_table_remove_elt_at_def keyed_def other_methods_def Let_def)
  moreover have "length (entries ?t) = Suc (length (entries u))"
      "set (entries ?t) = insert (k, w) (set (entries u))"
    using arg_cong [OF u(4), of size] mset_eq_setD [OF u(4)] by simp_all
  then have "wf_table ?ht"
    using u wf by (auto simp: wf_table_def)
  moreover have "ht_map ?ht = (ht_map ht)(k := None)"
    using u(5) by (simp add: ht_map_def)
  ultimately show ?thesis by (auto simp: keyed_def)
qed

section \<open>The dictionary interface\<close>

text \<open>The keys of one type as a dictionary; the three instances are the three C key types.\<close>

definition table_ok :: "hmethods \<Rightarrow> 'v opal_hash_table \<Rightarrow> bool" where
  "table_ok m ht \<longleftrightarrow> wf_table ht \<and> keyed m ht"

lemma ht_map_type [simp]: "ht_map (ht\<lparr>ht_type_methods := m\<rparr>) = ht_map ht"
  by (simp add: ht_map_def)

lemma keyed_dictionary:
  assumes inj: "\<And>a b. K a = K b \<Longrightarrow> a = b" and m: "\<And>a. key_methods (K a) = m"
  shows "dictionary (table_ok m) (\<lambda>ht a. ht_map ht (K a))
    (\<lambda>ht a. get_value ht (K a)) (\<lambda>ht a v. set_value mem ht (K a) v) (\<lambda>ht a. remove_value ht (K a))"
proof unfold_locales
  fix ht :: "'c opal_hash_table" and a v w
  assume ok: "table_ok m ht"
  then have wf: "wf_table ht" and k: "keyed (key_methods (K a)) ht"
    by (auto simp: table_ok_def m)
  have ty: "table_ok m (ht\<lparr>ht_type_methods := Some m\<rparr>)"
    using wf_table_type [OF wf k] by (simp add: table_ok_def keyed_def m)
  {
    assume n: "ht_map ht (K a) = None"
    show "\<exists>s'. get_value ht (K a) = Some (ERR_NOT_FOUND, None, s') \<and> table_ok m s' \<and>
        (\<lambda>b. ht_map s' (K b)) = (\<lambda>b. ht_map ht (K b))"
      using get_value_correct [OF wf k] n ty by (simp add: m)
    show "\<exists>st s'. set_value mem ht (K a) v = Some (st, s') \<and> st \<in> {SUCCESS, ERR_OUT_OF_RESOURCE} \<and>
        (st = SUCCESS \<longrightarrow> table_ok m s') \<and>
        (\<lambda>b. ht_map s' (K b)) = (\<lambda>b. ht_map ht (K b))(a \<mapsto> v)"
      using set_value_absent [OF wf k n, of mem v] by (auto simp: table_ok_def m fun_eq_iff dest: inj)
    show "\<exists>s'. remove_value ht (K a) = Some (ERR_NOT_FOUND, s') \<and> table_ok m s' \<and>
        (\<lambda>b. ht_map s' (K b)) = (\<lambda>b. ht_map ht (K b))"
      using remove_value_absent [OF wf k n] ty by (simp add: m)
  next
    assume s: "ht_map ht (K a) = Some w"
    show "\<exists>s'. get_value ht (K a) = Some (SUCCESS, Some w, s') \<and> table_ok m s' \<and>
        (\<lambda>b. ht_map s' (K b)) = (\<lambda>b. ht_map ht (K b))"
      using get_value_correct [OF wf k] s ty by (simp add: m)
    show "\<exists>s'. set_value mem ht (K a) v = Some (SUCCESS, s') \<and> table_ok m s' \<and>
        (\<lambda>b. ht_map s' (K b)) = (\<lambda>b. ht_map ht (K b))(a \<mapsto> v)"
      using set_value_present [OF wf k s, of mem v] by (auto simp: table_ok_def m fun_eq_iff dest: inj)
    show "\<exists>s'. remove_value ht (K a) = Some (SUCCESS, s') \<and> table_ok m s' \<and>
        (\<lambda>b. ht_map s' (K b)) = (\<lambda>b. ht_map ht (K b))(a := None)"
      using remove_value_present [OF wf k s] by (auto simp: table_ok_def m fun_eq_iff dest: inj)
  }
qed

interpretation ptr_dict: dictionary "table_ok Methods_ptr" "\<lambda>ht a. ht_map ht (KeyPtr a)"
  opal_hash_table_get_value_ptr "opal_hash_table_set_value_ptr mem" opal_hash_table_remove_value_ptr
  for mem
  unfolding opal_hash_table_get_value_ptr_def [abs_def] opal_hash_table_set_value_ptr_def [abs_def]
    opal_hash_table_remove_value_ptr_def [abs_def]
  by (rule keyed_dictionary) auto

interpretation u32_dict: dictionary "table_ok Methods_uint32" "\<lambda>ht a. ht_map ht (KeyU32 a)"
  opal_hash_table_get_value_uint32 "opal_hash_table_set_value_uint32 mem"
  opal_hash_table_remove_value_uint32
  for mem
  unfolding opal_hash_table_get_value_uint32_def [abs_def]
    opal_hash_table_set_value_uint32_def [abs_def] opal_hash_table_remove_value_uint32_def [abs_def]
  by (rule keyed_dictionary) auto

interpretation u64_dict: dictionary "table_ok Methods_uint64" "\<lambda>ht a. ht_map ht (KeyU64 a)"
  opal_hash_table_get_value_uint64 "opal_hash_table_set_value_uint64 mem"
  opal_hash_table_remove_value_uint64
  for mem
  unfolding opal_hash_table_get_value_uint64_def [abs_def]
    opal_hash_table_set_value_uint64_def [abs_def] opal_hash_table_remove_value_uint64_def [abs_def]
  by (rule keyed_dictionary) auto

lemma table_ok_init:
  assumes "opal_hash_table_init mem opal_hash_table_construct n = (SUCCESS, ht)" "n < 2 ^ 62"
  shows "table_ok m ht \<and> ht_map ht = Map.empty"
  using wf_table_init [OF assms] by (simp add: table_ok_def keyed_def)

section \<open>Traversal\<close>

lemma find_upt_Some:
  "List.find P [a..<b] = Some i \<longleftrightarrow> a \<le> i \<and> i < b \<and> P i \<and> (\<forall>j. a \<le> j \<and> j < i \<longrightarrow> \<not> P j)"
proof (induction "b - a" arbitrary: a)
  case (Suc n)
  then have "a < b" by simp
  then have s: "[a..<b] = a # [Suc a..<b]" by (simp add: upt_conv_Cons)
  show ?case
  proof (cases "P a")
    case True
    with s \<open>a < b\<close> show ?thesis by (auto intro: le_antisym simp: not_less_eq_eq)
  next
    case False
    with Suc.hyps(1) [of "Suc a"] Suc.hyps(2) s show ?thesis
      by (auto simp: Suc_le_eq) (metis le_neq_implies_less)+
  qed
qed auto

lemma find_upt_None: "List.find P [a..<b] = None \<longleftrightarrow> (\<forall>i. a \<le> i \<and> i < b \<longrightarrow> \<not> P i)"
  by (auto simp: find_None_iff)

text \<open>
  The loop \<^verbatim>\<open>while (OPAL_SUCCESS == get_next_key_ptr(ht, ..., in, &out)) { ...; in = out; }\<close>
  over a table that the body does not change sees the entries in slot order, each once.
\<close>

fun traverse :: "nat \<Rightarrow> 'v opal_hash_table \<Rightarrow> nat option \<Rightarrow> (byte list \<times> 'v) list" where
  "traverse 0 ht in_node = []"
| "traverse (Suc fuel) ht in_node =
     (case opal_hash_table_get_next_key_ptr ht in_node of
        (SUCCESS, Some (k, v, out_node)) \<Rightarrow> (k, v) # traverse fuel ht (Some out_node)
      | _ \<Rightarrow> [])"

definition next_start :: "nat option \<Rightarrow> nat" where
  "next_start node = (case node of None \<Rightarrow> 0 | Some p \<Rightarrow> p + 1)"

lemma entries_drop_None:
  assumes "\<forall>j. a \<le> j \<and> j < i \<longrightarrow> t ! j = None" "a \<le> i" "i \<le> length t"
  shows "entries (drop a t) = entries (drop i t)"
  using assms
proof (induction "i - a" arbitrary: a)
  case (Suc n)
  then have "drop a t = None # drop (Suc a) t"
    by (metis Cons_nth_drop_Suc le_refl less_le_trans zero_less_Suc zero_less_diff)
  with Suc.hyps(1) [of "Suc a"] Suc.hyps(2) Suc.prems show ?case by auto
qed simp

lemma keyed_entries_ptr:
  assumes "table_ok Methods_ptr ht" "i < length (ht_table ht)" "ht_table ht ! i = Some (k, v)"
  shows "\<exists>b. k = KeyPtr b"
proof -
  from assms have "(k, v) \<in> set (entries (ht_table ht))"
    by (auto simp: in_entries)
  with assms(1) have "key_methods k = Methods_ptr"
    by (force simp: table_ok_def wf_table_def keyed_def)
  then show ?thesis by (cases k) auto
qed

lemma next_key_ptr_Some:
  assumes "table_ok Methods_ptr ht"
    "i < ht_capacity ht" "ht_table ht ! i = Some (KeyPtr b, v)" "next_start node \<le> i"
    "\<forall>j. next_start node \<le> j \<and> j < i \<longrightarrow> ht_table ht ! j = None"
  shows "opal_hash_table_get_next_key_ptr ht node = (SUCCESS, Some (b, v, i))"
proof -
  have "opal_hash_table_get_next_elt ht node = Some i"
    unfolding opal_hash_table_get_next_elt_def next_start_def [symmetric]
    using assms by (auto simp: find_upt_Some)
  with assms(3) show ?thesis
    by (simp add: opal_hash_table_get_next_key_ptr_def get_next_key_def)
qed

lemma next_key_ptr_None:
  assumes "\<forall>j. next_start node \<le> j \<and> j < ht_capacity ht \<longrightarrow> ht_table ht ! j = None"
  shows "opal_hash_table_get_next_key_ptr ht node = (ERROR, None)"
proof -
  have "opal_hash_table_get_next_elt ht node = None"
    unfolding opal_hash_table_get_next_elt_def next_start_def [symmetric]
    using assms by (auto simp: find_upt_None)
  then show ?thesis
    by (simp add: opal_hash_table_get_next_key_ptr_def get_next_key_def)
qed

lemma next_key_ptr_range:
  assumes "opal_hash_table_get_next_key_ptr ht node = (st, Some (k, v, i))"
  shows "next_start node \<le> i \<and> i < ht_capacity ht \<and> ht_table ht ! i = Some (KeyPtr k, v)"
proof -
  from assms obtain kk where g: "opal_hash_table_get_next_elt ht node = Some i" "ht_table ht ! i = Some (kk, v)"
    "kk = KeyPtr k"
    by (auto simp: opal_hash_table_get_next_key_ptr_def get_next_key_def split: option.splits hkey.splits prod.splits)
  then show ?thesis
    by (auto simp: opal_hash_table_get_next_elt_def next_start_def find_upt_Some)
qed

lemma traverse_entries:
  assumes ok: "table_ok Methods_ptr ht" and fuel: "ht_capacity ht - next_start node < fuel"
  shows "map (\<lambda>(k, v). (KeyPtr k, v)) (traverse fuel ht node)
    = entries (drop (next_start node) (ht_table ht))"
  using fuel
proof (induction fuel arbitrary: node)
  case (Suc fuel)
  let ?t = "ht_table ht" and ?a = "next_start node"
  have cap: "ht_capacity ht = length ?t"
    using ok by (simp add: table_ok_def wf_table_def)
  show ?case
  proof (cases "\<exists>i. ?a \<le> i \<and> i < length ?t \<and> ?t ! i \<noteq> None")
    case False
    then have none: "\<forall>j. ?a \<le> j \<and> j < length ?t \<longrightarrow> ?t ! j = None" by blast
    then have "\<forall>x\<in>set (drop ?a ?t). x = None"
      by (auto simp: in_set_conv_nth)
    then have "entries (drop ?a ?t) = []"
      by (auto simp: entries_def filter_empty_conv)
    moreover have "opal_hash_table_get_next_key_ptr ht node = (ERROR, None)"
      using none cap by (intro next_key_ptr_None) auto
    ultimately show ?thesis by simp
  next
    case True
    define i where "i = (LEAST i. ?a \<le> i \<and> i < length ?t \<and> ?t ! i \<noteq> None)"
    have i: "?a \<le> i" "i < length ?t" "?t ! i \<noteq> None"
      using LeastI_ex [OF True] by (auto simp: i_def)
    have before: "\<forall>j. ?a \<le> j \<and> j < i \<longrightarrow> ?t ! j = None"
    proof (intro allI impI)
      fix j assume "?a \<le> j \<and> j < i"
      with not_less_Least [of j "\<lambda>i. ?a \<le> i \<and> i < length ?t \<and> ?t ! i \<noteq> None"] i(2)
      show "?t ! j = None" unfolding i_def by (cases "?t ! j") auto
    qed
    obtain k v where e: "?t ! i = Some (k, v)" using i(3) by auto
    then obtain b where b: "k = KeyPtr b"
      using keyed_entries_ptr [OF ok i(2)] by blast
    have nx: "opal_hash_table_get_next_key_ptr ht node = (SUCCESS, Some (b, v, i))"
      using ok i before e b cap by (intro next_key_ptr_Some) auto
    have "entries (drop ?a ?t) = entries (drop i ?t)"
      using entries_drop_None [OF before i(1)] i(2) by simp
    also have "drop i ?t = Some (k, v) # drop (Suc i) ?t"
      using i(2) e by (metis Cons_nth_drop_Suc)
    finally have d: "entries (drop ?a ?t) = (k, v) # entries (drop (Suc i) ?t)" by simp
    have "ht_capacity ht - next_start (Some i) < fuel"
      using Suc.prems i cap by (simp add: next_start_def)
    from Suc.IH [OF this] nx d b show ?thesis by (simp add: next_start_def)
  qed
qed simp

text \<open>A table with one element, for the witnesses.\<close>

lemma example_table:
  "\<exists>ht :: nat opal_hash_table. table_ok Methods_ptr ht \<and> ht_map ht (KeyPtr [65]) = Some 7"
proof -
  have r31: "opal_hash_round_capacity_up 2 = 31"
    by (simp add: opal_hash_round_capacity_up_def size_t_def)
  obtain ht where ht: "opal_hash_table_init (\<lambda>_. True) opal_hash_table_construct 1
      = (SUCCESS, ht :: nat opal_hash_table)"
    by (simp add: opal_hash_table_init_def opal_hash_table_init2_def calloc_ok_def r31)
  then have trig: "ht_growth_trigger ht = 15" "ht_size ht = 0"
    by (auto simp: opal_hash_table_init_def opal_hash_table_init2_def calloc_ok_def r31
        opal_hash_table_construct_def)
  have ok: "table_ok Methods_ptr ht" "ht_map ht = Map.empty"
    using table_ok_init [OF ht] by auto
  from set_value_absent [of ht "KeyPtr [65]" "\<lambda>_. True" 7] ok trig obtain ht' where
    "wf_table ht'" "keyed Methods_ptr ht'" "ht_map ht' = (ht_map ht)(KeyPtr [65] \<mapsto> 7)"
    by (auto simp: table_ok_def)
  then show ?thesis by (auto simp: table_ok_def)
qed

section \<open>Properties\<close>



text \<open>
  C24: Removal. On a well-formed table, removing a stored key succeeds, every other key keeps its
  value and stays reachable although its element may have been moved to close the gap, the
  number of elements drops by one, and the probe-path invariant holds again.
\<close>

theorem remove_value_keeps_others:
  assumes "wf_table ht" "keyed Methods_ptr ht" "ht_map ht (KeyPtr k) = Some v"
  shows "\<exists>ht'. opal_hash_table_remove_value_ptr ht k = Some (SUCCESS, ht') \<and> wf_table ht' \<and>
    ht_size ht' = ht_size ht - 1 \<and>
    (\<forall>k'. \<exists>st ht''. opal_hash_table_get_value_ptr ht' k'
       = Some (st, if k' = k then None else ht_map ht (KeyPtr k'), ht''))"
proof -
  obtain ht' where r: "remove_value ht (KeyPtr k) = Some (SUCCESS, ht')" "wf_table ht'"
    "keyed Methods_ptr ht'" "ht_map ht' = (ht_map ht)(KeyPtr k := None)" "ht_size ht' = ht_size ht - 1"
    using remove_value_present [of ht "KeyPtr k" v] assms by auto
  then show ?thesis
    using get_value_correct [of ht' "KeyPtr _"]
    by (auto simp: opal_hash_table_remove_value_ptr_def opal_hash_table_get_value_ptr_def)
qed

theorem remove_value_keeps_others_witness:
  "\<exists>ht ht'. ht_map (ht :: nat opal_hash_table) (KeyPtr [65]) = Some 7 \<and>
    opal_hash_table_remove_value_ptr ht [65] = Some (SUCCESS, ht') \<and> wf_table ht'"
proof -
  obtain ht :: "nat opal_hash_table" where ok: "table_ok Methods_ptr ht"
    "ht_map ht (KeyPtr [65]) = Some 7"
    using example_table by blast
  with remove_value_keeps_others [of ht "[65]" 7] show ?thesis
    by (auto simp: table_ok_def)
qed

lemma traverse_all:
  assumes "table_ok Methods_ptr ht"
  shows "map (\<lambda>(k, v). (KeyPtr k, v)) (traverse (ht_capacity ht + 1) ht None) = entries (ht_table ht)
    \<and> distinct (map fst (traverse (ht_capacity ht + 1) ht None))
    \<and> map_of (traverse (ht_capacity ht + 1) ht None) = (\<lambda>k. ht_map ht (KeyPtr k))"
proof -
  define V where "V = traverse (ht_capacity ht + 1) ht None"
  have e: "map (\<lambda>(k, v). (KeyPtr k, v)) V = entries (ht_table ht)"
    using traverse_entries [OF assms, of None "ht_capacity ht + 1"] by (simp add: next_start_def V_def)
  have "distinct (map fst (entries (ht_table ht)))"
    using assms by (simp add: table_ok_def wf_table_def wf_slots_def)
  then have "distinct (map KeyPtr (map fst V))"
    unfolding e [symmetric] by (simp add: o_def split_def)
  then have "distinct (map fst V)"
    using distinct_map [of KeyPtr "map fst V"] by blast
  moreover have "map_of (map (\<lambda>(k, v). (KeyPtr k, v)) xs) (KeyPtr k) = map_of xs k"
    for xs :: "(byte list \<times> 'a) list" and k
    by (induction xs) auto
  then have "map_of V = (\<lambda>k. ht_map ht (KeyPtr k))"
    by (metis (no_types, lifting) e ext ht_map_def tbl_map_def)
  ultimately show ?thesis using e unfolding V_def by blast
qed

text \<open>
  C28: Traversal. Iterating a table of pointer keys with \<^verbatim>\<open>get_next_key_ptr\<close> from NULL, as
  every \<^verbatim>\<open>while\<close> loop over a table does, visits exactly the stored pairs, each once and in
  slot order, as long as the loop body leaves the table alone.
\<close>

theorem traversal_complete:
  assumes "table_ok Methods_ptr ht"
  shows "map (\<lambda>(k, v). (KeyPtr k, v)) (traverse (ht_capacity ht + 1) ht None) = entries (ht_table ht)
    \<and> distinct (map fst (traverse (ht_capacity ht + 1) ht None))
    \<and> map_of (traverse (ht_capacity ht + 1) ht None) = (\<lambda>k. ht_map ht (KeyPtr k))"
  by (rule traverse_all [OF assms])

theorem traversal_complete_witness:
  "\<exists>ht. table_ok Methods_ptr (ht :: nat opal_hash_table) \<and> ht_map ht (KeyPtr [65]) = Some 7 \<and>
    map_of (traverse (ht_capacity ht + 1) ht None) [65] = Some 7"
proof -
  obtain ht :: "nat opal_hash_table" where "table_ok Methods_ptr ht"
    "ht_map ht (KeyPtr [65]) = Some 7"
    using example_table by blast
  with traversal_complete [of ht] show ?thesis by auto
qed



text \<open>
  C36: When the allocation of a larger table fails, \<^verbatim>\<open>set_value\<close> reports it but has already
  stored the element. A table of capacity 1 is then full, and looking a missing key up probes
  forever: no number of iterations ends the loop.
\<close>

theorem failed_growth_hangs_lookup:
  "\<exists>mem ht ht'. opal_hash_table_init mem opal_hash_table_construct 0 = (SUCCESS, ht) \<and>
    opal_hash_table_set_value_uint32 mem ht 1 v = Some (ERR_OUT_OF_RESOURCE, ht') \<and>
    opal_hash_table_get_value_uint32 ht' 2 = None \<and>
    (\<forall>fuel. probe fuel (ht_table ht') (KeyU32 2) (home (ht_capacity ht') (KeyU32 2)) = None)"
proof -
  let ?mem = "\<lambda>n::nat. n = 1"
  let ?ht = "snd (opal_hash_table_init ?mem opal_hash_table_construct 0)"
  let ?ht' = "?ht\<lparr>ht_table := [Some (KeyU32 1, v)], ht_size := 1, ht_type_methods := Some Methods_uint32\<rparr>"
  have init: "opal_hash_table_init ?mem opal_hash_table_construct 0 = (SUCCESS, ?ht)"
    by (simp add: opal_hash_table_init_def opal_hash_table_init2_def calloc_ok_def
        opal_hash_round_capacity_up_def)
  have set: "opal_hash_table_set_value_uint32 ?mem ?ht 1 v = Some (ERR_OUT_OF_RESOURCE, ?ht')"
    by (simp add: opal_hash_table_set_value_uint32_def set_value_def opal_hash_table_init_def
        opal_hash_table_init2_def calloc_ok_def opal_hash_round_capacity_up_def
        opal_hash_table_construct_def other_methods_def home_def wrap_def opal_hash_grow_def size_t_def)
  have full: "probe fuel (ht_table ?ht') (KeyU32 2) (home (ht_capacity ?ht') (KeyU32 2)) = None" for fuel
    by (rule probe_diverges) (simp_all add: home_def opal_hash_table_init_def opal_hash_table_init2_def
        calloc_ok_def opal_hash_round_capacity_up_def)
  have "ht_capacity ?ht' = 1" "\<not> other_methods ?ht' (KeyU32 2)"
    by (simp_all add: opal_hash_table_init_def opal_hash_table_init2_def calloc_ok_def
        opal_hash_round_capacity_up_def other_methods_def)
  with full have "opal_hash_table_get_value_uint32 ?ht' 2 = None"
    by (simp add: opal_hash_table_get_value_uint32_def get_value_def Let_def)
  with init set full show ?thesis by blast
qed

end
