(* ===== verification/C_Strings.thy ===== *)
theory C_Strings
  imports Orcm_Prelude "HOL-Library.Monad_Syntax"
begin

text \<open>
  The part of the C library the string-handling components call: decimal printing
  (\<^verbatim>\<open>%d\<close>, \<^verbatim>\<open>%lu\<close>), \<^verbatim>\<open>strtol\<close> in base 10 with its clamping and
  \<^verbatim>\<open>errno\<close>, conversions between integer widths, and splitting at a character.  The lemmas say
  that printing and reading a number are inverse, also when it is padded with zeros.
\<close>

section \<open>Integers\<close>

definition INT_MAX :: int where "INT_MAX = 2 ^ 31 - 1"
definition LONG_MAX :: int where "LONG_MAX = 2 ^ 63 - 1"
definition LONG_MIN :: int where "LONG_MIN = - (2 ^ 63)"

text \<open>Conversion to \<^verbatim>\<open>int\<close>: the low 32 bits in two's complement.\<close>

definition to_int :: "int \<Rightarrow> int" where
  "to_int n = (let m = n mod 2 ^ 32 in if m < 2 ^ 31 then m else m - 2 ^ 32)"

text \<open>Signed addition, undefined when it overflows an \<^verbatim>\<open>int\<close>.\<close>

definition add_int :: "int \<Rightarrow> int \<Rightarrow> int option" where
  "add_int a b = (if - INT_MAX - 1 \<le> a + b \<and> a + b \<le> INT_MAX then Some (a + b) else None)"

lemma to_int_id [simp]: "0 \<le> n \<Longrightarrow> n < 2 ^ 31 \<Longrightarrow> to_int n = n"
  by (simp add: to_int_def)

section \<open>Printing\<close>

definition digit_char :: "nat \<Rightarrow> char" where
  "digit_char d = char_of (48 + d)"

function decimal :: "nat \<Rightarrow> string" where
  "decimal n = (if n < 10 then [digit_char n] else decimal (n div 10) @ [digit_char (n mod 10)])"
  by pat_completeness auto
termination by (relation "measure id") auto

declare decimal.simps [simp del]

definition decimal_int :: "int \<Rightarrow> string" where
  "decimal_int z = (if z < 0 then CHR ''-'' # decimal (nat (- z)) else decimal (nat z))"

section \<open>Reading\<close>

definition isspace :: "char \<Rightarrow> bool" where
  "isspace c \<longleftrightarrow> (of_char c :: nat) = 32 \<or> (9 \<le> (of_char c :: nat) \<and> (of_char c :: nat) \<le> 13)"

definition digits_value :: "string \<Rightarrow> nat" where
  "digits_value ds = foldl (\<lambda>n c. 10 * n + digit_value c) 0 ds"

definition clamp_long :: "int \<Rightarrow> int" where
  "clamp_long z = max LONG_MIN (min LONG_MAX z)"

text \<open>
  \<^verbatim>\<open>strtol(s, &endptr, 10)\<close>: the value, the rest of the string, and whether \<^verbatim>\<open>errno\<close> is set
  to \<^verbatim>\<open>ERANGE\<close>.  With no digits the value is 0 and nothing is consumed.
\<close>

definition strtol :: "string \<Rightarrow> int \<times> string \<times> bool" where
  "strtol s =
     (let t = dropWhile isspace s;
          neg = (t \<noteq> [] \<and> hd t = CHR ''-'');
          u = (if t \<noteq> [] \<and> (hd t = CHR ''-'' \<or> hd t = CHR ''+'') then tl t else t);
          ds = takeWhile isdigit u;
          v = (if neg then - int (digits_value ds) else int (digits_value ds))
      in if ds = [] then (0, s, False)
         else (clamp_long v, dropWhile isdigit u, clamp_long v \<noteq> v))"

section \<open>Lemmas on digits\<close>

lemma of_char_char_of [simp]: "n < 256 \<Longrightarrow> (of_char (char_of n :: char) :: nat) = n"
  by (simp add: of_char_of)

lemma isdigit_digit_char [simp]: "d < 10 \<Longrightarrow> isdigit (digit_char d)"
  by (simp add: isdigit_def digit_char_def)

lemma digit_value_digit_char [simp]: "d < 10 \<Longrightarrow> digit_value (digit_char d) = d"
  by (simp add: digit_value_def digit_char_def)

lemma digit_value_less [simp]: "isdigit c \<Longrightarrow> digit_value c < 10"
  unfolding isdigit_def digit_value_def by linarith

lemma digit_char_digit_value [simp]: "isdigit c \<Longrightarrow> digit_char (digit_value c) = c"
  by (simp add: isdigit_def digit_value_def digit_char_def)

lemma digits_value_Nil [simp]: "digits_value [] = 0"
  by (simp add: digits_value_def)

lemma digits_value_snoc [simp]: "digits_value (ds @ [c]) = 10 * digits_value ds + digit_value c"
  by (simp add: digits_value_def)

lemma decimal_digits: "\<forall>c\<in>set (decimal n). isdigit c"
  by (induction n rule: decimal.induct) (subst decimal.simps, auto)

lemma decimal_not_Nil [simp]: "decimal n \<noteq> []"
  by (subst decimal.simps) simp

lemma digits_value_decimal [simp]: "digits_value (decimal n) = n"
proof (induction n rule: decimal.induct)
  case (1 n)
  show ?case
  proof (cases "n < 10")
    case True
    then show ?thesis
      using digits_value_snoc [of "[]" "digit_char n"] by (simp add: decimal.simps [of n])
  next
    case False
    with 1 show ?thesis by (subst decimal.simps) simp
  qed
qed

lemma digits_value_bound: "\<forall>c\<in>set ds. isdigit c \<Longrightarrow> digits_value ds < 10 ^ length ds"
proof (induction ds rule: rev_induct)
  case (snoc c ds)
  then have "digits_value ds < 10 ^ length ds" "digit_value c < 10" by auto
  then have "10 * digits_value ds + digit_value c < 10 * 10 ^ length ds" by linarith
  then show ?case by simp
qed simp

lemma length_decimal_le:
  assumes "n < 10 ^ k" and "0 < k"
  shows "length (decimal n) \<le> k"
  using assms
proof (induction n arbitrary: k rule: decimal.induct)
  case (1 n)
  show ?case
  proof (cases "n < 10")
    case True
    with "1.prems" show ?thesis by (simp add: decimal.simps [of n])
  next
    case False
    with "1.prems" obtain m where k: "k = Suc m" "0 < m"
      by (cases k; cases "k - 1") auto
    with "1.prems" have "n div 10 < 10 ^ m" by (simp add: less_mult_imp_div_less mult.commute)
    with 1(1) [OF False] k(2) have "length (decimal (n div 10)) \<le> m" by simp
    with False k show ?thesis by (subst decimal.simps) simp
  qed
qed

text \<open>
  Zero-padding: a digit string of length \<open>k\<close> is the decimal form of its value padded to \<open>k\<close>.
\<close>

definition padded :: "nat \<Rightarrow> nat \<Rightarrow> string" where
  "padded k n = replicate (k - length (decimal n)) CHR ''0'' @ decimal n"

lemma digit_char_0: "digit_char 0 = CHR ''0''"
  by code_simp

lemma digits_value_zeros: "digits_value (replicate k CHR ''0'' @ ds) = digits_value ds"
proof (induction ds rule: rev_induct)
  case Nil
  have "digits_value (replicate k CHR ''0'') = 0"
  proof (induction k)
    case (Suc k)
    have "replicate (Suc k) CHR ''0'' = replicate k CHR ''0'' @ [CHR ''0'']"
      by (simp add: replicate_append_same)
    then show ?case using Suc by (simp only: digits_value_snoc) (simp add: digit_value_def)
  qed simp
  then show ?case by simp
next
  case (snoc c ds)
  then show ?case
    using digits_value_snoc [of "replicate k CHR ''0'' @ ds" c] by simp
qed

lemma digits_value_inj:
  assumes "\<forall>c\<in>set a. isdigit c" and "\<forall>c\<in>set b. isdigit c" and "length a = length b"
    and "digits_value a = digits_value b"
  shows "a = b"
  using assms
proof (induction a arbitrary: b rule: rev_induct)
  case (snoc c a)
  then obtain b' d where b: "b = b' @ [d]" by (cases b rule: rev_cases) auto
  have v: "10 * digits_value a + digit_value c = 10 * digits_value b' + digit_value d"
    using snoc.prems(4) b by simp
  have dig: "isdigit c" "isdigit d" using snoc.prems(1,2) b by auto
  then have lt: "digit_value c < 10" "digit_value d < 10" by auto
  have cd: "digit_value c = digit_value d" and ab: "digits_value a = digits_value b'"
    using v lt by presburger+
  from cd dig have "c = d" by (metis digit_char_digit_value)
  moreover have "a = b'"
    using snoc.prems b ab by (intro snoc.IH) auto
  ultimately show ?case using b by simp
qed simp

lemma padded_digits:
  assumes "\<forall>c\<in>set ds. isdigit c" and "ds \<noteq> []"
  shows "padded (length ds) (digits_value ds) = ds"
proof (rule digits_value_inj)
  show "\<forall>c\<in>set (padded (length ds) (digits_value ds)). isdigit c"
    using decimal_digits by (auto simp: padded_def isdigit_def)
  have "length (decimal (digits_value ds)) \<le> length ds"
    using assms digits_value_bound by (intro length_decimal_le) auto
  then show "length (padded (length ds) (digits_value ds)) = length ds"
    by (simp add: padded_def)
qed (use assms in \<open>auto simp: padded_def digits_value_zeros\<close>)

section \<open>Lemmas on reading\<close>

lemma isdigit_not_space: "isdigit c \<Longrightarrow> \<not> isspace c" "isdigit c \<Longrightarrow> c \<noteq> CHR ''-''"
    "isdigit c \<Longrightarrow> c \<noteq> CHR ''+''"
  by (auto simp: isdigit_def isspace_def)

text \<open>Reading digits followed by something that is not a digit.\<close>

lemma strtol_digits:
  assumes "\<forall>c\<in>set ds. isdigit c" and "ds \<noteq> []" and "rest = [] \<or> \<not> isdigit (hd rest)"
    and "int (digits_value ds) \<le> LONG_MAX"
  shows "strtol (ds @ rest) = (int (digits_value ds), rest, False)"
proof -
  from assms(1,2) obtain d ds' where ds: "ds = d # ds'" "isdigit d" by (cases ds) auto
  then have "dropWhile isspace (ds @ rest) = ds @ rest" and
    sign: "hd (ds @ rest) \<noteq> CHR ''-''" "hd (ds @ rest) \<noteq> CHR ''+''"
    by (auto simp: isdigit_not_space)
  moreover have "takeWhile isdigit (ds @ rest) = ds" "dropWhile isdigit (ds @ rest) = rest"
    using assms(1,3) by (cases rest; simp add: takeWhile_append dropWhile_append3)+
  moreover have "clamp_long (int (digits_value ds)) = int (digits_value ds)"
    using assms(4) by (simp add: clamp_long_def LONG_MIN_def)
  ultimately show ?thesis
    using assms(2) by (simp add: strtol_def Let_def)
qed

lemma strtol_decimal:
  assumes "rest = [] \<or> \<not> isdigit (hd rest)" and "int n \<le> LONG_MAX"
  shows "strtol (decimal n @ rest) = (int n, rest, False)"
  using strtol_digits [of "decimal n" rest] assms decimal_digits by simp

end
