(* ===== verification/Opal_Argv.thy ===== *)
theory Opal_Argv
  imports Orcm_Prelude "HOL-Library.Monad_Syntax"
begin

text \<open>
  NULL-terminated argument vectors, \<^verbatim>\<open>opal/util/argv.c\<close>.

  A \<^verbatim>\<open>char **\<close> is \<^verbatim>\<open>NULL\<close> (\<open>None\<close>) or an allocated block of cells; a cell
  holds a string, the NULL pointer, or nothing yet (what \<^verbatim>\<open>malloc\<close> and \<^verbatim>\<open>realloc\<close>
  leave in fresh cells).  Reading a cell that is out of the block or not initialised, writing out of the
  block, and dereferencing NULL are undefined in C.  Every operation therefore returns an
  \<open>option\<close>: \<open>None\<close> says that the call runs into undefined behaviour, and the
  correctness lemmas say that it does not.

  The allocator is a parameter \<open>mem\<close>: whether a request of that many bytes succeeds.
  Ownership of the strings (\<^verbatim>\<open>free\<close>) is not part of the model.
\<close>

named_theorems argv_simps "content of a vector after an operation"

section \<open>Memory\<close>

datatype cell = Undef | Null | Str string

type_synonym block = "cell list"
type_synonym argv = "block option"
type_synonym allocator = "nat \<Rightarrow> bool"

text \<open>The allocator that never fails.\<close>

definition always :: allocator where
  "always n = True"

definition rd :: "block \<Rightarrow> nat \<Rightarrow> cell option" where
  "rd b i = (if i < length b \<and> b ! i \<noteq> Undef then Some (b ! i) else None)"

definition wr :: "block \<Rightarrow> nat \<Rightarrow> cell \<Rightarrow> block option" where
  "wr b i c = (if i < length b then Some (b[i := c]) else None)"

definition resized :: "block \<Rightarrow> nat \<Rightarrow> block" where
  "resized b n = take n b @ replicate (n - length b) Undef"

text \<open>\<^verbatim>\<open>realloc(argv, n * sizeof(char *))\<close>: the new block, or NULL.\<close>

definition realloc :: "allocator \<Rightarrow> block \<Rightarrow> nat \<Rightarrow> argv" where
  "realloc mem b n = (if mem (8 * n) then Some (resized b n) else None)"

definition strdup :: "allocator \<Rightarrow> string \<Rightarrow> cell" where
  "strdup mem s = (if mem (length s + 1) then Str s else Null)"

section \<open>Counting and appending\<close>

text \<open>The scan of \<^verbatim>\<open>opal_argv_count\<close> runs off the block if no NULL is found.\<close>

fun count_cells :: "block \<Rightarrow> nat option" where
  "count_cells [] = None"
| "count_cells (Undef # b) = None"
| "count_cells (Null # b) = Some 0"
| "count_cells (Str s # b) = map_option Suc (count_cells b)"

fun opal_argv_count :: "argv \<Rightarrow> nat option" where
  "opal_argv_count None = Some 0"
| "opal_argv_count (Some b) = count_cells b"

text \<open>The common tail: store a copy at \<open>argc\<close> and terminate the vector behind it.\<close>

definition store_last :: "allocator \<Rightarrow> block \<Rightarrow> nat \<Rightarrow> string \<Rightarrow> (status \<times> argv) option" where
  "store_last mem b argc arg =
     do { b \<leftarrow> wr b argc (strdup mem arg);
          if strdup mem arg = Null then Some (ERR_OUT_OF_RESOURCE, Some b)
          else do { b \<leftarrow> wr b (argc + 1) Null; Some (SUCCESS, Some b) } }"

fun opal_argv_append_nosize :: "allocator \<Rightarrow> argv \<Rightarrow> string \<Rightarrow> (status \<times> argv) option" where
  "opal_argv_append_nosize mem None arg =
     (if mem 16 then store_last mem [Null, Null] 0 arg
      else Some (ERR_OUT_OF_RESOURCE, None))"
| "opal_argv_append_nosize mem (Some b) arg =
     do { argc \<leftarrow> count_cells b;
          case realloc mem b (argc + 2) of
            None \<Rightarrow> Some (ERR_OUT_OF_RESOURCE, None)
          | Some b \<Rightarrow> store_last mem b argc arg }"

definition opal_argv_append ::
  "allocator \<Rightarrow> nat \<Rightarrow> argv \<Rightarrow> string \<Rightarrow> (status \<times> nat \<times> argv) option" where
  "opal_argv_append mem argc argv arg =
     do { (rc, argv) \<leftarrow> opal_argv_append_nosize mem argv arg;
          if rc \<noteq> SUCCESS then Some (rc, argc, argv)
          else do { argc \<leftarrow> opal_argv_count argv; Some (SUCCESS, argc, argv) } }"

text \<open>
  \<open>move_up b start gap n\<close>: the loops that shift \<open>n\<close> cells up by \<open>gap\<close>, from the
  last one down (\<^verbatim>\<open>for (i = n - 1; i >= 0; --i) b[start + gap + i] = b[start + i]\<close>).
\<close>

fun move_up :: "block \<Rightarrow> nat \<Rightarrow> nat \<Rightarrow> nat \<Rightarrow> block option" where
  "move_up b start gap 0 = Some b"
| "move_up b start gap (Suc i) =
     do { c \<leftarrow> rd b (start + i);
          b \<leftarrow> wr b (start + gap + i) c;
          move_up b start gap i }"

fun opal_argv_prepend_nosize :: "allocator \<Rightarrow> argv \<Rightarrow> string \<Rightarrow> (status \<times> argv) option" where
  "opal_argv_prepend_nosize mem None arg =
     (if mem 16 then Some (SUCCESS, Some [strdup mem arg, Null])
      else Some (ERR_OUT_OF_RESOURCE, None))"
| "opal_argv_prepend_nosize mem (Some b) arg =
     do { argc \<leftarrow> count_cells b;
          case realloc mem b (argc + 2) of
            None \<Rightarrow> Some (ERR_OUT_OF_RESOURCE, None)
          | Some b \<Rightarrow>
              do { b \<leftarrow> wr b (argc + 1) Null;
                   b \<leftarrow> move_up b 0 1 argc;
                   b \<leftarrow> wr b 0 (strdup mem arg);
                   Some (SUCCESS, Some b) } }"

text \<open>
  The search loop of \<^verbatim>\<open>opal_argv_append_unique_nosize\<close>: \<open>Some (Some i)\<close> is the first
  cell that holds \<open>arg\<close>.
\<close>

fun find_arg :: "block \<Rightarrow> string \<Rightarrow> nat option option" where
  "find_arg [] arg = None"
| "find_arg (Undef # b) arg = None"
| "find_arg (Null # b) arg = Some None"
| "find_arg (Str s # b) arg =
     (if arg = s then Some (Some 0) else map_option (map_option Suc) (find_arg b arg))"

fun opal_argv_append_unique_nosize ::
  "allocator \<Rightarrow> argv \<Rightarrow> string \<Rightarrow> bool \<Rightarrow> (status \<times> argv) option" where
  "opal_argv_append_unique_nosize mem None arg overwrite = opal_argv_append_nosize mem None arg"
| "opal_argv_append_unique_nosize mem (Some b) arg overwrite =
     do { found \<leftarrow> find_arg b arg;
          case found of
            Some i \<Rightarrow>
              (if overwrite then do { b \<leftarrow> wr b i (strdup mem arg); Some (SUCCESS, Some b) }
               else Some (SUCCESS, Some b))
          | None \<Rightarrow> opal_argv_append_nosize mem (Some b) arg }"

section \<open>Splitting and joining\<close>

text \<open>
  \<^verbatim>\<open>opal_argv_split_inter\<close>.  The string is consumed from the left; \<open>arg\<close> is what the
  inner loop passes over.  The result \<open>Some None\<close> is a NULL return: nothing was appended, or an
  allocation failed.
\<close>

definition ARGSIZE :: nat where "ARGSIZE = 128"

function split_loop ::
  "allocator \<Rightarrow> char \<Rightarrow> bool \<Rightarrow> string \<Rightarrow> nat \<Rightarrow> argv \<Rightarrow> argv option" where
  "split_loop mem delimiter include_empty src argc argv =
     (if src = [] then Some argv
      else
        let arg = takeWhile (\<lambda>c. c \<noteq> delimiter) src;
            p = dropWhile (\<lambda>c. c \<noteq> delimiter) src
        in if arg = [] \<and> \<not> include_empty
           then split_loop mem delimiter include_empty (tl p) argc argv
           else if arg \<noteq> [] \<and> p \<noteq> [] \<and> length arg > ARGSIZE - 1 \<and> \<not> mem (length arg + 1)
           then Some None
           else
             do { (rc, argc, argv) \<leftarrow> opal_argv_append mem argc argv arg;
                  if rc \<noteq> SUCCESS then Some None
                  else split_loop mem delimiter include_empty (tl p) argc argv })"
  by pat_completeness auto
termination
proof (relation "measure (\<lambda>(_, _, _, src, _, _). length src)", goal_cases)
  case 1
  then show ?case by simp
next
  case (2 mem d e src argc argv arg p)
  have "length (dropWhile (\<lambda>c. c \<noteq> d) src) \<le> length src"
    by (rule length_dropWhile_le)
  with 2 show ?case by (cases src) (auto simp: le_less_trans diff_less)
next
  case (3 mem d e src argc argv arg p)
  have "length (dropWhile (\<lambda>c. c \<noteq> d) src) \<le> length src"
    by (rule length_dropWhile_le)
  with 3 show ?case by (cases src) (auto simp: le_less_trans diff_less)
qed

declare split_loop.simps [simp del]

definition opal_argv_split_inter :: "allocator \<Rightarrow> string \<Rightarrow> char \<Rightarrow> bool \<Rightarrow> argv option" where
  "opal_argv_split_inter mem src_string delimiter include_empty =
     split_loop mem delimiter include_empty src_string 0 None"

definition opal_argv_split :: "allocator \<Rightarrow> string \<Rightarrow> char \<Rightarrow> argv option" where
  "opal_argv_split mem src_string delimiter =
     opal_argv_split_inter mem src_string delimiter False"

definition opal_argv_split_with_empty :: "allocator \<Rightarrow> string \<Rightarrow> char \<Rightarrow> argv option" where
  "opal_argv_split_with_empty mem src_string delimiter =
     opal_argv_split_inter mem src_string delimiter True"

text \<open>
  The two loops of \<^verbatim>\<open>opal_argv_join\<close>: the length of the result, each delimiter included,
  and the fill, which writes \<open>n\<close> characters from the cursor \<open>pp\<close> in the strings
  \<open>p\<close>.  A cursor that is NULL when it is read is undefined behaviour.
\<close>

fun join_len :: "block \<Rightarrow> nat option" where
  "join_len [] = None"
| "join_len (Undef # b) = None"
| "join_len (Null # b) = Some 0"
| "join_len (Str s # b) = map_option ((+) (length s + 1)) (join_len b)"

fun join_fill :: "char \<Rightarrow> nat \<Rightarrow> cell \<Rightarrow> block \<Rightarrow> string option" where
  "join_fill delimiter 0 pp p = Some []"
| "join_fill delimiter (Suc n) (Str []) p =
     (case p of
        [] \<Rightarrow> None
      | c # p \<Rightarrow> if c = Undef then None
                else map_option ((#) delimiter) (join_fill delimiter n c p))"
| "join_fill delimiter (Suc n) (Str (c # pp)) p =
     map_option ((#) c) (join_fill delimiter n (Str pp) p)"
| "join_fill delimiter (Suc n) Null p = None"
| "join_fill delimiter (Suc n) Undef p = None"

text \<open>
  Results: \<open>None\<close> is undefined behaviour, \<open>Some None\<close> a NULL return.
\<close>

definition opal_argv_join :: "allocator \<Rightarrow> argv \<Rightarrow> char \<Rightarrow> string option option" where
  "opal_argv_join mem argv delimiter =
     (case argv of
        None \<Rightarrow> Some (if mem 1 then Some [] else None)
      | Some b \<Rightarrow>
          do { c \<leftarrow> rd b 0;
               if c = Null then Some (if mem 1 then Some [] else None)
               else
                 do { str_len \<leftarrow> join_len b;
                      if \<not> mem str_len then Some None
                      else if str_len = 0 then None
                      else map_option Some (join_fill delimiter (str_len - 1) c (tl b)) } })"

text \<open>\<^verbatim>\<open>(int) start\<close> for a \<^verbatim>\<open>size_t\<close>: the low 32 bits, in two's complement.\<close>

definition int_of_size :: "nat \<Rightarrow> int" where
  "int_of_size n = (let m = int (n mod 2 ^ 32) in if m < 2 ^ 31 then m else m - 2 ^ 32)"

fun join_range_len :: "block \<Rightarrow> nat \<Rightarrow> nat \<Rightarrow> nat option" where
  "join_range_len [] i fin = None"
| "join_range_len (Undef # b) i fin = None"
| "join_range_len (Null # b) i fin = Some 0"
| "join_range_len (Str s # b) i fin =
     (if i < fin then map_option ((+) (length s + 1)) (join_range_len b (i + 1) fin)
      else Some 0)"

text \<open>
  \<^verbatim>\<open>opal_argv_join_range\<close>.  With nothing to join the length is 0, and the write to
  \<^verbatim>\<open>str[--str_len]\<close> is out of the allocated string.
\<close>

definition opal_argv_join_range ::
  "allocator \<Rightarrow> argv \<Rightarrow> nat \<Rightarrow> nat \<Rightarrow> char \<Rightarrow> string option option" where
  "opal_argv_join_range mem argv start fin delimiter =
     (case argv of
        None \<Rightarrow> Some (if mem 1 then Some [] else None)
      | Some b \<Rightarrow>
          do { c \<leftarrow> rd b 0;
               if c = Null then Some (if mem 1 then Some [] else None)
               else
                 do { count \<leftarrow> count_cells b;
                      if int_of_size start > int count
                      then Some (if mem 1 then Some [] else None)
                      else
                        do { str_len \<leftarrow> join_range_len (drop start b) start fin;
                             if \<not> mem str_len then Some None
                             else if str_len = 0 then None
                             else
                               do { c \<leftarrow> rd b start;
                                    map_option Some
                                      (join_fill delimiter (str_len - 1) c (drop (start + 1) b)) } } } })"

section \<open>Size, copy, delete, insert\<close>

fun len_cells :: "block \<Rightarrow> nat option" where
  "len_cells [] = None"
| "len_cells (Undef # b) = None"
| "len_cells (Null # b) = Some 0"
| "len_cells (Str s # b) = map_option ((+) (length s + 1 + 8)) (len_cells b)"

fun opal_argv_len :: "argv \<Rightarrow> nat option" where
  "opal_argv_len None = Some 0"
| "opal_argv_len (Some b) = map_option ((+) 8) (len_cells b)"

fun copy_loop :: "allocator \<Rightarrow> block \<Rightarrow> nat \<Rightarrow> argv \<Rightarrow> argv option" where
  "copy_loop mem [] dupc dupv = None"
| "copy_loop mem (Undef # b) dupc dupv = None"
| "copy_loop mem (Null # b) dupc dupv = Some dupv"
| "copy_loop mem (Str s # b) dupc dupv =
     do { (rc, dupc, dupv) \<leftarrow> opal_argv_append mem dupc dupv s;
          if rc \<noteq> SUCCESS then Some None else copy_loop mem b dupc dupv }"

text \<open>The result of the first \<^verbatim>\<open>malloc\<close> of \<^verbatim>\<open>opal_argv_copy\<close> is not checked.\<close>

fun opal_argv_copy :: "allocator \<Rightarrow> argv \<Rightarrow> argv option" where
  "opal_argv_copy mem None = Some None"
| "opal_argv_copy mem (Some b) =
     (if mem 8 then copy_loop mem b 0 (Some [Null]) else None)"

text \<open>
  \<open>move_down b i gap n\<close>: \<^verbatim>\<open>for (; i < start + suffix_count; ++i) b[i] = b[i + gap]\<close>,
  \<open>n\<close> iterations to go.
\<close>

fun move_down :: "block \<Rightarrow> nat \<Rightarrow> nat \<Rightarrow> nat \<Rightarrow> block option" where
  "move_down b i gap 0 = Some b"
| "move_down b i gap (Suc n) =
     do { c \<leftarrow> rd b (i + gap);
          b \<leftarrow> wr b i c;
          move_down b (i + 1) gap n }"

text \<open>
  \<^verbatim>\<open>opal_argv_delete\<close>; the sum \<^verbatim>\<open>start + num_to_delete\<close> of two \<^verbatim>\<open>int\<close>s is
  undefined when it overflows.  A \<^verbatim>\<open>realloc\<close> that fails keeps the old block.
\<close>

definition opal_argv_delete ::
  "allocator \<Rightarrow> int \<Rightarrow> argv \<Rightarrow> int \<Rightarrow> int \<Rightarrow> (status \<times> int \<times> argv) option" where
  "opal_argv_delete mem argc argv start num_to_delete =
     (case argv of
        None \<Rightarrow> Some (SUCCESS, argc, argv)
      | Some b \<Rightarrow>
          if num_to_delete = 0 then Some (SUCCESS, argc, argv)
          else
            do { count \<leftarrow> count_cells b;
                 if start > int count then Some (SUCCESS, argc, argv)
                 else if start < 0 \<or> num_to_delete < 0 then Some (ERR_BAD_PARAM, argc, argv)
                 else if start + num_to_delete \<ge> 2 ^ 31 then None
                 else
                   let suffix_count = nat (int count - (start + num_to_delete));
                       i = nat start + suffix_count
                   in do { b \<leftarrow> move_down b (nat start) (nat num_to_delete) suffix_count;
                           b \<leftarrow> wr b i Null;
                           let b = (case realloc mem b (i + 1) of None \<Rightarrow> b | Some tmp \<Rightarrow> tmp);
                           Some (SUCCESS, argc - num_to_delete, Some b) } })"

fun append_all :: "allocator \<Rightarrow> string list \<Rightarrow> nat \<Rightarrow> argv \<Rightarrow> argv option" where
  "append_all mem [] target_count target = Some target"
| "append_all mem (s # src) target_count target =
     do { (rc, target_count, target) \<leftarrow> opal_argv_append mem target_count target s;
          append_all mem src target_count target }"

fun strdup_all :: "allocator \<Rightarrow> string list \<Rightarrow> nat \<Rightarrow> block \<Rightarrow> block option" where
  "strdup_all mem [] i b = Some b"
| "strdup_all mem (s # src) i b =
     do { b \<leftarrow> wr b i (strdup mem s); strdup_all mem src (i + 1) b }"

text \<open>The strings of a source vector up to its NULL, read one by one by the insert loops.\<close>

fun strings :: "block \<Rightarrow> string list" where
  "strings (Str s # b) = s # strings b"
| "strings b = []"

text \<open>
  \<^verbatim>\<open>opal_argv_insert\<close> and \<^verbatim>\<open>opal_argv_insert_element\<close>; the result of \<^verbatim>\<open>realloc\<close>
  is not checked, a NULL is then written through.
\<close>

definition opal_argv_insert ::
  "allocator \<Rightarrow> argv \<Rightarrow> int \<Rightarrow> argv \<Rightarrow> (status \<times> argv) option" where
  "opal_argv_insert mem target start source =
     (case target of
        None \<Rightarrow> Some (ERR_BAD_PARAM, target)
      | Some b \<Rightarrow>
          if start < 0 then Some (ERR_BAD_PARAM, target)
          else (case source of
              None \<Rightarrow> Some (SUCCESS, target)
            | Some s \<Rightarrow>
                do { target_count \<leftarrow> count_cells b;
                     source_count \<leftarrow> count_cells s;
                     if start > int target_count
                     then do { t \<leftarrow> append_all mem (strings s) target_count target;
                               Some (SUCCESS, t) }
                     else
                       do { b \<leftarrow> realloc mem b (target_count + source_count + 1);
                            let suffix_count = target_count - nat start;
                            b \<leftarrow> move_up b (nat start) source_count suffix_count;
                            b \<leftarrow> wr b (nat start + suffix_count + source_count) Null;
                            b \<leftarrow> strdup_all mem (strings s) (nat start) b;
                            Some (SUCCESS, Some b) } }))"

definition opal_argv_insert_element ::
  "allocator \<Rightarrow> argv \<Rightarrow> int \<Rightarrow> string option \<Rightarrow> (status \<times> argv) option" where
  "opal_argv_insert_element mem target location source =
     (case target of
        None \<Rightarrow> Some (ERR_BAD_PARAM, target)
      | Some b \<Rightarrow>
          if location < 0 then Some (ERR_BAD_PARAM, target)
          else (case source of
              None \<Rightarrow> Some (SUCCESS, target)
            | Some s \<Rightarrow>
                do { target_count \<leftarrow> count_cells b;
                     if location > int target_count
                     then do { (rc, n, t) \<leftarrow> opal_argv_append mem target_count target s;
                               Some (SUCCESS, t) }
                     else
                       do { b \<leftarrow> realloc mem b (target_count + 2);
                            let suffix_count = target_count - nat location;
                            b \<leftarrow> move_up b (nat location) 1 suffix_count;
                            b \<leftarrow> wr b (nat location + suffix_count + 1) Null;
                            b \<leftarrow> wr b (nat location) (strdup mem s);
                            Some (SUCCESS, Some b) } }))"

section \<open>With enough memory\<close>

lemma always_simps [simp]:
  "always 0" "always 1" "always (Suc n)" "always (numeral k)" "always (m + n)"
  "realloc always b n = Some (resized b n)"
  "strdup always s = Str s"
  by (simp_all add: always_def realloc_def strdup_def)

section \<open>What a vector holds\<close>

text \<open>
  \<open>holds a xs\<close>: the vector is NULL-terminated and its strings are \<open>xs\<close>; what lies behind the
  NULL is of no concern.  A NULL pointer holds the empty list.
\<close>

definition holds :: "argv \<Rightarrow> string list \<Rightarrow> bool" where
  "holds a xs \<longleftrightarrow> (case a of
      None \<Rightarrow> xs = []
    | Some b \<Rightarrow> \<exists>rest. b = map Str xs @ Null # rest)"

abbreviation vec :: "string list \<Rightarrow> block \<Rightarrow> block" where
  "vec xs rest \<equiv> map Str xs @ Null # rest"

lemma holds_None [simp]: "holds None xs \<longleftrightarrow> xs = []"
  by (simp add: holds_def)

lemma holds_vec [simp, intro]: "holds (Some (vec xs rest)) xs"
  by (auto simp: holds_def)

lemma holdsE:
  assumes "holds (Some b) xs"
  obtains rest where "b = vec xs rest"
  using assms by (auto simp: holds_def)

lemma count_vec [simp]: "count_cells (vec xs rest) = Some (length xs)"
  by (induction xs) auto

lemma strings_vec [simp]: "strings (vec xs rest) = xs"
  by (induction xs) auto

lemma holds_unique: "holds a xs \<Longrightarrow> holds a ys \<Longrightarrow> xs = ys"
  by (cases a) (auto simp: holds_def dest: arg_cong [where f = strings])

lemma opal_argv_count_correct [argv_simps]: "holds a xs \<Longrightarrow> opal_argv_count a = Some (length xs)"
  by (cases a) (auto elim: holdsE)

lemma resized_vec:
  assumes "length xs < n"
  obtains rest' where "resized (vec xs rest) n = vec xs rest'" and "length rest' = n - length xs - 1"
proof
  let ?r = "take (n - length xs - 1) rest @ replicate (n - length (vec xs rest)) Undef"
  show "resized (vec xs rest) n = vec xs ?r"
    using assms by (cases "n - length xs") (auto simp: resized_def)
  show "length ?r = n - length xs - 1"
    using assms by (auto simp: min_def)
qed

lemma wr_at [simp]: "wr (A @ c # R) (length A) x = Some (A @ x # R)"
  by (simp add: wr_def)

lemma wr_map_at [simp]: "wr (map f xs @ c # R) (length xs) x = Some (map f xs @ x # R)"
  using wr_at [of "map f xs"] by simp

lemma wr_after [simp]: "wr (map f xs @ c # d # R) (Suc (length xs)) x = Some (map f xs @ c # x # R)"
  using wr_at [of "map f xs @ [c]"] by simp

lemma rd_at [simp]: "c \<noteq> Undef \<Longrightarrow> rd (A @ c # R) (length A) = Some c"
  by (simp add: rd_def)

section \<open>Appending\<close>

lemma store_last_vec:
  "store_last mem (vec xs [c]) (length xs) s =
     (if mem (length s + 1) then Some (SUCCESS, Some (vec (xs @ [s]) []))
      else Some (ERR_OUT_OF_RESOURCE, Some (vec xs [c])))"
  by (simp add: store_last_def strdup_def)

text \<open>
  An append returns whatever the allocator does.  On success the string is the new last element; on failure
  the vector is what it was, or lost (NULL).
\<close>

lemma append_nosize_cases:
  assumes "holds a xs"
  shows "\<exists>rc a'. opal_argv_append_nosize mem a s = Some (rc, a') \<and>
    (rc = SUCCESS \<and> a' \<noteq> None \<and> holds a' (xs @ [s]) \<or>
     rc = ERR_OUT_OF_RESOURCE \<and> mem \<noteq> always \<and> (a' = None \<or> holds a' xs))"
proof (cases a)
  case None
  with assms have "xs = []" by simp
  with None show ?thesis
    using store_last_vec [of mem "[]" Null s] holds_vec [of "[s]" "[]"] holds_vec [of "[]" "[Null]"]
    by auto
next
  case (Some b)
  with assms obtain rest where b: "b = vec xs rest" by (auto elim: holdsE)
  obtain rest' where r: "resized b (length xs + 2) = vec xs rest'" and "length rest' = 1"
    using resized_vec [of xs "length xs + 2" rest] b by auto
  then obtain c where "rest' = [c]" by (cases rest') auto
  with r show ?thesis
    using Some b store_last_vec [of mem xs c s] holds_vec [of "xs @ [s]" "[]"]
      holds_vec [of xs "[c]"]
    by (auto simp: realloc_def)
qed

lemma append_cases:
  assumes "holds a xs"
  shows "\<exists>rc argc' a'. opal_argv_append mem argc a s = Some (rc, argc', a') \<and>
    (rc = SUCCESS \<and> argc' = length xs + 1 \<and> a' \<noteq> None \<and> holds a' (xs @ [s]) \<or>
     rc = ERR_OUT_OF_RESOURCE \<and> mem \<noteq> always \<and> (a' = None \<or> holds a' xs))"
proof -
  obtain rc a' where "opal_argv_append_nosize mem a s = Some (rc, a')" and
    "rc = SUCCESS \<and> a' \<noteq> None \<and> holds a' (xs @ [s]) \<or>
     rc = ERR_OUT_OF_RESOURCE \<and> mem \<noteq> always \<and> (a' = None \<or> holds a' xs)"
    using append_nosize_cases [OF assms, of mem s] by blast
  then show ?thesis
    using opal_argv_count_correct [of a' "xs @ [s]"]
    by (cases "rc = SUCCESS") (simp_all add: opal_argv_append_def)
qed

lemma append_ample:
  assumes "holds a xs"
  shows "\<exists>a'. opal_argv_append always argc a s = Some (SUCCESS, length xs + 1, a') \<and> a' \<noteq> None
    \<and> holds a' (xs @ [s])"
  using append_cases [OF assms, of always argc s] by auto

lemma append_nosize_ample:
  assumes "holds a xs"
  shows "\<exists>a'. opal_argv_append_nosize always a s = Some (SUCCESS, a') \<and> a' \<noteq> None
    \<and> holds a' (xs @ [s])"
  using append_nosize_cases [OF assms, of always s] by auto

lemma find_arg_vec:
  "find_arg (vec xs rest) s = Some (if s \<in> set xs then Some (length (takeWhile (\<lambda>x. x \<noteq> s) xs)) else None)"
  by (induction xs) auto

lemma append_unique_ample:
  assumes "holds a xs"
  shows "\<exists>a'. opal_argv_append_unique_nosize always a s ov = Some (SUCCESS, a') \<and> a' \<noteq> None
    \<and> holds a' (if s \<in> set xs then xs else xs @ [s])"
proof (cases "s \<in> set xs")
  case False
  then have "opal_argv_append_unique_nosize always a s ov = opal_argv_append_nosize always a s"
    using assms by (cases a) (auto elim!: holdsE simp: find_arg_vec)
  with False show ?thesis
    using append_nosize_ample [OF assms, of s] by simp
next
  case True
  with assms obtain b rest where a: "a = Some b" "b = vec xs rest"
    by (cases a) (auto elim: holdsE)
  from True obtain ys zs where xs: "xs = ys @ s # zs" "s \<notin> set ys"
    by (meson split_list_first)
  moreover from xs(2) have "takeWhile (\<lambda>x. x \<noteq> s) ys = ys"
    by (auto simp: takeWhile_eq_all_conv)
  ultimately have "length (takeWhile (\<lambda>x. x \<noteq> s) xs) = length ys"
    by (simp add: takeWhile_tail)
  moreover have "wr b (length ys) (Str s) = Some b"
    using a xs by simp
  ultimately show ?thesis
    using True a by (simp add: find_arg_vec strdup_def)
qed

section \<open>Moving cells\<close>

lemma move_up_blocks:
  assumes "Undef \<notin> set M" and "gap \<le> length R"
  shows "move_up (A @ M @ R) (length A) gap (length M) =
    Some (A @ take gap (M @ R) @ M @ drop gap R)"
  using assms
proof (induction M arbitrary: R rule: rev_induct)
  case Nil
  then show ?case by simp
next
  case (snoc x M)
  let ?R = "take gap (x # R) @ x # drop gap R"
  have "rd (A @ (M @ [x]) @ R) (length A + length M) = Some x"
    using snoc.prems rd_at [of x "A @ M" R] by auto
  moreover have "wr (A @ (M @ [x]) @ R) (length A + gap + length M) x = Some (A @ M @ ?R)"
  proof -
    have "(x # R)[gap := x] = take gap (x # R) @ x # drop (Suc gap) (x # R)"
      using snoc.prems by (intro upd_conv_take_nth_drop) simp
    then have "(A @ M @ x # R)[length A + gap + length M := x] = A @ M @ ?R"
      by (simp add: list_update_append)
    then show ?thesis using snoc.prems by (simp add: wr_def)
  qed
  moreover have "move_up (A @ M @ ?R) (length A) gap (length M) =
      Some (A @ take gap (M @ ?R) @ M @ drop gap ?R)"
    using snoc.prems by (intro snoc.IH) auto
  moreover have "take gap (M @ ?R) = take gap ((M @ [x]) @ R)"
    using snoc.prems by (simp add: min_def)
  moreover have "drop gap ?R = x # drop gap R"
    using snoc.prems by simp
  ultimately show ?case by simp
qed

lemma move_down_blocks:
  assumes "Undef \<notin> set M" and "G \<noteq> []"
  shows "move_down (A @ G @ M @ R) (length A) (length G) (length M) =
    Some (A @ M @ drop (length M) (G @ M) @ R)"
  using assms
proof (induction M arbitrary: A G)
  case Nil
  then show ?case by simp
next
  case (Cons x M)
  then obtain g G' where G: "G = g # G'" by (cases G) auto
  have "rd (A @ G @ (x # M) @ R) (length A + length G) = Some x"
    using Cons.prems rd_at [of x "A @ G" "M @ R"] by auto
  moreover have "wr (A @ G @ (x # M) @ R) (length A) x = Some ((A @ [x]) @ (G' @ [x]) @ M @ R)"
    using G by simp
  moreover have "move_down ((A @ [x]) @ (G' @ [x]) @ M @ R) (length (A @ [x])) (length (G' @ [x]))
      (length M) = Some ((A @ [x]) @ M @ drop (length M) ((G' @ [x]) @ M) @ R)"
    using Cons.prems by (intro Cons.IH) auto
  ultimately show ?case using G by simp
qed

lemma Undef_notin_map [simp]: "Undef \<notin> set (map Str xs)" "Undef \<notin> Str ` A"
  by auto

lemma wr_len:
  "n = length A \<Longrightarrow> wr (A @ c # R) n x = Some (A @ x # R)"
  by simp

section \<open>Editing\<close>

lemma prepend_correct:
  assumes "holds a xs"
  shows "\<exists>a'. opal_argv_prepend_nosize always a s = Some (SUCCESS, a') \<and> holds a' (s # xs)"
proof (cases a)
  case None
  with assms show ?thesis
    using holds_vec [of "[s]" "[]"] by (simp add: strdup_def)
next
  case (Some b)
  with assms obtain rest where b: "b = vec xs rest" by (auto elim: holdsE)
  obtain r where r: "resized b (length xs + 2) = vec xs r" and "length r = 1"
    using resized_vec [of xs "length xs + 2" rest] b by auto
  then obtain c where c: "r = [c]" by (cases r) auto
  have "move_up (vec xs [Null]) 0 1 (length xs) =
      Some (take 1 (map Str xs @ [Null, Null]) @ map Str xs @ [Null])"
    using move_up_blocks [of "map Str xs" 1 "[Null, Null]" "[]"] by simp
  moreover have "wr (take 1 (map Str xs @ [Null, Null]) @ map Str xs @ [Null]) 0 (Str s)
      = Some (vec (s # xs) [])"
    by (cases xs) (simp_all add: wr_def)
  ultimately show ?thesis
    using Some b r c holds_vec [of "s # xs" "[]"]
    by (simp add: realloc_def strdup_def)
qed

lemma realloc_shrink:
  assumes "b = vec xs rest" and "n = length xs + 1"
  shows "holds (Some (case realloc mem b n of None \<Rightarrow> b | Some tmp \<Rightarrow> tmp)) xs"
proof -
  obtain r where "resized b n = vec xs r"
    using resized_vec [of xs n rest] assms by auto
  with assms show ?thesis by (auto simp: realloc_def)
qed

lemma delete_block:
  assumes "start \<le> length xs" and "0 < num"
  shows "\<exists>rest'. Option.bind (move_down (vec xs rest) start num (length xs - (start + num)))
      (\<lambda>b. wr b (start + (length xs - (start + num))) Null) =
      Some (vec (take start xs @ drop (start + num) xs) rest')"
proof (cases "start + num \<le> length xs")
  case True
  let ?A = "map Str (take start xs)" and ?G = "map Str (take num (drop start xs))"
  let ?M = "map Str (drop (start + num) xs)" and ?R = "Null # rest"
  have "xs = take start xs @ take num (drop start xs) @ drop (start + num) xs"
    by (metis append_take_drop_id drop_drop add.commute)
  then have eq: "vec xs rest = ?A @ ?G @ ?M @ ?R"
    by (metis append.assoc map_append)
  have "move_down (vec xs rest) start num (length xs - (start + num)) =
      Some (?A @ ?M @ drop (length ?M) (?G @ ?M) @ ?R)"
    using move_down_blocks [of ?M ?G ?A ?R] assms True unfolding eq by (auto simp: min_def)
  moreover obtain d D where "drop (length ?M) (?G @ ?M) = d # D"
    using assms True by (cases "drop (length ?M) (?G @ ?M)") auto
  moreover have "wr ((?A @ ?M) @ d # D @ ?R) (start + (length xs - (start + num))) Null =
      Some ((?A @ ?M) @ Null # D @ ?R)"
    using assms by (intro wr_len) simp
  ultimately show ?thesis
    by (intro exI [of _ "D @ ?R"]) (simp del: drop_append)
next
  case False
  have "vec xs rest = map Str (take start xs) @ map Str (drop start xs) @ Null # rest"
    by (metis append.assoc append_take_drop_id map_append)
  moreover obtain d D where "map Str (drop start xs) @ Null # rest = d # D"
    by (cases "map Str (drop start xs) @ Null # rest") auto
  ultimately have "wr (vec xs rest) start Null = Some (vec (take start xs) D)"
    using assms by (auto intro!: wr_len)
  with False show ?thesis by auto
qed

lemma delete_correct:
  assumes "holds (Some b) xs" and "0 \<le> start" and "start \<le> int (length xs)" and "0 < num"
    and "start + num < 2 ^ 31"
  shows "\<exists>a'. opal_argv_delete mem argc (Some b) start num = Some (SUCCESS, argc - num, a') \<and>
    holds a' (take (nat start) xs @ drop (nat (start + num)) xs)"
proof -
  from assms(1) obtain rest where b: "b = vec xs rest" by (auto elim: holdsE)
  have nats: "nat (start + num) = nat start + nat num"
    "nat (int (length xs) - (start + num)) = length xs - (nat start + nat num)"
    using assms by (auto simp: nat_add_distrib nat_diff_distrib)
  let ?ys = "take (nat start) xs @ drop (nat start + nat num) xs"
  let ?i = "nat start + (length xs - (nat start + nat num))"
  obtain rest' where "Option.bind (move_down b (nat start) (nat num) (length xs - (nat start + nat num)))
      (\<lambda>b. wr b ?i Null) = Some (vec ?ys rest')"
    using delete_block [of "nat start" xs "nat num" rest] assms b
    by (auto simp: nat_le_iff simp del: map_append)
  then obtain c where "move_down b (nat start) (nat num) (length xs - (nat start + nat num)) = Some c"
    and "wr c ?i Null = Some (vec ?ys rest')"
    by (auto simp: bind_eq_Some_conv)
  moreover have "?i + 1 = length ?ys + 1" using assms by auto
  ultimately show ?thesis
    using assms b realloc_shrink [of "vec ?ys rest'" ?ys rest' "?i + 1" mem]
    by (simp add: opal_argv_delete_def Let_def nats del: map_append)
qed

lemma strdup_all_blocks:
  assumes "length T = length src" and "n = length A"
  shows "strdup_all always src n (A @ T @ R) = Some (A @ map Str src @ R)"
  using assms
proof (induction src arbitrary: A T n)
  case (Cons s src)
  then obtain t T' where T: "T = t # T'" by (cases T) auto
  with Cons.prems Cons.IH [of T' "n + 1" "A @ [Str s]"] show ?case
    by (simp add: strdup_def)
qed simp

text \<open>Making room for \<open>k\<close> strings at \<open>start\<close>: the part the two insert operations share.\<close>

lemma make_room:
  assumes "start \<le> length xs"
  shows "\<exists>T. length T = k \<and> Option.bind
      (move_up (resized (vec xs rest) (length xs + k + 1)) start k (length xs - start))
      (\<lambda>b. wr b (start + (length xs - start) + k) Null) =
      Some (map Str (take start xs) @ T @ map Str (drop start xs) @ [Null])"
proof -
  let ?A = "map Str (take start xs)" and ?M = "map Str (drop start xs)"
  obtain r where r: "resized (vec xs rest) (length xs + k + 1) = vec xs r" "length r = k"
    using resized_vec [of xs "length xs + k + 1" rest] by auto
  have eq: "vec xs r = ?A @ ?M @ Null # r"
    by (metis append.assoc append_take_drop_id map_append)
  have len: "length ?A = start" "length ?M = length xs - start"
    using assms by auto
  let ?T = "take k (?M @ Null # r)"
  have mv: "move_up (vec xs r) start k (length xs - start) = Some (?A @ ?T @ ?M @ drop k (Null # r))"
    using move_up_blocks [of ?M k "Null # r" ?A] r(2) len unfolding eq by simp
  obtain c where c: "drop k (Null # r) = [c]"
    using r(2) length_drop [of k "Null # r"] by (cases "drop k (Null # r)") simp_all
  have T: "length ?T = k" using r(2) by simp
  have "wr ((?A @ ?T @ ?M) @ [c]) (start + (length xs - start) + k) Null
      = Some ((?A @ ?T @ ?M) @ [Null])"
    using len T assms by (intro wr_len) simp
  with mv c r(1) T show ?thesis by (intro exI [of _ ?T]) simp
qed

lemma append_all_ample:
  assumes "holds a xs"
  shows "\<exists>a'. append_all always ys n a = Some a' \<and> holds a' (xs @ ys)"
  using assms
proof (induction ys arbitrary: xs n a)
  case (Cons y ys)
  obtain a' where "opal_argv_append always n a y = Some (SUCCESS, length xs + 1, a')" "holds a' (xs @ [y])"
    using append_ample [OF Cons.prems] by blast
  with Cons.IH [of a' "xs @ [y]" "length xs + 1"] show ?case by simp
qed simp

lemma insert_correct:
  assumes "holds (Some b) xs" and "holds (Some s) ys" and "0 \<le> start"
  shows "\<exists>a'. opal_argv_insert always (Some b) start (Some s) = Some (SUCCESS, a') \<and>
    holds a' (take (nat start) xs @ ys @ drop (nat start) xs)"
proof -
  from assms(1,2) obtain r1 r2 where bs: "b = vec xs r1" "s = vec ys r2" by (auto elim!: holdsE)
  show ?thesis
  proof (cases "start > int (length xs)")
    case True
    with assms bs show ?thesis
      using append_all_ample [OF assms(1), of ys "length xs"]
      by (auto simp: opal_argv_insert_def)
  next
    case False
    let ?n = "nat start"
    from False have n: "?n \<le> length xs" by simp
    from make_room [OF n, of "length ys" r1] obtain T B where T: "length T = length ys"
      and B: "move_up (resized b (length xs + length ys + 1)) ?n (length ys) (length xs - ?n) = Some B"
      and W: "wr B (?n + (length xs - ?n) + length ys) Null =
        Some (map Str (take ?n xs) @ T @ map Str (drop ?n xs) @ [Null])"
      using bs by (auto simp: bind_eq_Some_conv)
    have "strdup_all always ys ?n (map Str (take ?n xs) @ T @ map Str (drop ?n xs) @ [Null]) =
        Some (vec (take ?n xs @ ys @ drop ?n xs) [])"
      using strdup_all_blocks [OF T, of ?n "map Str (take ?n xs)"] n by simp
    with B W show ?thesis
      using False assms(3) bs holds_vec [of "take ?n xs @ ys @ drop ?n xs" "[]"]
      by (simp add: opal_argv_insert_def realloc_def Let_def)
  qed
qed

lemma insert_element_correct:
  assumes "holds (Some b) xs" and "0 \<le> loc"
  shows "\<exists>a'. opal_argv_insert_element always (Some b) loc (Some s) = Some (SUCCESS, a') \<and>
    holds a' (take (nat loc) xs @ s # drop (nat loc) xs)"
proof -
  from assms(1) obtain r1 where b: "b = vec xs r1" by (auto elim!: holdsE)
  show ?thesis
  proof (cases "loc > int (length xs)")
    case True
    with assms b show ?thesis
      using append_ample [OF assms(1), of "length xs" s]
      by (auto simp: opal_argv_insert_element_def)
  next
    case False
    let ?n = "nat loc"
    from False have n: "?n \<le> length xs" by simp
    from make_room [OF n, of 1 r1] obtain T B where T: "length T = 1"
      and B: "move_up (resized b (length xs + 2)) ?n 1 (length xs - ?n) = Some B"
      and W: "wr B (?n + (length xs - ?n) + 1) Null =
        Some (map Str (take ?n xs) @ T @ map Str (drop ?n xs) @ [Null])"
      using b by (auto simp: bind_eq_Some_conv)
    from T obtain t where "T = [t]" by (cases T) auto
    then have "wr (map Str (take ?n xs) @ T @ map Str (drop ?n xs) @ [Null]) ?n (Str s) =
        Some (vec (take ?n xs @ s # drop ?n xs) [])"
      using n by (simp add: wr_len)
    with B W show ?thesis
      using False assms(2) b holds_vec [of "take ?n xs @ s # drop ?n xs" "[]"]
      by (simp add: opal_argv_insert_element_def realloc_def strdup_def Let_def)
  qed
qed

section \<open>Splitting\<close>

text \<open>
  The fields of a string, by recursion on its characters: a delimiter ends a field, and one at the very
  end of the string opens no further field.
\<close>

fun fields :: "char \<Rightarrow> string \<Rightarrow> string list" where
  "fields d [] = []"
| "fields d (c # s) =
     (if c = d then [] # fields d s
      else case fields d s of [] \<Rightarrow> [[c]] | f # fs \<Rightarrow> (c # f) # fs)"

lemma fields_unfold:
  "s \<noteq> [] \<Longrightarrow> fields d s =
     takeWhile (\<lambda>c. c \<noteq> d) s # fields d (tl (dropWhile (\<lambda>c. c \<noteq> d) s))"
proof (induction s)
  case (Cons c s)
  then show ?case by (cases "s = []") auto
qed simp

lemma split_loop_correct:
  assumes "holds a xs"
  shows "\<exists>a'. split_loop always d e s n a = Some a' \<and>
    holds a' (xs @ (if e then fields d s else filter (\<lambda>f. f \<noteq> []) (fields d s)))"
  using assms
proof (induction always d e s n a arbitrary: xs rule: split_loop.induct)
  case (1 d e s n a)
  let ?arg = "takeWhile (\<lambda>c. c \<noteq> d) s" and ?p = "dropWhile (\<lambda>c. c \<noteq> d) s"
  show ?case
  proof (cases "s = []")
    case True
    with 1(3) show ?thesis by (simp add: split_loop.simps)
  next
    case False
    note fields = fields_unfold [OF False, of d]
    show ?thesis
    proof (cases "?arg = [] \<and> \<not> e")
      case True
      with False have "split_loop always d e s n a = split_loop always d e (tl ?p) n a"
        by (subst split_loop.simps) (simp add: Let_def)
      with 1(1) [OF False refl refl True 1(3)] show ?thesis
        using True fields by simp
    next
      case skip: False
      obtain a' where a': "opal_argv_append always n a ?arg = Some (SUCCESS, length xs + 1, a')"
          "holds a' (xs @ [?arg])"
        using append_ample [OF 1(3)] by blast
      with False skip have
        "split_loop always d e s n a = split_loop always d e (tl ?p) (length xs + 1) a'"
        by (subst split_loop.simps) (auto simp: Let_def always_def)
      moreover have "\<exists>a''. split_loop always d e (tl ?p) (length xs + 1) a' = Some a'' \<and>
          holds a'' ((xs @ [?arg]) @
            (if e then fields d (tl ?p) else filter (\<lambda>f. f \<noteq> []) (fields d (tl ?p))))"
        by (rule 1(2) [OF False refl refl skip _ a'(1) refl refl _ a'(2)]) (simp_all add: always_def)
      ultimately show ?thesis
        using fields skip by (auto simp del: opal_argv_append_nosize.simps)
    qed
  qed
qed

lemma split_correct:
  "\<exists>a. opal_argv_split always s d = Some a \<and> holds a (filter (\<lambda>f. f \<noteq> []) (fields d s))"
  using split_loop_correct [of None "[]" d False s 0]
  by (simp add: opal_argv_split_def opal_argv_split_inter_def)

lemma split_with_empty_correct:
  "\<exists>a. opal_argv_split_with_empty always s d = Some a \<and> holds a (fields d s)"
  using split_loop_correct [of None "[]" d True s 0]
  by (simp add: opal_argv_split_with_empty_def opal_argv_split_inter_def)

section \<open>Joining\<close>

fun join_with :: "char \<Rightarrow> string list \<Rightarrow> string" where
  "join_with d [] = []"
| "join_with d [x] = x"
| "join_with d (x # xs) = x @ d # join_with d xs"

lemma join_with_Cons: "xs \<noteq> [] \<Longrightarrow> join_with d (x # xs) = x @ d # join_with d xs"
  by (cases xs) auto

lemma join_fill_prefix:
  "join_fill d (length x + n) (Str x) p = map_option ((@) x) (join_fill d n (Str []) p)"
  by (induction x) (simp_all add: option.map_comp comp_def option.map_ident)

lemma join_fill_vec:
  "join_fill d (length (join_with d (x # xs))) (Str x) (map Str xs @ R) = Some (join_with d (x # xs))"
proof (induction xs arbitrary: x)
  case Nil
  show ?case using join_fill_prefix [of d x 0] by simp
next
  case (Cons y xs)
  show ?case
    using join_fill_prefix [of d x "Suc (length (join_with d (y # xs)))" "map Str (y # xs) @ R"] Cons
    by (simp add: join_with_Cons)
qed

lemma join_len_vec:
  "join_len (vec xs R) = Some (if xs = [] then 0 else length (join_with d xs) + 1)"
  by (induction xs rule: join_with.induct) auto

lemma join_correct:
  assumes "holds a xs"
  shows "opal_argv_join always a d = Some (Some (join_with d xs))"
proof (cases a)
  case None
  with assms show ?thesis by (simp add: opal_argv_join_def)
next
  case (Some b)
  with assms obtain R where b: "b = vec xs R" by (auto elim: holdsE)
  show ?thesis
  proof (cases xs)
    case Nil
    with Some b show ?thesis by (simp add: opal_argv_join_def rd_def)
  next
    case (Cons x ys)
    with b have "rd b 0 = Some (Str x)" and "tl b = map Str ys @ Null # R"
      by (simp_all add: rd_def)
    moreover have "join_len b = Some (length (join_with d xs) + 1)"
      using join_len_vec [of xs R d] b Cons by simp
    ultimately show ?thesis
      using Some Cons join_fill_vec [of d x ys "Null # R"]
      by (simp add: opal_argv_join_def)
  qed
qed

lemma join_range_len_vec:
  "join_range_len (vec xs R) i fin =
     Some (let ys = take (fin - i) xs in if ys = [] then 0 else length (join_with d ys) + 1)"
proof (induction xs arbitrary: i)
  case (Cons x xs)
  show ?case
  proof (cases "i < fin")
    case True
    then have t: "take (fin - i) (x # xs) = x # take (fin - Suc i) xs"
      by (simp add: take_Cons')
    show ?thesis
      using True Cons [of "Suc i"] unfolding t Let_def
      by (cases "take (fin - Suc i) xs = []") (auto simp: join_with_Cons simp del: take_eq_Nil)
  qed (simp add: Let_def)
qed simp

lemma int_of_size_small [simp]: "n < 2 ^ 31 \<Longrightarrow> int_of_size n = int n"
  by (simp add: int_of_size_def)

lemma drop_vec: "n \<le> length xs \<Longrightarrow> drop n (vec xs R) = vec (drop n xs) R"
  by (simp add: drop_map)

text \<open>
  Joining a range that holds at least one string is safe and right; an empty range of a vector that is not
  empty writes out of bounds.
\<close>

lemma join_range_cases:
  assumes "holds (Some b) xs" and "xs \<noteq> []" and "start \<le> length xs" and "start < 2 ^ 31"
  shows "opal_argv_join_range always (Some b) start fin d =
    (let ys = take (fin - start) (drop start xs)
     in if ys = [] then None else Some (Some (join_with d ys)))"
proof -
  from assms(1) obtain R where b: "b = vec xs R" by (auto elim: holdsE)
  from assms(2) have r0: "rd b 0 = Some (Str (hd xs))"
    using b by (cases xs) (simp_all add: rd_def)
  let ?ys = "take (fin - start) (drop start xs)"
  have len: "join_range_len (drop start b) start fin =
      Some (if ?ys = [] then 0 else length (join_with d ?ys) + 1)"
    unfolding b drop_vec [OF assms(3)] join_range_len_vec [of _ _ _ _ d] by (simp add: Let_def)
  show ?thesis
  proof (cases "?ys = []")
    case True
    with r0 len assms b show ?thesis
      by (simp add: opal_argv_join_range_def Let_def always_def)
  next
    case False
    then obtain y zs where ys: "drop start xs = y # zs" "0 < fin - start"
      by (cases "drop start xs") auto
    then have st: "start < length xs" by (metis drop_eq_Nil2 list.distinct(1) not_le)
    obtain k where k: "fin - start = Suc k" using ys(2) by (cases "fin - start") auto
    have d1: "drop (start + 1) xs = zs" using ys(1)
      by (metis Suc_eq_plus1 drop_Suc list.sel(3) tl_drop)
    have "xs ! start = y" using st ys(1) by (metis hd_drop_conv_nth list.sel(1))
    then have "rd b start = Some (Str y)"
      using st b by (simp add: rd_def nth_append)
    moreover have "drop (start + 1) b = map Str (take k zs) @ map Str (drop k zs) @ Null # R"
      using st d1 b drop_vec [of "start + 1" xs R]
      by (metis Suc_eq_plus1 Suc_leI append.assoc append_take_drop_id map_append)
    ultimately show ?thesis
      using r0 len False assms b ys k
        join_fill_vec [of d y "take k zs" "map Str (drop k zs) @ Null # R"]
      by (simp add: opal_argv_join_range_def Let_def always_def)
  qed
qed

section \<open>Copy and size\<close>

lemma copy_loop_correct:
  assumes "holds a ys"
  shows "\<exists>a'. copy_loop always (vec xs R) n a = Some a' \<and> holds a' (ys @ xs)"
  using assms
proof (induction xs arbitrary: a ys n)
  case (Cons x xs)
  obtain a' where "opal_argv_append always n a x = Some (SUCCESS, length ys + 1, a')" "holds a' (ys @ [x])"
    using append_ample [OF Cons.prems] by blast
  with Cons.IH [of a' "ys @ [x]" "length ys + 1"] show ?case by simp
qed simp

lemma copy_correct:
  assumes "holds a xs"
  shows "\<exists>a'. opal_argv_copy always a = Some a' \<and> holds a' xs"
  using assms copy_loop_correct [of "Some [Null]" "[]" xs _ 0] holds_vec [of "[]" "[]"]
  by (cases a) (auto elim!: holdsE)

lemma len_correct:
  assumes "holds (Some b) xs"
  shows "opal_argv_len (Some b) = Some (8 * (length xs + 1) + sum_list (map (\<lambda>x. length x + 1) xs))"
proof -
  have "len_cells (vec xs R) = Some (8 * length xs + sum_list (map (\<lambda>x. length x + 1) xs))" for R
    by (induction xs) auto
  then show ?thesis using assms by (auto elim: holdsE)
qed

section \<open>Round trips\<close>

lemma fields_append_delim:
  assumes "d \<notin> set f"
  shows "fields d (f @ d # s) = f # fields d s"
  using assms by (induction f) auto

lemma fields_single:
  assumes "d \<notin> set f" and "f \<noteq> []"
  shows "fields d f = [f]"
proof -
  have "takeWhile (\<lambda>c. c \<noteq> d) f = f" "dropWhile (\<lambda>c. c \<noteq> d) f = []"
    using assms(1) by (auto simp: takeWhile_eq_all_conv dropWhile_eq_Nil_conv)
  then show ?thesis by (subst fields_unfold [OF assms(2)]) (simp only: list.sel fields.simps)
qed

lemma fields_join_with:
  assumes "\<forall>x\<in>set xs. x \<noteq> [] \<and> d \<notin> set x"
  shows "fields d (join_with d xs) = xs"
  using assms by (induction xs rule: join_with.induct) (auto simp: fields_append_delim fields_single)

lemma fields_empty_iff [simp]: "fields d s = [] \<longleftrightarrow> s = []"
  by (cases s) (auto split: list.splits)

lemma join_with_fields:
  "join_with d (fields d s) = (if s \<noteq> [] \<and> last s = d then butlast s else s)"
proof (induction s)
  case (Cons c s)
  show ?case
  proof (cases "fields d s")
    case Nil
    then show ?thesis by simp
  next
    case (Cons f fs)
    then have "s \<noteq> []" by auto
    with Cons Cons.IH show ?thesis
      by (cases fs) auto
  qed
qed simp

text \<open>C26: Splitting a joined vector gives the vector back.  When no string is empty or holds the
  delimiter, \<^verbatim>\<open>opal_argv_split\<close> of what \<^verbatim>\<open>opal_argv_join\<close> returns is a vector of exactly the
  same strings, and neither call touches memory out of bounds.\<close>

theorem split_join_roundtrip:
  assumes "holds a xs" and "\<forall>x\<in>set xs. x \<noteq> [] \<and> d \<notin> set x"
  shows "\<exists>s a'. opal_argv_join always a d = Some (Some s) \<and>
    opal_argv_split always s d = Some a' \<and> holds a' xs"
proof -
  have "filter (\<lambda>f. f \<noteq> []) (fields d (join_with d xs)) = xs"
    using assms(2) by (simp add: fields_join_with)
  then show ?thesis
    using split_correct [of "join_with d xs" d] join_correct [OF assms(1), of d] by simp
qed

theorem split_join_roundtrip_witness:
  "\<exists>s a'. opal_argv_join always (Some [Str ''n1'', Str ''n22'', Null, Undef]) CHR '','' = Some (Some s) \<and>
    opal_argv_split always s CHR '','' = Some a' \<and> holds a' [''n1'', ''n22'']"
proof (rule split_join_roundtrip)
  show "holds (Some [Str ''n1'', Str ''n22'', Null, Undef]) [''n1'', ''n22'']"
    using holds_vec [of "[''n1'', ''n22'']" "[Undef]"] by simp
qed simp

text \<open>C27: Joining what \<^verbatim>\<open>opal_argv_split_with_empty\<close> returns gives the string back, less one
  delimiter at its very end if there is one.\<close>

theorem join_split_with_empty:
  "\<exists>a. opal_argv_split_with_empty always s d = Some a \<and>
    opal_argv_join always a d = Some (Some (if s \<noteq> [] \<and> last s = d then butlast s else s))"
proof -
  obtain a where "opal_argv_split_with_empty always s d = Some a" and "holds a (fields d s)"
    using split_with_empty_correct [of s d] by blast
  then show ?thesis
    using join_correct [of a "fields d s" d] by (simp add: join_with_fields)
qed

section \<open>Editing a vector\<close>

text \<open>C25: The editing operations are the list operations.  On a NULL-terminated vector, prepending,
  inserting a vector or an element at any index, deleting any run of elements and copying stay inside the
  allocated blocks, leave the vector NULL-terminated, and give exactly the list expected: inserting behind
  the end appends, deleting past the end deletes up to the end.\<close>

theorem argv_editing:
  assumes "holds (Some b) xs" and "holds (Some s) ys" and "0 \<le> i" and "0 < k" and "i + k < 2 ^ 31"
  shows "\<exists>a1 a2 a3 a4 argc' a5.
    opal_argv_prepend_nosize always (Some b) x = Some (SUCCESS, a1) \<and> holds a1 (x # xs) \<and>
    opal_argv_insert always (Some b) i (Some s) = Some (SUCCESS, a2) \<and>
      holds a2 (take (nat i) xs @ ys @ drop (nat i) xs) \<and>
    opal_argv_insert_element always (Some b) i (Some x) = Some (SUCCESS, a3) \<and>
      holds a3 (take (nat i) xs @ x # drop (nat i) xs) \<and>
    opal_argv_delete mem argc (Some b) i k = Some (SUCCESS, argc', a4) \<and>
      holds a4 (take (nat i) xs @ drop (nat (i + k)) xs) \<and>
    opal_argv_copy always (Some b) = Some a5 \<and> holds a5 xs"
proof -
  obtain a1 where "opal_argv_prepend_nosize always (Some b) x = Some (SUCCESS, a1)" "holds a1 (x # xs)"
    using prepend_correct [OF assms(1)] by blast
  moreover obtain a2 where "opal_argv_insert always (Some b) i (Some s) = Some (SUCCESS, a2)"
      "holds a2 (take (nat i) xs @ ys @ drop (nat i) xs)"
    using insert_correct [OF assms(1-3)] by blast
  moreover obtain a3 where "opal_argv_insert_element always (Some b) i (Some x) = Some (SUCCESS, a3)"
      "holds a3 (take (nat i) xs @ x # drop (nat i) xs)"
    using insert_element_correct [OF assms(1,3)] by blast
  moreover obtain a4 argc' where "opal_argv_delete mem argc (Some b) i k = Some (SUCCESS, argc', a4)"
      "holds a4 (take (nat i) xs @ drop (nat (i + k)) xs)"
  proof (cases "i \<le> int (length xs)")
    case True
    show ?thesis
      using delete_correct [OF assms(1,3) True assms(4,5), of mem argc] that by blast
  next
    case False
    with assms have "opal_argv_delete mem argc (Some b) i k = Some (SUCCESS, argc, Some b)"
      by (auto elim!: holdsE simp: opal_argv_delete_def)
    moreover have "take (nat i) xs @ drop (nat (i + k)) xs = xs" using False assms(4) by simp
    ultimately show ?thesis using that assms(1) by simp
  qed
  moreover obtain a5 where "opal_argv_copy always (Some b) = Some a5" "holds a5 xs"
    using copy_correct [OF assms(1)] by blast
  ultimately show ?thesis by blast
qed

theorem argv_editing_witness:
  "\<exists>a1 a2 a3 a4 argc' a5.
    opal_argv_prepend_nosize always (Some [Str ''a'', Str ''b'', Null]) ''x'' = Some (SUCCESS, a1) \<and>
      holds a1 (''x'' # [''a'', ''b'']) \<and>
    opal_argv_insert always (Some [Str ''a'', Str ''b'', Null]) 1 (Some [Str ''c'', Null]) = Some (SUCCESS, a2) \<and>
      holds a2 (take (nat 1) [''a'', ''b''] @ [''c''] @ drop (nat 1) [''a'', ''b'']) \<and>
    opal_argv_insert_element always (Some [Str ''a'', Str ''b'', Null]) 1 (Some ''x'') = Some (SUCCESS, a3) \<and>
      holds a3 (take (nat 1) [''a'', ''b''] @ ''x'' # drop (nat 1) [''a'', ''b'']) \<and>
    opal_argv_delete always 2 (Some [Str ''a'', Str ''b'', Null]) 1 1 = Some (SUCCESS, argc', a4) \<and>
      holds a4 (take (nat 1) [''a'', ''b''] @ drop (nat (1 + 1)) [''a'', ''b'']) \<and>
    opal_argv_copy always (Some [Str ''a'', Str ''b'', Null]) = Some a5 \<and> holds a5 [''a'', ''b'']"
proof (rule argv_editing)
  show "holds (Some [Str ''a'', Str ''b'', Null]) [''a'', ''b'']"
    using holds_vec [of "[''a'', ''b'']" "[]"] by simp
  show "holds (Some [Str ''c'', Null]) [''c'']"
    using holds_vec [of "[''c'']" "[]"] by simp
qed simp_all

text \<open>Joining an empty range is memory-unsafe.  \<^verbatim>\<open>opal_argv_join_range\<close> tests
  \<^verbatim>\<open>start > count\<close>, so a start at the end of the vector (and any end that is not behind the start)
  passes; the computed length is then 0 and the terminator is written before the allocated
  string.  Every range that holds a string is joined correctly.\<close>

theorem join_range_boundary:
  assumes "holds (Some b) xs" and "xs \<noteq> []" and "start \<le> length xs" and "start < 2 ^ 31"
  shows "opal_argv_join_range always (Some b) start fin d =
    (if start < length xs \<and> start < fin
     then Some (Some (join_with d (take (fin - start) (drop start xs)))) else None)"
  using join_range_cases [OF assms, of fin d] assms(3) by (auto simp: Let_def)

theorem join_range_boundary_witness:
  "opal_argv_join_range always (Some [Str ''a'', Str ''b'', Null]) 2 5 CHR '','' = None \<and>
   opal_argv_join_range always (Some [Str ''a'', Str ''b'', Null]) 0 5 CHR '','' = Some (Some ''a,b'')"
proof -
  have "holds (Some [Str ''a'', Str ''b'', Null]) [''a'', ''b'']"
    using holds_vec [of "[''a'', ''b'']" "[]"] by simp
  from join_range_boundary [OF this, of 2 5] join_range_boundary [OF this, of 0 5]
  show ?thesis by simp
qed

end
