(* ===== verification/Orte_Regex.thy ===== *)
theory Orte_Regex
  imports C_Strings Opal_Argv "HOL-Library.Multiset"
begin

text \<open>
  Node-list expressions, \<^verbatim>\<open>orte/util/regex.c\<close>: compressing a comma-separated node list
  (\<^verbatim>\<open>orte_regex_create\<close>), expanding an expression such as \<^verbatim>\<open>node[2:1-4,7]\<close>
  (\<^verbatim>\<open>orte_regex_extract_node_names\<close>), processes per node
  (\<^verbatim>\<open>orte_regex_extract_ppn\<close>) and character ranges
  (\<^verbatim>\<open>orte_regex_extract_name_range\<close>).

  The C code cuts its strings by writing NULs into them; the model takes the pieces.  Names are collected in
  the vectors of \<open>Opal_Argv\<close>, and as there an outer \<open>None\<close> is undefined behaviour.
  \<^verbatim>\<open>errno\<close> is an argument: the code tests it after \<^verbatim>\<open>strtol\<close> without having cleared it,
  so \<open>erange\<close> says whether it holds \<^verbatim>\<open>ERANGE\<close> already.
\<close>

section \<open>Compressing a node list\<close>

record orte_regex_range =
  range_start :: int
  range_cnt :: int

record orte_regex_node =
  nd_prefix :: "string option"
  nd_suffix :: "string option"
  nd_num_digits :: int
  nd_ranges :: "orte_regex_range list"

definition ORTE_MAX_NODE_PREFIX :: nat where "ORTE_MAX_NODE_PREFIX = 50"

definition orte_regex_node_construct :: orte_regex_node where
  "orte_regex_node_construct = \<lparr>nd_prefix = None, nd_suffix = None, nd_num_digits = 0, nd_ranges = []\<rparr>"

text \<open>
  The scan of one name.  \<open>i\<close> is the index, \<open>startnum\<close> where the first digit is,
  \<open>pre\<close> what has been written to \<^verbatim>\<open>prefix\<close>, \<open>numdigits\<close> the digits seen so
  far.  The result says first whether the full name has to be used.  A prefix that
  does not fit the 50 characters of the array is written out of bounds.
\<close>

fun scan_name ::
  "string \<Rightarrow> nat \<Rightarrow> nat option \<Rightarrow> string \<Rightarrow> int \<Rightarrow> (bool \<times> nat option \<times> string \<times> int) option" where
  "scan_name [] i startnum pre numdigits = Some (False, startnum, pre, numdigits)"
| "scan_name (c # cs) i startnum pre numdigits =
     (if \<not> isalpha c then
        if \<not> isdigit c then Some (True, startnum, pre, numdigits)
        else scan_name cs (i + 1) (case startnum of None \<Rightarrow> Some i | Some s \<Rightarrow> Some s) pre (numdigits + 1)
      else case startnum of
          None \<Rightarrow> if length pre < ORTE_MAX_NODE_PREFIX
                 then scan_name cs (i + 1) startnum (pre @ [c]) numdigits else None
        | Some s \<Rightarrow> scan_name cs (i + 1) startnum pre numdigits)"

text \<open>The six tests that a list element is for the same prefix, suffix and width.\<close>

definition same_nodeid :: "string \<Rightarrow> string \<Rightarrow> int \<Rightarrow> orte_regex_node \<Rightarrow> bool" where
  "same_nodeid pre sfx numdigits nd \<longleftrightarrow>
     \<not> (pre \<noteq> [] \<and> nd_prefix nd = None) \<and>
     \<not> (pre = [] \<and> nd_prefix nd \<noteq> None) \<and>
     \<not> (pre \<noteq> [] \<and> nd_prefix nd \<noteq> None \<and> nd_prefix nd \<noteq> Some pre) \<and>
     nd_suffix nd \<noteq> None \<and> nd_suffix nd = Some sfx \<and>
     numdigits = nd_num_digits nd"

text \<open>
  Adding a number to a list element: extend the last range or open a new one.  The last element of an
  empty list is the list's sentinel, never NULL, so its fields are not a range.
\<close>

definition add_number :: "int \<Rightarrow> orte_regex_range list \<Rightarrow> orte_regex_range list option" where
  "add_number nodenum rs =
     (if rs = [] then None
      else do { next \<leftarrow> add_int (range_start (last rs)) (range_cnt (last rs));
                if nodenum \<noteq> next then Some (rs @ [\<lparr>range_start = nodenum, range_cnt = 1\<rparr>])
                else do { c \<leftarrow> add_int (range_cnt (last rs)) 1;
                          Some (butlast rs @ [last rs\<lparr>range_cnt := c\<rparr>]) } })"

fun add_nodeid ::
  "string \<Rightarrow> string \<Rightarrow> int \<Rightarrow> int \<Rightarrow> orte_regex_node list \<Rightarrow> orte_regex_node list option" where
  "add_nodeid pre sfx numdigits nodenum [] =
     Some [orte_regex_node_construct
       \<lparr>nd_prefix := (if pre \<noteq> [] then Some pre else None), nd_suffix := Some sfx,
        nd_num_digits := numdigits, nd_ranges := [\<lparr>range_start = nodenum, range_cnt = 1\<rparr>]\<rparr>]"
| "add_nodeid pre sfx numdigits nodenum (nd # nds) =
     (if same_nodeid pre sfx numdigits nd
      then do { rs \<leftarrow> add_number nodenum (nd_ranges nd); Some (nd\<lparr>nd_ranges := rs\<rparr> # nds) }
      else do { nds \<leftarrow> add_nodeid pre sfx numdigits nodenum nds; Some (nd # nds) })"

text \<open>One round of the loop over the names: the body for \<open>node\<close>.\<close>

definition add_node :: "string \<Rightarrow> orte_regex_node list \<Rightarrow> orte_regex_node list option" where
  "add_node node nodeids =
     do { (fullname, startnum, pre, numdigits) \<leftarrow> scan_name node 0 None [] 0;
          if fullname \<or> startnum = None
          then Some (nodeids @ [orte_regex_node_construct\<lparr>nd_prefix := Some node\<rparr>])
          else if length pre = ORTE_MAX_NODE_PREFIX then None
          else case strtol (drop (the startnum) node) of
                 (v, sfx, _) \<Rightarrow> add_nodeid pre sfx numdigits (to_int v) nodeids }"

text \<open>
  The loop: up to the next comma, or the rest of the string if it is not empty.
\<close>

function add_nodes :: "string \<Rightarrow> orte_regex_node list \<Rightarrow> orte_regex_node list option" where
  "add_nodes node nodeids =
     (if node = [] then Some nodeids
      else
        let name = takeWhile (\<lambda>c. c \<noteq> CHR '','') node;
            cptr = dropWhile (\<lambda>c. c \<noteq> CHR '','') node
        in do { nodeids \<leftarrow> add_node name nodeids;
                if cptr = [] then Some nodeids else add_nodes (tl cptr) nodeids })"
  by pat_completeness auto
termination
proof (relation "measure (\<lambda>(node, _). length node)", goal_cases)
  case 1
  then show ?case by simp
next
  case (2 node nodeids name cptr nodeids')
  have "length (dropWhile (\<lambda>c. c \<noteq> CHR '','') node) \<le> length node"
    by (rule length_dropWhile_le)
  with 2 show ?case by (cases node) (auto simp: le_less_trans diff_less)
qed

declare add_nodes.simps [simp del]

text \<open>Printing one list element, and the assembly of the expression.\<close>

definition print_range :: "orte_regex_range \<Rightarrow> string option" where
  "print_range r =
     (if range_cnt r = 1 then Some (decimal_int (range_start r) @ '','')
      else do { e \<leftarrow> add_int (range_start r) (range_cnt r);
                Some (decimal_int (range_start r) @ ''-'' @ decimal_int (e - 1) @ '','') })"

fun print_ranges :: "string \<Rightarrow> orte_regex_range list \<Rightarrow> string option" where
  "print_ranges tmp [] = Some tmp"
| "print_ranges tmp (r # rs) = do { t \<leftarrow> print_range r; print_ranges (tmp @ t) rs }"

definition print_node :: "orte_regex_node \<Rightarrow> string option option" where
  "print_node nd =
     (if nd_ranges nd = [] then Some (nd_prefix nd)
      else do { tmp \<leftarrow> print_ranges
                  ((case nd_prefix nd of Some p \<Rightarrow> p | None \<Rightarrow> []) @ ''['' @ decimal_int (nd_num_digits nd) @ '':'')
                  (nd_ranges nd);
                let tmp = butlast tmp @ '']'';
                Some (Some (case nd_suffix nd of Some s \<Rightarrow> tmp @ s | None \<Rightarrow> tmp)) })"

fun print_nodes :: "allocator \<Rightarrow> orte_regex_node list \<Rightarrow> argv \<Rightarrow> argv option" where
  "print_nodes mem [] regexargs = Some regexargs"
| "print_nodes mem (nd # nds) regexargs =
     do { t \<leftarrow> print_node nd;
          case t of
            None \<Rightarrow> print_nodes mem nds regexargs
          | Some tmp \<Rightarrow>
              do { (rc, regexargs) \<leftarrow> opal_argv_append_nosize mem regexargs tmp;
                   print_nodes mem nds regexargs } }"

text \<open>\<^verbatim>\<open>orte_regex_create\<close>: the status and the expression.\<close>

definition orte_regex_create :: "allocator \<Rightarrow> string \<Rightarrow> (status \<times> string option) option" where
  "orte_regex_create mem nodelist =
     (if CHR '','' \<notin> set nodelist
      then Some (SUCCESS, if mem (length nodelist + 1) then Some nodelist else None)
      else do { nodeids \<leftarrow> add_nodes nodelist [];
                regexargs \<leftarrow> print_nodes mem nodeids None;
                r \<leftarrow> opal_argv_join mem regexargs CHR '','';
                Some (SUCCESS, r) })"

section \<open>Expanding an expression\<close>

text \<open>
  \<^verbatim>\<open>(int) (log10((double) n))\<close>: the exponent of the leading digit.  The logarithm of 0 is
  minus infinity, which a conversion to \<^verbatim>\<open>int\<close> turns into the smallest \<^verbatim>\<open>int\<close> on x86-64.
\<close>

definition int_log10 :: "nat \<Rightarrow> int" where
  "int_log10 n = (if n = 0 then - (2 ^ 31) else int (length (decimal n)) - 1)"

text \<open>
  The digits of a number are written from the right into the zeros of the name, the last one at
  \<open>pos - 1\<close>; \<open>ds\<close> are the digits in reverse.
\<close>

fun put_digits :: "string \<Rightarrow> nat \<Rightarrow> string \<Rightarrow> string option" where
  "put_digits str pos [] = Some str"
| "put_digits str pos (d # ds) =
     (if pos = 0 then None else put_digits (str[pos - 1 := d]) (pos - 1) ds)"

text \<open>The loop over the numbers of a range, \<open>n\<close> of them from \<open>i\<close> on.\<close>

fun make_names ::
  "allocator \<Rightarrow> string \<Rightarrow> nat \<Rightarrow> string option \<Rightarrow> nat \<Rightarrow> nat \<Rightarrow> argv \<Rightarrow> (status \<times> argv) option" where
  "make_names mem base num_digits suffix i 0 names = Some (SUCCESS, names)"
| "make_names mem base num_digits suffix i (Suc n) names =
     do { str \<leftarrow> put_digits (base @ replicate num_digits CHR ''0'') (length base + num_digits)
                   (rev (decimal i));
          (rc, names) \<leftarrow> opal_argv_append_nosize mem names
            (case suffix of None \<Rightarrow> str | Some s \<Rightarrow> str @ s);
          if rc \<noteq> SUCCESS then Some (rc, names)
          else make_names mem base num_digits suffix (i + 1) n names }"

text \<open>
  \<^verbatim>\<open>regex_parse_node_range\<close>.  A negative width passes the check of the digits only for an end
  of 0, and is then converted to a huge \<^verbatim>\<open>size_t\<close> by the padding loop.
\<close>

definition regex_parse_node_range ::
  "allocator \<Rightarrow> bool \<Rightarrow> string \<Rightarrow> string \<Rightarrow> int \<Rightarrow> string option \<Rightarrow> argv \<Rightarrow> (status \<times> argv) option" where
  "regex_parse_node_range mem erange base rng num_digits suffix names =
     (let r1 = dropWhile (\<lambda>c. \<not> isdigit c) rng in
      if r1 = [] then Some (ERR_NOT_FOUND, names)
      else case strtol r1 of (first, _, e1) \<Rightarrow>
      if erange \<or> e1 then Some (ERR_BAD_PARAM, names)
      else
        let r2 = dropWhile isdigit r1;
            r3 = dropWhile (\<lambda>c. \<not> isdigit c) r2
        in if r2 \<noteq> [] \<and> r3 = [] then Some (ERR_NOT_FOUND, names)
           else case (if r2 = [] then (first, [], False) else strtol r3) of (fin, _, e2) \<Rightarrow>
           if e2 then Some (ERR_BAD_PARAM, names)
           else if first > fin then Some (ERR_BAD_PARAM, names)
           else if int_log10 (nat fin) + 1 > num_digits then Some (ERR_BAD_PARAM, names)
           else if num_digits < 0 then None
           else if \<not> mem (length base + nat num_digits + 32
                      + (case suffix of None \<Rightarrow> 0 | Some s \<Rightarrow> length s))
           then Some (ERR_OUT_OF_RESOURCE, names)
           else make_names mem base (nat num_digits) suffix (nat first) (nat fin + 1 - nat first) names)"

text \<open>\<^verbatim>\<open>regex_parse_node_ranges\<close>: the ranges between the commas; an empty last one is skipped.\<close>

function regex_parse_node_ranges ::
  "allocator \<Rightarrow> bool \<Rightarrow> string \<Rightarrow> string \<Rightarrow> int \<Rightarrow> string option \<Rightarrow> argv \<Rightarrow> (status \<times> argv) option" where
  "regex_parse_node_ranges mem erange base ranges num_digits suffix names =
     (let rng = takeWhile (\<lambda>c. c \<noteq> CHR '','') ranges;
          rest = dropWhile (\<lambda>c. c \<noteq> CHR '','') ranges
      in if rest = [] \<and> rng = [] then Some (SUCCESS, names)
         else do { (rc, names) \<leftarrow> regex_parse_node_range mem erange base rng num_digits suffix names;
                   if rc \<noteq> SUCCESS then Some (rc, names)
                   else if rest = [] then Some (SUCCESS, names)
                   else regex_parse_node_ranges mem erange base (tl rest) num_digits suffix names })"
  by pat_completeness auto
termination
proof (relation "measure (\<lambda>(_, _, _, ranges, _). length ranges)", goal_cases)
  case 1
  then show ?case by simp
next
  case (2 mem erange base ranges num_digits suffix names rng rest)
  have "length (dropWhile (\<lambda>c. c \<noteq> CHR '','') ranges) \<le> length ranges"
    by (rule length_dropWhile_le)
  with 2 show ?case by (cases ranges) (auto simp: le_less_trans diff_less)
qed

declare regex_parse_node_ranges.simps [simp del]

text \<open>
  The part of \<^verbatim>\<open>orte_regex_extract_node_names\<close> behind a bracket: width, ranges and suffix.
  Behind a range the loop goes on with \<open>Some base\<close> or stops with \<open>None\<close>.
\<close>

definition extract_range ::
  "allocator \<Rightarrow> bool \<Rightarrow> string \<Rightarrow> string \<Rightarrow> argv \<Rightarrow> (status \<times> argv \<times> string option) option" where
  "extract_range mem erange base str names =
     (let width = takeWhile (\<lambda>c. c \<noteq> CHR '':'') str;
          body = dropWhile (\<lambda>c. c \<noteq> CHR '':'') str
      in if body = [] then Some (ERR_BAD_PARAM, names, None)
         else case strtol width of (w, _, e) \<Rightarrow>
         if erange \<or> e then Some (ERR_BAD_PARAM, names, None)
         else
           let ranges = takeWhile (\<lambda>c. c \<noteq> CHR '']'') (tl body);
               close = dropWhile (\<lambda>c. c \<noteq> CHR '']'') (tl body)
           in if close = [] then Some (ERR_BAD_PARAM, names, None)
              else
                let after = tl close;
                    has_suffix = (after \<noteq> [] \<and> hd after \<noteq> CHR '','');
                    suffix = (if has_suffix then Some (takeWhile (\<lambda>c. c \<noteq> CHR '','') after) else None);
                    rest = (if has_suffix then dropWhile (\<lambda>c. c \<noteq> CHR '','') after else after)
                in if after \<noteq> [] \<and> hd after = CHR ''['' then Some (ERR_BAD_PARAM, names, None)
                   else
                     do { (rc, names) \<leftarrow>
                            regex_parse_node_ranges mem erange base ranges (to_int w) suffix names;
                          if rc \<noteq> SUCCESS then Some (rc, names, None)
                          else if rest \<noteq> [] then Some (SUCCESS, names, Some (tl rest))
                          else Some (SUCCESS, names, None) })"

definition special_char :: "char \<Rightarrow> bool" where
  "special_char c \<longleftrightarrow> c = CHR ''['' \<or> c = CHR '','' \<or> c = CHR '']''"

text \<open>The cutting of the string leaves less of it for the next round.\<close>

lemma length_tl_dropWhile: "length (tl (dropWhile P xs)) \<le> length xs - 1"
  using length_dropWhile_le [of P xs] by simp

lemma extract_range_shorter:
  assumes "extract_range mem erange base str names = Some (rc, names', Some rest)"
  shows "length rest < length str"
proof -
  have le: "length (tl (dropWhile P xs)) \<le> length xs" for P and xs :: string
    using length_tl_dropWhile [of P xs] by simp
  let ?after = "tl (dropWhile (\<lambda>c. c \<noteq> CHR '']'') (tl (dropWhile (\<lambda>c. c \<noteq> CHR '':'') str)))"
  have "dropWhile (\<lambda>c. c \<noteq> CHR '':'') str \<noteq> []"
    using assms by (auto simp: extract_range_def Let_def simp del: dropWhile_eq_Nil_conv split: if_splits)
  then have "str \<noteq> []" by auto
  moreover have "length ?after \<le> length (tl (dropWhile (\<lambda>c. c \<noteq> CHR '':'') str))"
    by (rule le)
  moreover have "length (tl (dropWhile (\<lambda>c. c \<noteq> CHR '':'') str)) \<le> length str - 1"
    by (rule length_tl_dropWhile)
  moreover have "rest = tl (if ?after \<noteq> [] \<and> hd ?after \<noteq> CHR '',''
        then dropWhile (\<lambda>c. c \<noteq> CHR '','') ?after else ?after)"
    using assms
    by (auto simp: extract_range_def Let_def bind_eq_Some_conv split: if_splits prod.splits)
  then have "length rest \<le> length ?after"
    using le [of "\<lambda>c. c \<noteq> CHR '',''" ?after] by (auto split: if_splits)
  ultimately show ?thesis by (cases str) auto
qed

function extract_loop :: "allocator \<Rightarrow> bool \<Rightarrow> string \<Rightarrow> argv \<Rightarrow> (status \<times> argv) option" where
  "extract_loop mem erange base names =
     (let name = takeWhile (\<lambda>c. \<not> special_char c) base;
          rest = dropWhile (\<lambda>c. \<not> special_char c) base
      in if name = [] then Some (ERR_BAD_PARAM, names)
         else if rest \<noteq> [] \<and> hd rest = CHR '']'' then Some (ERR_BAD_PARAM, names)
         else if rest \<noteq> [] \<and> hd rest = CHR ''['' then
           case extract_range mem erange name (tl rest) names of
             None \<Rightarrow> None
           | Some (rc, names, None) \<Rightarrow> Some (rc, names)
           | Some (rc, names, Some base) \<Rightarrow> extract_loop mem erange base names
         else do { (rc, names) \<leftarrow> opal_argv_append_nosize mem names name;
                   if rc \<noteq> SUCCESS then Some (rc, names)
                   else if rest = [] then Some (SUCCESS, names)
                   else extract_loop mem erange (tl rest) names })"
  by pat_completeness auto
termination
proof (relation "measure (\<lambda>(_, _, base, _). length base)", goal_cases)
  case 1
  then show ?case by simp
next
  case (2 mem erange base names name rest)
  then show ?case
    using length_tl_dropWhile [of "\<lambda>c. \<not> special_char c" base] extract_range_shorter
    by (fastforce dest: extract_range_shorter)
next
  case (3 mem erange base names name rest)
  then show ?case
    using length_tl_dropWhile [of "\<lambda>c. \<not> special_char c" base] by (cases base) auto
qed

declare extract_loop.simps [simp del]

text \<open>\<^verbatim>\<open>orte_regex_extract_node_names\<close>; a NULL expression is \<open>None\<close>.\<close>

definition orte_regex_extract_node_names ::
  "allocator \<Rightarrow> bool \<Rightarrow> string option \<Rightarrow> argv \<Rightarrow> (status \<times> argv) option" where
  "orte_regex_extract_node_names mem erange regexp names =
     (case regexp of
        None \<Rightarrow> Some (SUCCESS, None)
      | Some base \<Rightarrow>
          if mem (length base + 1) then extract_loop mem erange base names
          else Some (ERR_OUT_OF_RESOURCE, names))"

section \<open>Processes per node\<close>

text \<open>\<^verbatim>\<open>for (i = 0; i < reps && j < num_nodes; i++) tmp[j++] = count\<close>\<close>

fun fill_ppn :: "int list \<Rightarrow> nat \<Rightarrow> int \<Rightarrow> nat \<Rightarrow> int list \<times> nat" where
  "fill_ppn tmp j cnt 0 = (tmp, j)"
| "fill_ppn tmp j cnt (Suc reps) =
     (if j < length tmp then fill_ppn (tmp[j := cnt]) (j + 1) cnt reps else (tmp, j))"

text \<open>One item: the count, the repetitions and the rest of the string.\<close>

definition ppn_item :: "string \<Rightarrow> int \<times> int \<times> string" where
  "ppn_item begptr =
     (case strtol begptr of (cnt, endptr, _) \<Rightarrow>
      if take 2 endptr = ''(x''
      then case strtol (drop 2 endptr) of (reps, endptr, _) \<Rightarrow>
             (to_int cnt, to_int reps,
              if endptr \<noteq> [] \<and> hd endptr = CHR '')'' then tl endptr else endptr)
      else (to_int cnt, 1, endptr))"

lemma strtol_rest_le: "length (fst (snd (strtol s))) \<le> length s"
proof -
  have "length (dropWhile isdigit (tl (dropWhile isspace s))) \<le> length s"
    using length_dropWhile_le [of isdigit "tl (dropWhile isspace s)"]
      length_dropWhile_le [of isspace s] by simp
  moreover have "length (dropWhile isdigit (dropWhile isspace s)) \<le> length s"
    using length_dropWhile_le le_trans by blast
  ultimately show ?thesis by (simp add: strtol_def Let_def)
qed

lemma ppn_item_le: "ppn_item s = (c, r, e) \<Longrightarrow> length e \<le> length s"
proof -
  assume item: "ppn_item s = (c, r, e)"
  obtain v t b where s: "strtol s = (v, t, b)" by (metis prod_cases3)
  obtain v' t' b' where t: "strtol (drop 2 t) = (v', t', b')" by (metis prod_cases3)
  have "length t \<le> length s" "length t' \<le> length (drop 2 t)"
    using strtol_rest_le [of s] strtol_rest_le [of "drop 2 t"] s t by auto
  with item show ?thesis
    by (auto simp: ppn_item_def s t split: if_splits)
qed

function ppn_loop :: "string \<Rightarrow> int list \<Rightarrow> nat \<Rightarrow> status \<times> int list option" where
  "ppn_loop begptr tmp j =
     (case ppn_item begptr of (cnt, reps, endptr) \<Rightarrow>
      case fill_ppn tmp j cnt (nat reps) of (tmp, j) \<Rightarrow>
      if endptr \<noteq> [] \<and> hd endptr = CHR '','' then ppn_loop (tl endptr) tmp j
      else if endptr = [] \<or> j \<ge> length tmp then (SUCCESS, Some tmp)
      else (ERR_BAD_PARAM, None))"
  by pat_completeness auto
termination
proof (relation "measure (\<lambda>(begptr, _, _). length begptr)", goal_cases)
  case 1
  then show ?case by simp
next
  case (2 begptr tmp j)
  then show ?case by (auto simp: neq_Nil_conv Suc_le_eq dest!: ppn_item_le [OF sym])
qed

declare ppn_loop.simps [simp del]

definition orte_regex_extract_ppn :: "allocator \<Rightarrow> nat \<Rightarrow> string \<Rightarrow> status \<times> int list option" where
  "orte_regex_extract_ppn mem num_nodes regexp =
     (if \<not> mem (4 * num_nodes) \<or> \<not> mem (length regexp + 1) then (ERR_OUT_OF_RESOURCE, None)
      else ppn_loop regexp (replicate num_nodes 0) 0)"

section \<open>Character ranges\<close>

definition schar :: "char \<Rightarrow> int" where
  "schar c = (let n = int (of_char c) in if n < 128 then n else n - 256)"

text \<open>
  \<^verbatim>\<open>for (c = rng[0]; c <= rng[2]; c++)\<close> over \<^verbatim>\<open>char\<close>: never ends when
  \<^verbatim>\<open>rng[2]\<close> is the largest \<^verbatim>\<open>char\<close>; \<^verbatim>\<open>rng[2]\<close> is out of bounds for a string
  of one character.
\<close>

definition char_range :: "string \<Rightarrow> string option" where
  "char_range rng =
     (if length rng < 2 then None
      else let lo = schar (rng ! 0);
               hi = (if length rng = 2 then 0 else schar (rng ! 2))
           in if hi = 127 then None
              else Some (map (\<lambda>z. char_of (nat (z mod 256))) [lo..hi]))"

fun append_names :: "allocator \<Rightarrow> string list \<Rightarrow> argv \<Rightarrow> argv option" where
  "append_names mem [] names = Some names"
| "append_names mem (t # ts) names =
     do { (rc, names) \<leftarrow> opal_argv_append_nosize mem names t; append_names mem ts names }"

text \<open>The loop over the items between the brackets; \<open>pre\<close> and \<open>post\<close> are empty when NULL.\<close>

fun name_range_loop :: "allocator \<Rightarrow> string \<Rightarrow> string \<Rightarrow> string list \<Rightarrow> argv \<Rightarrow> argv option" where
  "name_range_loop mem pre post [] names = Some names"
| "name_range_loop mem pre post (rng # rngs) names =
     (if CHR ''-'' \<notin> set rng
      then do { names \<leftarrow> append_names mem [pre @ rng @ post] names;
                name_range_loop mem pre post rngs names }
      else do { cs \<leftarrow> char_range rng;
                names \<leftarrow> append_names mem (map (\<lambda>c. pre @ c # post) cs) names;
                name_range_loop mem pre post rngs names })"

text \<open>
  \<^verbatim>\<open>orte_regex_extract_name_range\<close>.  When there is a prefix the opening bracket is
  overwritten with a NUL before \<^verbatim>\<open>strrchr\<close> looks for the closing one, which therefore sees the
  prefix only.  \<open>hay\<close> is the string \<^verbatim>\<open>strrchr\<close> sees, \<open>b\<close> what follows the
  opening bracket.  An empty list of items is a NULL vector, which is dereferenced.
\<close>

definition orte_regex_extract_name_range ::
  "allocator \<Rightarrow> string \<Rightarrow> argv \<Rightarrow> (status \<times> argv) option" where
  "orte_regex_extract_name_range mem regexp names =
     (if CHR ''['' \<notin> set regexp
      then do { (rc, names) \<leftarrow> opal_argv_append_nosize mem names regexp; Some (SUCCESS, names) }
      else
        let pre = takeWhile (\<lambda>c. c \<noteq> CHR ''['') regexp;
            b = tl (dropWhile (\<lambda>c. c \<noteq> CHR ''['') regexp);
            hay = (if pre = [] then regexp else pre);
            post = rev (takeWhile (\<lambda>c. c \<noteq> CHR '']'') (rev hay));
            front = rev (tl (dropWhile (\<lambda>c. c \<noteq> CHR '']'') (rev hay)))
        in if CHR '']'' \<notin> set hay then Some (ERR_BAD_PARAM, names)
           else if pre = []
           then do { rngs \<leftarrow> opal_argv_split mem (tl front) CHR '','';
                     v \<leftarrow> rngs;
                     names \<leftarrow> name_range_loop mem [] post (strings v) names;
                     Some (SUCCESS, names) }
           else do { rngs \<leftarrow> opal_argv_split mem b CHR '','';
                     v \<leftarrow> rngs;
                     names \<leftarrow> name_range_loop mem front post (strings v) names;
                     Some (SUCCESS, names) })"

section \<open>The scan of a name\<close>

lemma isalpha_not_digit: "isalpha c \<Longrightarrow> \<not> isdigit c" "isdigit c \<Longrightarrow> \<not> isalpha c"
  by (auto simp: isalpha_def isdigit_def)

lemma isalnum_not_special:
  "isalpha c \<Longrightarrow> \<not> special_char c" "isdigit c \<Longrightarrow> \<not> special_char c"
  "isalpha c \<Longrightarrow> c \<noteq> CHR '',''" "isdigit c \<Longrightarrow> c \<noteq> CHR '',''"
  by (auto simp: isalpha_def isdigit_def special_char_def)

lemma scan_alpha:
  assumes "\<forall>c\<in>set p. isalpha c" and "length pre + length p \<le> 50"
  shows "scan_name (p @ cs) i None pre nd = scan_name cs (i + length p) None (pre @ p) nd"
  using assms
  by (induction p arbitrary: i pre) (auto simp: ORTE_MAX_NODE_PREFIX_def)

lemma scan_digits:
  assumes "\<forall>c\<in>set ds. isdigit c"
  shows "scan_name (ds @ cs) i (Some st) pre nd =
    scan_name cs (i + length ds) (Some st) pre (nd + int (length ds))"
  using assms by (induction ds arbitrary: i nd) (simp_all add: isalpha_not_digit add.assoc)

lemma scan_suffix:
  assumes "\<forall>c\<in>set s. isalpha c"
  shows "scan_name s i (Some st) pre nd = Some (False, Some st, pre, nd)"
  using assms by (induction s arbitrary: i) auto

lemma scan_full_started:
  assumes "\<exists>c\<in>set cs. \<not> isalpha c \<and> \<not> isdigit c"
  shows "\<exists>pre' nd'. scan_name cs i (Some st) pre nd = Some (True, Some st, pre', nd')"
  using assms
proof (induction cs arbitrary: i nd)
  case (Cons a cs)
  show ?case
  proof (cases "\<not> isalpha a \<and> \<not> isdigit a")
    case False
    with Cons.prems have "\<exists>c\<in>set cs. \<not> isalpha c \<and> \<not> isdigit c" by auto
    with False show ?thesis
      using Cons.IH [of "i + 1" nd] Cons.IH [of "i + 1" "nd + 1"] by simp
  qed simp
qed simp

lemma takeWhile_all: "\<forall>c\<in>set (takeWhile P xs). P c"
  by (auto dest: set_takeWhileD)

lemma scan_plain:
  assumes "\<exists>c\<in>set n. \<not> isalpha c \<and> \<not> isdigit c" and "length (takeWhile isalpha n) \<le> 50"
  shows "\<exists>st pre nd. scan_name n 0 None [] 0 = Some (True, st, pre, nd)"
proof -
  let ?p = "takeWhile isalpha n" and ?q = "dropWhile isalpha n"
  have "n = ?p @ ?q" by simp
  then have "scan_name n 0 None [] 0 = scan_name ?q (length ?p) None ?p 0"
    using scan_alpha [of ?p "[]" ?q 0 0] assms(2) takeWhile_all [of isalpha n] by simp
  moreover have "\<exists>c\<in>set ?q. \<not> isalpha c \<and> \<not> isdigit c"
    using assms(1) takeWhile_all [of isalpha n]
    by (metis UnE set_append takeWhile_dropWhile_id)
  moreover from this obtain c r where q: "?q = c # r" by (cases ?q) auto
  then have "\<not> isalpha c" by (simp add: dropWhile_eq_Cons_conv)
  ultimately show ?thesis
    using q scan_full_started [of r "Suc (length ?p)" "length ?p" ?p 1]
    by (cases "isdigit c") auto
qed

lemma scan_numbered:
  assumes "\<forall>c\<in>set p. isalpha c" and "length p \<le> 50" and "\<forall>c\<in>set ds. isdigit c" and "ds \<noteq> []"
    and "\<forall>c\<in>set s. isalpha c"
  shows "scan_name (p @ ds @ s) 0 None [] 0 = Some (False, Some (length p), p, int (length ds))"
proof -
  from assms(3,4) obtain d ds' where ds: "ds = d # ds'" "isdigit d" "\<forall>c\<in>set ds'. isdigit c"
    by (cases ds) auto
  have "scan_name (p @ ds @ s) 0 None [] 0 = scan_name (ds @ s) (length p) None p 0"
    using scan_alpha [of p "[]" "ds @ s" 0 0] assms by simp
  also have "\<dots> = scan_name (ds' @ s) (length p + 1) (Some (length p)) p 1"
    using ds by (simp add: isalpha_not_digit)
  also have "\<dots> = Some (False, Some (length p), p, int (length ds))"
    using scan_digits [OF ds(3), of s] scan_suffix [OF assms(5)] ds(1) by simp
  finally show ?thesis .
qed

section \<open>What a list of node identifiers stands for\<close>

definition range_names :: "string \<Rightarrow> nat \<Rightarrow> string \<Rightarrow> orte_regex_range \<Rightarrow> string list" where
  "range_names p k s r =
     map (\<lambda>i. p @ padded k i @ s) [nat (range_start r)..<nat (range_start r + range_cnt r)]"

definition node_names :: "orte_regex_node \<Rightarrow> string list" where
  "node_names nd =
     (if nd_ranges nd = [] then [the (nd_prefix nd)]
      else concat (map (range_names (the (nd_prefix nd)) (nat (nd_num_digits nd)) (the (nd_suffix nd)))
             (nd_ranges nd)))"

definition wf_range :: "nat \<Rightarrow> orte_regex_range \<Rightarrow> bool" where
  "wf_range k r \<longleftrightarrow> 0 \<le> range_start r \<and> 1 \<le> range_cnt r \<and> range_start r + range_cnt r \<le> 10 ^ k"

definition wf_node :: "orte_regex_node \<Rightarrow> bool" where
  "wf_node nd \<longleftrightarrow> (case nd_suffix nd of
      None \<Rightarrow> nd_ranges nd = [] \<and>
        (\<exists>n. nd_prefix nd = Some n \<and> n \<noteq> [] \<and> (\<forall>c\<in>set n. \<not> special_char c))
    | Some s \<Rightarrow> nd_ranges nd \<noteq> [] \<and> (\<forall>c\<in>set s. isalpha c) \<and>
        (\<exists>p. nd_prefix nd = Some p \<and> p \<noteq> [] \<and> (\<forall>c\<in>set p. isalpha c)) \<and>
        1 \<le> nd_num_digits nd \<and> nd_num_digits nd \<le> 9 \<and>
        (\<forall>r\<in>set (nd_ranges nd). wf_range (nat (nd_num_digits nd)) r))"

text \<open>
  The names that compress and expand to themselves: no brackets or commas, a leading alphabetic part below
  the size of the array, and, when the name is compressed at all, a prefix before the number, at most nine
  digits, and no further digits behind them.
\<close>

definition regular_name :: "string \<Rightarrow> bool" where
  "regular_name n \<longleftrightarrow> n \<noteq> [] \<and> (\<forall>c\<in>set n. \<not> special_char c) \<and> length (takeWhile isalpha n) < 50 \<and>
     ((\<exists>c\<in>set n. \<not> isalpha c \<and> \<not> isdigit c) \<or>
      (let q = dropWhile isalpha n; ds = takeWhile isdigit q in
       ds = [] \<or> n \<noteq> q \<and> length ds \<le> 9 \<and> (\<forall>c\<in>set (dropWhile isdigit q). isalpha c)))"

lemma power_digits_bound: "k \<le> 9 \<Longrightarrow> (10 :: int) ^ k \<le> 10 ^ 9"
  by (rule power_increasing) auto

lemma add_number_correct:
  assumes "rs \<noteq> []" and "\<forall>r\<in>set rs. wf_range k r" and "k \<le> 9" and "0 \<le> z" and "z < 10 ^ k"
  shows "\<exists>rs'. add_number z rs = Some rs' \<and> rs' \<noteq> [] \<and> (\<forall>r\<in>set rs'. wf_range k r) \<and>
    concat (map (range_names p k s) rs') = concat (map (range_names p k s) rs) @ [p @ padded k (nat z) @ s]"
proof -
  obtain qs r where rs: "rs = qs @ [r]" using assms(1) by (cases rs rule: rev_cases) auto
  with assms(2) have r: "0 \<le> range_start r" "1 \<le> range_cnt r" "range_start r + range_cnt r \<le> 10 ^ k"
    by (auto simp: wf_range_def)
  have b: "(10 :: int) ^ k \<le> 10 ^ 9" using power_digits_bound assms(3) by blast
  have nxt: "add_int (range_start r) (range_cnt r) = Some (range_start r + range_cnt r)"
    using r b by (simp add: add_int_def INT_MAX_def)
  have inc: "add_int (range_cnt r) 1 = Some (range_cnt r + 1)"
    using r b by (simp add: add_int_def INT_MAX_def)
  show ?thesis
  proof (cases "z = range_start r + range_cnt r")
    case False
    have "range_names p k s \<lparr>range_start = z, range_cnt = 1\<rparr> = [p @ padded k (nat z) @ s]"
      using assms(4) by (simp add: range_names_def nat_add_distrib)
    with False nxt rs assms show ?thesis
      by (simp add: add_number_def wf_range_def)
  next
    case True
    have "nat (range_start r) \<le> nat z" "nat (range_start r + (range_cnt r + 1)) = Suc (nat z)"
      using True r by auto
    then have "range_names p k s (r\<lparr>range_cnt := range_cnt r + 1\<rparr>) =
        range_names p k s r @ [p @ padded k (nat z) @ s]"
      using True by (simp add: range_names_def)
    moreover have "wf_range k (r\<lparr>range_cnt := range_cnt r + 1\<rparr>)"
      using True r assms(5) by (simp add: wf_range_def)
    ultimately show ?thesis
      using True nxt inc rs assms(2) by (simp add: add_number_def)
  qed
qed

lemma add_nodeid_correct:
  assumes "\<forall>nd\<in>set nds. wf_node nd" and "p \<noteq> []" and "\<forall>c\<in>set p. isalpha c"
    and "\<forall>c\<in>set s. isalpha c" and "1 \<le> k" and "k \<le> 9" and "0 \<le> z" and "z < 10 ^ k"
  shows "\<exists>nds'. add_nodeid p s (int k) z nds = Some nds' \<and> (\<forall>nd\<in>set nds'. wf_node nd) \<and>
    mset (concat (map node_names nds')) =
      add_mset (p @ padded k (nat z) @ s) (mset (concat (map node_names nds)))"
  using assms(1)
proof (induction nds)
  case Nil
  have "range_names p k s \<lparr>range_start = z, range_cnt = 1\<rparr> = [p @ padded k (nat z) @ s]"
    using assms(7) by (simp add: range_names_def nat_add_distrib)
  with assms show ?case
    by (simp add: orte_regex_node_construct_def wf_node_def node_names_def wf_range_def)
next
  case (Cons nd nds)
  show ?case
  proof (cases "same_nodeid p s (int k) nd")
    case True
    then have nd: "nd_prefix nd = Some p" "nd_suffix nd = Some s" "nd_num_digits nd = int k"
      using assms(2) by (auto simp: same_nodeid_def)
    with Cons.prems have rs: "nd_ranges nd \<noteq> []" "\<forall>r\<in>set (nd_ranges nd). wf_range k r"
      by (auto simp: wf_node_def)
    obtain rs' where "add_number z (nd_ranges nd) = Some rs'" "rs' \<noteq> []" "\<forall>r\<in>set rs'. wf_range k r"
      "concat (map (range_names p k s) rs') =
        concat (map (range_names p k s) (nd_ranges nd)) @ [p @ padded k (nat z) @ s]"
      using add_number_correct [OF rs assms(6-8), of p s] by blast
    with True nd rs Cons.prems assms show ?thesis
      by (simp add: wf_node_def node_names_def)
  next
    case False
    with Cons show ?thesis by auto
  qed
qed

lemma add_node_correct:
  assumes "\<forall>nd\<in>set nds. wf_node nd" and "regular_name n"
  shows "\<exists>nds'. add_node n nds = Some nds' \<and> (\<forall>nd\<in>set nds'. wf_node nd) \<and>
    mset (concat (map node_names nds')) = add_mset n (mset (concat (map node_names nds)))"
proof -
  let ?p = "takeWhile isalpha n" and ?q = "dropWhile isalpha n"
  let ?ds = "takeWhile isdigit ?q" and ?s = "dropWhile isdigit ?q"
  let ?nd = "orte_regex_node_construct\<lparr>nd_prefix := Some n\<rparr>"
  have reg: "n \<noteq> []" "\<forall>c\<in>set n. \<not> special_char c" "length ?p < 50"
    using assms(2) by (auto simp: regular_name_def)
  then have nd: "wf_node ?nd" "node_names ?nd = [n]"
    by (auto simp: wf_node_def node_names_def orte_regex_node_construct_def)
  have split: "n = ?p @ ?ds @ ?s" by simp
  show ?thesis
  proof (cases "\<exists>c\<in>set n. \<not> isalpha c \<and> \<not> isdigit c")
    case True
    with scan_plain [OF True] reg(3) nd assms(1) show ?thesis
      by (fastforce simp: add_node_def)
  next
    case alnum: False
    show ?thesis
    proof (cases "?ds = []")
      case True
      have "?q = []"
      proof (rule ccontr)
        assume "?q \<noteq> []"
        then obtain c r where q: "?q = c # r" by (cases ?q) auto
        then have "\<not> isalpha c" by (simp add: dropWhile_eq_Cons_conv)
        moreover have "c \<in> set n" using q set_dropWhileD [of c isalpha n] by simp
        ultimately show False using alnum True q by auto
      qed
      then have "\<forall>c\<in>set n. isalpha c" by (simp add: dropWhile_eq_Nil_conv)
      then have "scan_name n 0 None [] 0 = Some (False, None, n, 0)"
        using scan_alpha [of n "[]" "[]" 0 0] reg(3)
        by (simp add: takeWhile_eq_all_conv [THEN iffD2])
      with nd assms(1) show ?thesis by (simp add: add_node_def)
    next
      case False
      with assms(2) alnum have r: "n \<noteq> ?q" "length ?ds \<le> 9" "\<forall>c\<in>set ?s. isalpha c"
        by (auto simp: regular_name_def Let_def)
      have al: "\<forall>c\<in>set ?p. isalpha c" "\<forall>c\<in>set ?ds. isdigit c" by (rule takeWhile_all)+
      from r(1) have p: "?p \<noteq> []" by (metis append_Nil takeWhile_dropWhile_id)
      have "scan_name n 0 None [] 0 = Some (False, Some (length ?p), ?p, int (length ?ds))"
        using scan_numbered [OF al(1) _ al(2) False r(3)] reg(3) split by simp
      moreover have bnd: "digits_value ?ds < 10 ^ length ?ds"
        by (rule digits_value_bound [OF al(2)])
      have "(10 :: nat) ^ length ?ds \<le> 10 ^ 9" using r(2) by (intro power_increasing) auto
      then have small: "int (digits_value ?ds) < 2 ^ 31" using bnd by simp
      have "strtol (drop (length ?p) n) = (int (digits_value ?ds), ?s, False)"
      proof -
        have "drop (length ?p) n = ?ds @ ?s" by (metis append_eq_conv_conj split)
        moreover have "?s = [] \<or> \<not> isdigit (hd ?s)" using hd_dropWhile by blast
        ultimately show ?thesis
          using strtol_digits [OF al(2) False _, of ?s] small by (simp add: LONG_MAX_def)
      qed
      moreover have "int (digits_value ?ds) < 10 ^ length ?ds" using bnd by (simp flip: of_nat_power)
      with add_nodeid_correct [OF assms(1) p al(1) r(3), of "length ?ds" "int (digits_value ?ds)"]
      obtain nds' where "add_nodeid ?p ?s (int (length ?ds)) (int (digits_value ?ds)) nds = Some nds'"
        "\<forall>nd\<in>set nds'. wf_node nd"
        "mset (concat (map node_names nds')) =
          add_mset (?p @ padded (length ?ds) (digits_value ?ds) @ ?s) (mset (concat (map node_names nds)))"
        using r(2) False by (auto simp: Suc_le_eq)
      ultimately show ?thesis
        using reg(3) small split padded_digits [OF al(2) False]
        by (simp add: add_node_def ORTE_MAX_NODE_PREFIX_def)
    qed
  qed
qed

text \<open>The loop over the list: its names are the fields of the string.\<close>

lemma add_nodes_correct:
  assumes "\<forall>n\<in>set ns. regular_name n" and "\<forall>nd\<in>set nds. wf_node nd"
  shows "\<exists>nds'. add_nodes (join_with CHR '','' ns) nds = Some nds' \<and> (\<forall>nd\<in>set nds'. wf_node nd) \<and>
    mset (concat (map node_names nds')) = mset (concat (map node_names nds)) + mset ns"
  using assms
proof (induction ns arbitrary: nds)
  case Nil
  then show ?case by (simp add: add_nodes.simps)
next
  case (Cons n ns)
  then have n: "n \<noteq> []" "CHR '','' \<notin> set n"
    by (auto simp: regular_name_def special_char_def)
  from Cons.prems obtain nds1 where nds1: "add_node n nds = Some nds1" "\<forall>nd\<in>set nds1. wf_node nd"
    "mset (concat (map node_names nds1)) = add_mset n (mset (concat (map node_names nds)))"
    using add_node_correct [of nds n] by auto
  show ?case
  proof (cases "ns = []")
    case True
    with n nds1 show ?thesis by (subst add_nodes.simps) (simp add: Let_def)
  next
    case False
    have "add_nodes (join_with CHR '','' (n # ns)) nds = add_nodes (join_with CHR '','' ns) nds1"
      using False n nds1(1) by (subst add_nodes.simps) (simp add: join_with_Cons Let_def)
    with Cons.IH [of nds1] Cons.prems nds1 show ?thesis by auto
  qed
qed

section \<open>Printing\<close>

definition range_text :: "orte_regex_range \<Rightarrow> string" where
  "range_text r =
     (if range_cnt r = 1 then decimal (nat (range_start r))
      else decimal (nat (range_start r)) @ ''-'' @ decimal (nat (range_start r + range_cnt r - 1)))"

definition node_text :: "orte_regex_node \<Rightarrow> string" where
  "node_text nd =
     (if nd_ranges nd = [] then the (nd_prefix nd)
      else the (nd_prefix nd) @ ''['' @ decimal (nat (nd_num_digits nd)) @ '':'' @
           join_with CHR '','' (map range_text (nd_ranges nd)) @ '']'' @ the (nd_suffix nd))"

lemma print_range_text:
  assumes "wf_range k r" and "k \<le> 9"
  shows "print_range r = Some (range_text r @ '','')"
proof -
  have "(10 :: int) ^ k \<le> 10 ^ 9" using power_digits_bound assms(2) by blast
  with assms show ?thesis
    by (simp add: print_range_def range_text_def wf_range_def add_int_def INT_MAX_def decimal_int_def)
qed

lemma print_ranges_text:
  assumes "\<forall>r\<in>set rs. wf_range k r" and "k \<le> 9" and "rs \<noteq> []"
  shows "print_ranges tmp rs = Some (tmp @ join_with CHR '','' (map range_text rs) @ '','')"
  using assms(1,3)
proof (induction rs arbitrary: tmp)
  case (Cons r rs)
  have "print_range r = Some (range_text r @ '','')"
    using print_range_text [of k r] assms(2) Cons.prems by simp
  with Cons show ?case by (cases "rs = []") (auto simp: join_with_Cons)
qed simp

lemma print_node_text:
  assumes "wf_node nd"
  shows "print_node nd = Some (Some (node_text nd))"
proof (cases "nd_suffix nd")
  case None
  with assms show ?thesis by (auto simp: wf_node_def print_node_def node_text_def)
next
  case (Some s)
  with assms have w: "nd_ranges nd \<noteq> []" "1 \<le> nd_num_digits nd" "nat (nd_num_digits nd) \<le> 9"
    "\<forall>r\<in>set (nd_ranges nd). wf_range (nat (nd_num_digits nd)) r" "nd_prefix nd \<noteq> None"
    by (auto simp: wf_node_def)
  with Some print_ranges_text [OF w(4,3,1)] show ?thesis
    by (auto simp: print_node_def node_text_def decimal_int_def butlast_append)
qed

lemma print_nodes_text:
  assumes "\<forall>nd\<in>set nds. wf_node nd" and "holds a xs"
  shows "\<exists>a'. print_nodes always nds a = Some a' \<and> holds a' (xs @ map node_text nds)"
  using assms
proof (induction nds arbitrary: a xs)
  case (Cons nd nds)
  obtain a1 where a1: "opal_argv_append_nosize always a (node_text nd) = Some (SUCCESS, a1)"
      "holds a1 (xs @ [node_text nd])"
    using append_nosize_ample [OF Cons.prems(2)] by blast
  with Cons.IH [of a1 "xs @ [node_text nd]"] Cons.prems show ?case
    by (simp add: print_node_text del: opal_argv_append_nosize.simps)
qed simp

section \<open>Expanding\<close>

lemma put_digits_block:
  "length B = length D \<Longrightarrow> put_digits (A @ B @ C) (length A + length B) (rev D) = Some (A @ D @ C)"
proof (induction D arbitrary: B C rule: rev_induct)
  case (snoc d D)
  then obtain B' b where B: "B = B' @ [b]" by (cases B rule: rev_cases) auto
  have "(A @ B' @ b # C)[length A + length B' := d] = A @ B' @ d # C"
    by (simp add: list_update_append)
  with snoc.IH [of B' "d # C"] snoc.prems B show ?case by simp
qed simp

lemma put_digits_padded:
  assumes "length (decimal i) \<le> k"
  shows "put_digits (p @ replicate k CHR ''0'') (length p + k) (rev (decimal i)) = Some (p @ padded k i)"
proof -
  let ?z = "k - length (decimal i)"
  have "replicate k CHR ''0'' = replicate ?z CHR ''0'' @ replicate (length (decimal i)) CHR ''0''"
    using assms by (simp flip: replicate_add)
  then show ?thesis
    using put_digits_block [of "replicate (length (decimal i)) CHR ''0''" "decimal i"
        "p @ replicate ?z CHR ''0''" "[]"] assms
    by (simp add: padded_def)
qed

abbreviation suffix_text :: "string option \<Rightarrow> string" where
  "suffix_text suf \<equiv> (case suf of None \<Rightarrow> [] | Some s \<Rightarrow> s)"

lemma make_names_correct:
  assumes "i + n \<le> 10 ^ k" and "0 < k" and "holds a xs"
  shows "\<exists>a'. make_names always p k suf i n a = Some (SUCCESS, a') \<and>
    holds a' (xs @ map (\<lambda>i. p @ padded k i @ suffix_text suf) [i..<i + n])"
  using assms
proof (induction n arbitrary: i a xs)
  case (Suc n)
  let ?s = "p @ padded k i @ suffix_text suf"
  have "length (decimal i) \<le> k"
    using Suc.prems by (intro length_decimal_le) auto
  moreover have "(case suf of None \<Rightarrow> p @ padded k i | Some s \<Rightarrow> (p @ padded k i) @ s) = ?s"
    by (cases suf) auto
  moreover obtain a1 where a1: "opal_argv_append_nosize always a ?s = Some (SUCCESS, a1)" "holds a1 (xs @ [?s])"
    using append_nosize_ample [OF Suc.prems(3)] by blast
  ultimately have "make_names always p k suf i (Suc n) a = make_names always p k suf (i + 1) n a1"
    by (simp add: put_digits_padded)
  moreover have "[i..<i + Suc n] = i # [i + 1..<(i + 1) + n]" by (simp add: upt_rec)
  ultimately show ?case
    using Suc.IH [of "i + 1" a1 "xs @ [?s]"] Suc.prems a1(2) by simp
qed simp

lemma not_digit_dash: "\<not> isdigit CHR ''-''" by (simp add: isdigit_def)

lemma dropWhile_decimal:
  "dropWhile (\<lambda>c. \<not> isdigit c) (decimal n @ r) = decimal n @ r"
  using decimal_digits [of n] decimal_not_Nil [of n] by (cases "decimal n") auto

lemma dropWhile_isdigit_decimal:
  "r = [] \<or> \<not> isdigit (hd r) \<Longrightarrow> dropWhile isdigit (decimal n @ r) = r"
  using decimal_digits [of n] by (cases r) (auto simp: dropWhile_append3)

lemma int_log10_bound: "n < 10 ^ k \<Longrightarrow> 0 < k \<Longrightarrow> int_log10 n + 1 \<le> int k"
  using length_decimal_le [of n k] by (simp add: int_log10_def)

lemma parse_range_text:
  assumes "wf_range k r" and "1 \<le> k" and "k \<le> 9" and "holds a xs"
  shows "\<exists>a'. regex_parse_node_range always False p (range_text r) (int k) suf a = Some (SUCCESS, a') \<and>
    holds a' (xs @ range_names p k (suffix_text suf) r)"
proof -
  obtain m n where mn: "range_start r = int m" "range_cnt r = int n" "1 \<le> n"
    using assms(1) by (metis nonneg_int_cases order_trans wf_range_def zero_le_one of_nat_1 of_nat_le_iff)
  then have le: "m + n \<le> 10 ^ k"
    using assms(1) by (simp add: wf_range_def flip: of_nat_add of_nat_power)
  moreover obtain e where e: "m + n = Suc e" "m \<le> e" using mn(3) by (cases n) auto
  moreover have "(10 :: nat) ^ k \<le> 10 ^ 9" using assms(3) by (intro power_increasing) auto
  ultimately have big: "int m \<le> LONG_MAX" "int e \<le> LONG_MAX" by (auto simp: LONG_MAX_def)
  have lg: "int_log10 e + 1 \<le> int k"
    using le e assms(2) by (intro int_log10_bound) auto
  have "regex_parse_node_range always False p (range_text r) (int k) suf a =
      make_names always p k suf m (e + 1 - m) a"
  proof (cases "n = 1")
    case True
    then show ?thesis
      using mn big lg e dropWhile_decimal [of m "[]"] dropWhile_isdigit_decimal [of "[]" m]
        strtol_decimal [of "[]" m]
      by (simp add: regex_parse_node_range_def range_text_def Let_def always_def)
  next
    case False
    have "nat (range_start r + range_cnt r - 1) = e" using mn e by simp
    with mn False have rt: "range_text r = decimal m @ CHR ''-'' # decimal e"
      by (simp add: range_text_def)
    show ?thesis
      using big lg e rt dropWhile_decimal [of m "CHR ''-'' # decimal e"]
        dropWhile_isdigit_decimal [of "CHR ''-'' # decimal e" m] dropWhile_decimal [of e "[]"]
        strtol_decimal [of "CHR ''-'' # decimal e" m] strtol_decimal [of "[]" e] not_digit_dash
      by (simp add: regex_parse_node_range_def Let_def always_def del: dropWhile_eq_Nil_conv)
  qed
  moreover have "e + 1 - m = n" using e by simp
  moreover have "range_names p k (suffix_text suf) r =
      map (\<lambda>i. p @ padded k i @ suffix_text suf) [m..<m + n]"
    using mn by (simp add: range_names_def nat_add_distrib)
  ultimately show ?thesis
    using make_names_correct [OF le _ assms(4), of p suf] assms(2) by simp
qed

lemma range_text_chars: "\<forall>c\<in>set (range_text r). isdigit c \<or> c = CHR ''-''"
  using decimal_digits by (auto simp: range_text_def)

lemma range_text_no: "CHR '','' \<notin> set (range_text r)" "range_text r \<noteq> []"
  using range_text_chars [of r] by (auto simp: isdigit_def) (auto simp: range_text_def split: if_splits)

lemma ranges_text_no: "CHR '']'' \<notin> set (join_with CHR '','' (map range_text rs))"
proof (induction rs)
  case (Cons r rs)
  have "CHR '']'' \<notin> set (range_text r)"
    using range_text_chars [of r] by (auto simp: isdigit_def)
  with Cons show ?case by (cases "rs = []") (auto simp: join_with_Cons)
qed simp

lemma parse_ranges_text:
  assumes "\<forall>r\<in>set rs. wf_range k r" and "1 \<le> k" and "k \<le> 9" and "holds a xs"
  shows "\<exists>a'. regex_parse_node_ranges always False p (join_with CHR '','' (map range_text rs)) (int k) suf a
      = Some (SUCCESS, a') \<and> holds a' (xs @ concat (map (range_names p k (suffix_text suf)) rs))"
  using assms(1,4)
proof (induction rs arbitrary: a xs)
  case Nil
  then show ?case by (simp add: regex_parse_node_ranges.simps)
next
  case (Cons r rs)
  obtain a1 where a1: "regex_parse_node_range always False p (range_text r) (int k) suf a = Some (SUCCESS, a1)"
      "holds a1 (xs @ range_names p k (suffix_text suf) r)"
    using parse_range_text [of k r a xs p suf] Cons.prems assms(2,3) by auto
  show ?case
  proof (cases "rs = []")
    case True
    with a1 range_text_no [of r] show ?thesis
      by (subst regex_parse_node_ranges.simps) (simp add: Let_def)
  next
    case False
    with a1 range_text_no [of r] have
      "regex_parse_node_ranges always False p (join_with CHR '','' (map range_text (r # rs))) (int k) suf a =
       regex_parse_node_ranges always False p (join_with CHR '','' (map range_text rs)) (int k) suf a1"
      by (subst regex_parse_node_ranges.simps) (simp add: join_with_Cons Let_def)
    with Cons.IH [of a1 "xs @ range_names p k (suffix_text suf) r"] Cons.prems a1(2) show ?thesis
      by simp
  qed
qed

lemma decimal_no: "CHR '':'' \<notin> set (decimal n)"
  using decimal_digits [of n] by (auto simp: isdigit_def)

lemma extract_range_text:
  assumes "\<forall>r\<in>set rs. wf_range k r" and "1 \<le> k" and "k \<le> 9" and "holds a xs"
    and "\<forall>c\<in>set s. isalpha c" and "rest = [] \<or> hd rest = CHR '',''"
  shows "\<exists>a'. extract_range always False p
      (decimal k @ CHR '':'' # join_with CHR '','' (map range_text rs) @ CHR '']'' # s @ rest) a =
      Some (SUCCESS, a', if rest = [] then None else Some (tl rest)) \<and>
    holds a' (xs @ concat (map (range_names p k s) rs))"
proof -
  let ?J = "join_with CHR '','' (map range_text rs)"
  let ?suf = "if s = [] then None else Some s"
  have "strtol (decimal k) = (int k, [], False)"
    using strtol_decimal [of "[]" k] assms(3) by (simp add: LONG_MAX_def)
  moreover have "to_int (int k) = int k" using assms(3) by simp
  moreover obtain a' where a': "regex_parse_node_ranges always False p ?J (int k) ?suf a = Some (SUCCESS, a')"
      "holds a' (xs @ concat (map (range_names p k (suffix_text ?suf)) rs))"
    using parse_ranges_text [OF assms(1-4), of p ?suf] by blast
  moreover have "suffix_text ?suf = s" by simp
  moreover have sfx: "CHR '','' \<notin> set s" "s \<noteq> [] \<Longrightarrow> hd s \<noteq> CHR '','' \<and> hd s \<noteq> CHR ''[''"
    using assms(5) by (cases s; auto simp: isalpha_def)+
  then have cut: "takeWhile (\<lambda>c. c \<noteq> CHR '','') (s @ rest) = s"
      "dropWhile (\<lambda>c. c \<noteq> CHR '','') (s @ rest) = rest"
    using assms(6) by (cases rest; simp)+
  ultimately show ?thesis
    using decimal_no [of k] ranges_text_no [of rs] assms(6) sfx cut
    by (cases "s = []"; cases rest) (simp_all add: extract_range_def Let_def)
qed

lemma node_text_cut:
  assumes "\<forall>c\<in>set n. \<not> special_char c" and "rest = [] \<or> special_char (hd rest)"
  shows "takeWhile (\<lambda>c. \<not> special_char c) (n @ rest) = n"
    "dropWhile (\<lambda>c. \<not> special_char c) (n @ rest) = rest"
  using assms by (induction n) (cases rest; auto)+

lemma extract_node_text:
  assumes "wf_node nd" and "holds a xs" and "rest = [] \<or> hd rest = CHR '',''"
  shows "\<exists>a'. extract_loop always False (node_text nd @ rest) a =
      (if rest = [] then Some (SUCCESS, a') else extract_loop always False (tl rest) a') \<and>
    holds a' (xs @ node_names nd)"
proof (cases "nd_suffix nd")
  case None
  with assms(1) obtain n where n: "nd_ranges nd = []" "nd_prefix nd = Some n" "n \<noteq> []"
      "\<forall>c\<in>set n. \<not> special_char c"
    by (auto simp: wf_node_def)
  have sp: "rest = [] \<or> special_char (hd rest)" using assms(3) by (auto simp: special_char_def)
  obtain a1 where "opal_argv_append_nosize always a n = Some (SUCCESS, a1)" "holds a1 (xs @ [n])"
    using append_nosize_ample [OF assms(2)] by blast
  with n assms(3) show ?thesis
    by (subst extract_loop.simps)
      (auto simp: node_text_def node_names_def node_text_cut [OF n(4) sp] Let_def)
next
  case (Some s)
  with assms(1) obtain p where w: "nd_ranges nd \<noteq> []" "\<forall>c\<in>set s. isalpha c" "nd_prefix nd = Some p"
      "p \<noteq> []" "\<forall>c\<in>set p. isalpha c" "1 \<le> nd_num_digits nd" "nd_num_digits nd \<le> 9"
      "\<forall>r\<in>set (nd_ranges nd). wf_range (nat (nd_num_digits nd)) r"
    by (auto simp: wf_node_def)
  let ?k = "nat (nd_num_digits nd)"
  let ?t = "decimal ?k @ CHR '':'' # join_with CHR '','' (map range_text (nd_ranges nd)) @ CHR '']'' # s @ rest"
  have p: "\<forall>c\<in>set p. \<not> special_char c" using w(5) isalnum_not_special by blast
  have cut: "takeWhile (\<lambda>c. \<not> special_char c) (p @ CHR ''['' # ?t) = p"
      "dropWhile (\<lambda>c. \<not> special_char c) (p @ CHR ''['' # ?t) = CHR ''['' # ?t"
    by (rule node_text_cut [OF p]; simp add: special_char_def)+
  have k: "1 \<le> ?k" "?k \<le> 9" using w(6,7) by auto
  obtain a1 where a1: "extract_range always False p ?t a =
      Some (SUCCESS, a1, if rest = [] then None else Some (tl rest))"
      "holds a1 (xs @ concat (map (range_names p ?k s) (nd_ranges nd)))"
    using extract_range_text [OF w(8) k assms(2) w(2) assms(3), of p] by blast
  have tx: "node_text nd @ rest = p @ CHR ''['' # ?t"
    using w(1,3) Some by (simp add: node_text_def)
  have "extract_loop always False (node_text nd @ rest) a =
      (if rest = [] then Some (SUCCESS, a1) else extract_loop always False (tl rest) a1)"
    unfolding tx by (subst extract_loop.simps) (simp add: cut a1(1) w(4) Let_def)
  moreover have "holds a1 (xs @ node_names nd)"
    using a1(2) w(1,3) Some by (simp add: node_names_def)
  ultimately show ?thesis by blast
qed

lemma extract_nodes_text:
  assumes "\<forall>nd\<in>set nds. wf_node nd" and "nds \<noteq> []" and "holds a xs"
  shows "\<exists>a'. extract_loop always False (join_with CHR '','' (map node_text nds)) a = Some (SUCCESS, a') \<and>
    holds a' (xs @ concat (map node_names nds))"
  using assms
proof (induction nds arbitrary: a xs)
  case (Cons nd nds)
  show ?case
  proof (cases "nds = []")
    case True
    with extract_node_text [of nd a xs "[]"] Cons.prems show ?thesis by simp
  next
    case False
    let ?rest = "CHR '','' # join_with CHR '','' (map node_text nds)"
    obtain a1 where "extract_loop always False (node_text nd @ ?rest) a =
        extract_loop always False (join_with CHR '','' (map node_text nds)) a1"
        "holds a1 (xs @ node_names nd)"
      using extract_node_text [of nd a xs ?rest] Cons.prems by auto
    with False Cons.IH [of a1 "xs @ node_names nd"] Cons.prems show ?thesis
      by (simp add: join_with_Cons)
  qed
qed simp

section \<open>Properties of node-list expressions\<close>

lemma comma_in_join: "n # ns \<noteq> [n] \<Longrightarrow> CHR '','' \<in> set (join_with CHR '','' (n # ns))"
  by (cases ns) auto

lemma mset_concat_Nil: "mset (concat (map node_names [])) = {#}"
  by simp

text \<open>C5: Compressing a node list and expanding the expression gives the nodes back.  For regular names
  (no brackets or commas, at most one number of at most nine digits, a short alphabetic prefix before it),
  \<^verbatim>\<open>orte_regex_extract_node_names\<close> of what \<^verbatim>\<open>orte_regex_create\<close> builds succeeds and returns
  every node as often as it was listed, zero padding included; neither function leaves its
  buffers.  The order of the nodes may change, since nodes are grouped by prefix.\<close>

theorem regex_create_extract:
  assumes "\<forall>n\<in>set ns. regular_name n" and "ns \<noteq> []"
  shows "\<exists>r a xs. orte_regex_create always (join_with CHR '','' ns) = Some (SUCCESS, Some r) \<and>
    orte_regex_extract_node_names always False (Some r) None = Some (SUCCESS, a) \<and>
    holds a xs \<and> mset xs = mset ns"
proof (cases "length ns = 1")
  case True
  then obtain n where ns: "ns = [n]" by (cases ns) auto
  with assms have n: "n \<noteq> []" "\<forall>c\<in>set n. \<not> special_char c" by (auto simp: regular_name_def)
  let ?nd = "orte_regex_node_construct\<lparr>nd_prefix := Some n\<rparr>"
  have nd: "wf_node ?nd" "node_text ?nd = n" "node_names ?nd = [n]"
    using n by (auto simp: wf_node_def node_text_def node_names_def orte_regex_node_construct_def)
  have "CHR '','' \<notin> set n" using n by (auto simp: special_char_def)
  with ns nd extract_nodes_text [of "[?nd]" None "[]"] show ?thesis
    by (auto simp: orte_regex_create_def orte_regex_extract_node_names_def)
next
  case False
  with assms(2) obtain n ms where ns: "ns = n # ms" "ms \<noteq> []" by (cases ns) auto
  obtain nds where nds: "add_nodes (join_with CHR '','' ns) [] = Some nds" "\<forall>nd\<in>set nds. wf_node nd"
      "mset (concat (map node_names nds)) = mset ns"
    using add_nodes_correct [OF assms(1), of "[]"] by auto
  have "nds \<noteq> []" using nds(3) assms(2) by auto
  obtain ra where ra: "print_nodes always nds None = Some ra" "holds ra (map node_text nds)"
    using print_nodes_text [OF nds(2), of None "[]"] by auto
  obtain a where a: "extract_loop always False (join_with CHR '','' (map node_text nds)) None = Some (SUCCESS, a)"
      "holds a (concat (map node_names nds))"
    using extract_nodes_text [OF nds(2) \<open>nds \<noteq> []\<close>, of None "[]"] by auto
  have "CHR '','' \<in> set (join_with CHR '','' ns)" using comma_in_join [of n ms] ns by simp
  then have "orte_regex_create always (join_with CHR '','' ns) =
      Some (SUCCESS, Some (join_with CHR '','' (map node_text nds)))"
    using nds(1) ra join_correct [OF ra(2), of "CHR '',''"] by (simp add: orte_regex_create_def)
  with a nds(3) show ?thesis
    by (auto simp: orte_regex_extract_node_names_def always_def)
qed

theorem regex_create_extract_witness:
  "\<exists>r a xs. orte_regex_create always (join_with CHR '','' [''n09'', ''n10'', ''ctl-a'', ''m3b'']) = Some (SUCCESS, Some r) \<and>
    orte_regex_extract_node_names always False (Some r) None = Some (SUCCESS, a) \<and>
    holds a xs \<and> mset xs = mset [''n09'', ''n10'', ''ctl-a'', ''m3b'']"
  by (rule regex_create_extract)
    (simp_all add: regular_name_def special_char_def isalpha_def isdigit_def Let_def)

text \<open>A second number in a node name is miscounted.  \<^verbatim>\<open>orte_regex_create\<close> counts all
  digits of the name as the width of its first number, so the names \<^verbatim>\<open>n1a2\<close> and \<^verbatim>\<open>n2a2\<close>
  become \<^verbatim>\<open>n[2:1-2]a2\<close>, which expands to the nodes \<^verbatim>\<open>n01a2\<close> and \<^verbatim>\<open>n02a2\<close>.\<close>

theorem regex_second_number:
  "orte_regex_create always ''n1a2,n2a2'' = Some (SUCCESS, Some ''n[2:1-2]a2'') \<and>
   map_option (map_prod id (map_option strings))
     (orte_regex_extract_node_names always False (Some ''n[2:1-2]a2'') None)
     = Some (SUCCESS, Some [''n01a2'', ''n02a2''])"
  by code_simp

text \<open>C39: A stale \<^verbatim>\<open>errno\<close> disables ranges.  The code compares \<^verbatim>\<open>errno\<close> with
  \<^verbatim>\<open>ERANGE\<close> after \<^verbatim>\<open>strtol\<close> but never clears it, so once any earlier call has left
  \<^verbatim>\<open>ERANGE\<close> behind, every expression that starts with a bracketed range is refused, whatever it is.\<close>

theorem regex_stale_errno:
  assumes "\<forall>c\<in>set p. \<not> special_char c"
  shows "orte_regex_extract_node_names always True (Some (p @ ''['' @ t)) names = Some (ERR_BAD_PARAM, names)"
proof -
  have "takeWhile (\<lambda>c. \<not> special_char c) (p @ ''['' @ t) = p"
    "dropWhile (\<lambda>c. \<not> special_char c) (p @ ''['' @ t) = ''['' @ t"
    by (rule node_text_cut [OF assms]; simp add: special_char_def)+
  moreover have "extract_range always True p t names = Some (ERR_BAD_PARAM, names, None)"
    by (auto simp: extract_range_def Let_def split: prod.split)
  ultimately have "extract_loop always True (p @ ''['' @ t) names = Some (ERR_BAD_PARAM, names)"
    by (subst extract_loop.simps) (simp add: Let_def)
  then show ?thesis
    by (simp add: orte_regex_extract_node_names_def)
qed

theorem regex_stale_errno_witness:
  "orte_regex_extract_node_names always True (Some (''node'' @ ''['' @ ''2:1-4]'')) None = Some (ERR_BAD_PARAM, None) \<and>
   map_option fst (orte_regex_extract_node_names always False (Some ''node[2:1-4]'') None) = Some SUCCESS"
  using regex_stale_errno [of "''node''" "''2:1-4]''" None]
  by (intro conjI) (simp add: special_char_def, code_simp)

text \<open>Character ranges with a prefix are always refused.  \<^verbatim>\<open>orte_regex_extract_name_range\<close>
  overwrites the opening bracket before it searches the string for the closing one, so an expression
  \<^verbatim>\<open>prefix[...]\<close> is a bad parameter whatever stands in the brackets; only expressions that start
  with the bracket work.\<close>

theorem name_range_prefix_refused:
  assumes "p \<noteq> []" and "CHR ''['' \<notin> set p" and "CHR '']'' \<notin> set p"
  shows "orte_regex_extract_name_range mem (p @ CHR ''['' # t) names = Some (ERR_BAD_PARAM, names)"
  using assms by (simp add: orte_regex_extract_name_range_def Let_def)

theorem name_range_prefix_refused_witness:
  "orte_regex_extract_name_range always (''rack'' @ CHR ''['' # ''a-c]'') None = Some (ERR_BAD_PARAM, None) \<and>
   map_option (map_prod id (map_option strings)) (orte_regex_extract_name_range always ''[a-c]x'' None) =
     Some (SUCCESS, Some [''ax'', ''bx'', ''cx''])"
  using name_range_prefix_refused [of "''rack''" always "''a-c]''" None]
  by (intro conjI) (simp, code_simp)

section \<open>Properties of processes per node\<close>

lemma fill_ppn_take:
  assumes "j \<le> length tmp" and "drop j tmp = replicate (length tmp - j) 0"
  shows "fill_ppn tmp j c n =
    (take j tmp @ replicate (min n (length tmp - j)) c @ replicate (length tmp - j - n) 0,
     j + min n (length tmp - j))"
  using assms
proof (induction n arbitrary: tmp j)
  case 0
  then show ?case by (metis append_take_drop_id diff_zero fill_ppn.simps(1) min_0L replicate_0
      append_Nil add_0_right)
next
  case (Suc n)
  show ?case
  proof (cases "j < length tmp")
    case True
    have "drop (j + 1) (tmp[j := c]) = replicate (length tmp - (j + 1)) 0"
      using Suc.prems True by (metis Suc_eq_plus1 drop_Suc drop_update_cancel lessI replicate_Suc
        Suc_diff_Suc list.sel(3) tl_drop)
    moreover have "take (j + 1) (tmp[j := c]) = take j tmp @ [c]"
      using True by (simp add: take_Suc_conv_app_nth)
    ultimately show ?thesis
      using Suc.IH [of "j + 1" "tmp[j := c]"] True by (cases "length tmp - j") (auto simp: min_def)
  next
    case False
    with Suc.prems show ?thesis by simp
  qed
qed

text \<open>The array after the items read so far stand for the counts \<open>don\<close>.\<close>

definition ppn_array :: "nat \<Rightarrow> int list \<Rightarrow> int list" where
  "ppn_array n don = take n don @ replicate (n - length don) 0"

lemma length_ppn_array [simp]: "length (ppn_array n don) = n"
  by (simp add: ppn_array_def min_def)

lemma fill_ppn_array:
  "fill_ppn (ppn_array n don) (min n (length don)) c r =
     (ppn_array n (don @ replicate r c), min n (length (don @ replicate r c)))"
proof -
  let ?l = "length don"
  have "fill_ppn (ppn_array n don) (min n ?l) c r =
      (take (min n ?l) (ppn_array n don) @ replicate (min r (n - min n ?l)) c @
       replicate (n - min n ?l - r) 0, min n ?l + min r (n - min n ?l))"
  proof -
    have "drop (min n ?l) (ppn_array n don) = replicate (n - min n ?l) 0"
      by (cases "n \<le> ?l") (simp_all add: ppn_array_def)
    then show ?thesis
      using fill_ppn_take [of "min n ?l" "ppn_array n don" c r] by (simp only: length_ppn_array min.cobounded1)
  qed
  moreover have "n - min n ?l = n - ?l" "min n ?l + min r (n - ?l) = min n (?l + r)"
    "take (min n ?l) (ppn_array n don) = take n don"
    by (auto simp: ppn_array_def min_def)
  moreover have "n - ?l - r = n - (?l + r)" by simp
  ultimately show ?thesis by (simp add: ppn_array_def min.commute)
qed

definition ppn_text :: "nat \<times> nat \<Rightarrow> string" where
  "ppn_text cr = decimal (fst cr) @ ''(x'' @ decimal (snd cr) @ '')''"

lemma ppn_item_text:
  assumes "fst cr < 2 ^ 31" and "snd cr < 2 ^ 31"
  shows "ppn_item (ppn_text cr @ rest) = (int (fst cr), int (snd cr), rest)"
proof -
  have "strtol (decimal (fst cr) @ ''(x'' @ decimal (snd cr) @ CHR '')'' # rest) =
      (int (fst cr), ''(x'' @ decimal (snd cr) @ CHR '')'' # rest, False)"
    using assms by (intro strtol_decimal) (auto simp: isdigit_def LONG_MAX_def)
  moreover have "strtol (decimal (snd cr) @ CHR '')'' # rest) = (int (snd cr), CHR '')'' # rest, False)"
    using assms by (intro strtol_decimal) (auto simp: isdigit_def LONG_MAX_def)
  ultimately show ?thesis
    using assms by (simp add: ppn_item_def ppn_text_def)
qed

lemma ppn_loop_text:
  assumes "\<forall>cr\<in>set items. fst cr < 2 ^ 31 \<and> snd cr < 2 ^ 31" and "items \<noteq> []"
  shows "ppn_loop (join_with CHR '','' (map ppn_text items)) (ppn_array n don) (min n (length don)) =
    (SUCCESS, Some (ppn_array n (don @ concat (map (\<lambda>(c, r). replicate r (int c)) items))))"
  using assms
proof (induction items arbitrary: don)
  case (Cons cr items)
  let ?don = "don @ replicate (snd cr) (int (fst cr))"
  have fill: "fill_ppn (ppn_array n don) (min n (length don)) (int (fst cr)) (snd cr) =
      (ppn_array n ?don, min n (length ?don))"
    by (rule fill_ppn_array)
  show ?case
  proof (cases "items = []")
    case True
    with Cons.prems ppn_item_text [of cr "[]"] fill show ?thesis
      by (subst ppn_loop.simps) (simp add: split_def)
  next
    case False
    have "ppn_item (join_with CHR '','' (map ppn_text (cr # items))) =
        (int (fst cr), int (snd cr), CHR '','' # join_with CHR '','' (map ppn_text items))"
      using False Cons.prems ppn_item_text [of cr] by (simp add: join_with_Cons)
    with fill have "ppn_loop (join_with CHR '','' (map ppn_text (cr # items))) (ppn_array n don)
        (min n (length don)) =
        ppn_loop (join_with CHR '','' (map ppn_text items)) (ppn_array n ?don) (min n (length ?don))"
      by (subst ppn_loop.simps) simp
    with Cons.IH [of ?don] Cons.prems False show ?thesis by (simp add: split_def)
  qed
qed simp

text \<open>C29: Processes per node.  For a well-formed expression \<^verbatim>\<open>c1(xr1),c2(xr2),...\<close> the array has
  one entry for each node: the counts in order, each repeated as often as stated, cut off at the number of
  nodes, and 0 for the nodes that are left over.\<close>

theorem extract_ppn_correct:
  assumes "\<forall>cr\<in>set items. fst cr < 2 ^ 31 \<and> snd cr < 2 ^ 31" and "items \<noteq> []"
  shows "orte_regex_extract_ppn always n (join_with CHR '','' (map ppn_text items)) =
    (SUCCESS, Some (let cs = concat (map (\<lambda>(c, r). replicate r (int c)) items)
                    in take n cs @ replicate (n - length cs) 0))"
  using ppn_loop_text [OF assms, of n "[]"]
  by (simp add: orte_regex_extract_ppn_def ppn_array_def always_def Let_def)

theorem extract_ppn_correct_witness:
  "orte_regex_extract_ppn always 6 ''4(x2),1(x3)'' = (SUCCESS, Some [4, 4, 1, 1, 1, 0])"
proof -
  have "join_with CHR '','' (map ppn_text [(4, 2), (1, 3)]) = ''4(x2),1(x3)''"
    by code_simp
  moreover have "(let cs = concat (map (\<lambda>(c, r). replicate r (int c)) [(4, 2), (1, 3)])
      in take 6 cs @ replicate (6 - length cs) 0) = [4, 4, 1, 1, 1, 0]"
    by code_simp
  ultimately show ?thesis
    using extract_ppn_correct [of "[(4, 2), (1, 3)]" 6] by simp
qed

text \<open>Expressions of width zero or below are not rejected for node 0.  The check on the number of digits uses
  the logarithm of the range's end, which for 0 converts to a negative number; a width of 0 then
  overwrites the last character of the base name, and a negative width writes out of the name's buffer.\<close>

theorem regex_zero_width:
  "map_option (map_prod id (map_option strings))
     (orte_regex_extract_node_names always False (Some ''node[0:0]'') None) = Some (SUCCESS, Some [''nod0'']) \<and>
   orte_regex_extract_node_names always False (Some ''node[-1:0]'') None = None \<and>
   orte_regex_extract_node_names always False (Some ''node[0:1]'') None = Some (ERR_BAD_PARAM, None)"
  by (intro conjI; code_simp)

end
