(* ===== verification/Orcm_Logical_Group.thy ===== *)
theory Orcm_Logical_Group
  imports Opal_Hash_Table Orte_Regex "HOL-Library.Code_Target_Nat"
begin

text \<open>
  Logical groups of nodes, \<^verbatim>\<open>orcm/util/logical_group.c\<close>: the table from group names (tags)
  to member lists, and adding, removing and listing members.

  The table is the hash table of \<open>Opal_Hash_Table\<close>, with pointers to list objects as values; the
  list objects live in an explicit heap, since the code shares them between tables and releases them.
  A list object is the list of its members; reading or releasing one that was released is
  undefined behaviour.  As before \<open>None\<close> is undefined behaviour or a call that does not return.
\<close>

named_theorems group_simps "reading the state after an operation"

section \<open>Objects\<close>

type_synonym addr = nat
type_synonym groups = "addr opal_hash_table"

record heap =
  lists :: "addr \<rightharpoonup> string list"
  fresh :: addr

text \<open>
  \<^verbatim>\<open>OBJ_NEW\<close> and \<^verbatim>\<open>OBJ_RELEASE\<close> of an \<^verbatim>\<open>opal_list_t\<close>.  The size of a request for a
  small object only serves to ask the allocator whether it succeeds.
\<close>

definition object_size :: nat where "object_size = 64"

definition new_list :: "allocator \<Rightarrow> heap \<Rightarrow> addr option \<times> heap" where
  "new_list mem h =
     (if mem object_size
      then (Some (fresh h), h\<lparr>lists := (lists h)(fresh h \<mapsto> []), fresh := fresh h + 1\<rparr>)
      else (None, h))"

definition release :: "heap \<Rightarrow> addr \<Rightarrow> heap option" where
  "release h a = (if lists h a = None then None else Some (h\<lparr>lists := (lists h)(a := None)\<rparr>))"

text \<open>The strings of a NULL-terminated vector, and the bytes of a key up to its NUL.\<close>

fun argv_list :: "argv \<Rightarrow> string list option" where
  "argv_list None = Some []"
| "argv_list (Some b) = map_option (\<lambda>_. strings b) (count_cells b)"

definition cstr_key :: "byte list \<Rightarrow> byte list" where
  "cstr_key k = takeWhile (\<lambda>b. b \<noteq> 0) k @ [0]"

definition HASH_SIZE :: nat where "HASH_SIZE = 1000"

section \<open>Adding members\<close>

definition orcm_logical_group_hash_table_get ::
  "allocator \<Rightarrow> heap \<Rightarrow> groups \<Rightarrow> string \<Rightarrow> (status \<times> addr option \<times> heap \<times> groups) option" where
  "orcm_logical_group_hash_table_get mem h groups tag =
     do { (erri, group_members, groups) \<leftarrow> opal_hash_table_get_value_ptr groups (cstr_bytes tag);
          if erri = ERR_NOT_FOUND \<or> group_members = None
          then case new_list mem h of
                 (None, h) \<Rightarrow> Some (ERR_OUT_OF_RESOURCE, None, h, groups)
               | (Some a, h) \<Rightarrow> Some (SUCCESS, Some a, h, groups)
          else Some (SUCCESS, group_members, h, groups) }"

fun member_exist :: "string list \<Rightarrow> string \<Rightarrow> bool" where
  "member_exist [] new_member = False"
| "member_exist (m # ms) new_member =
     (if strncmp_eq m new_member (length m + 1) then True else member_exist ms new_member)"

definition orcm_logical_group_list_append ::
  "allocator \<Rightarrow> string \<Rightarrow> string list \<Rightarrow> status \<times> string list" where
  "orcm_logical_group_list_append mem member member_list =
     (if \<not> mem object_size \<or> \<not> mem (length member + 1) then (ERR_OUT_OF_RESOURCE, member_list)
      else (SUCCESS, member_list @ [member]))"

fun add_members :: "allocator \<Rightarrow> string list \<Rightarrow> string list \<Rightarrow> status \<times> string list" where
  "add_members mem [] group_members = (SUCCESS, group_members)"
| "add_members mem (m # ms) group_members =
     (if \<not> member_exist group_members m
      then case orcm_logical_group_list_append mem m group_members of
             (erri, group_members) \<Rightarrow>
               if erri \<noteq> SUCCESS then (erri, group_members)
               else add_members mem ms group_members
      else add_members mem ms group_members)"

definition orcm_logical_group_add_internal ::
  "allocator \<Rightarrow> string \<Rightarrow> argv \<Rightarrow> addr \<Rightarrow> heap \<Rightarrow> groups \<Rightarrow> (status \<times> heap \<times> groups) option" where
  "orcm_logical_group_add_internal mem tag new_members group_members h io_groups =
     do { ms \<leftarrow> argv_list new_members;
          l \<leftarrow> lists h group_members;
          let (erri, l) = add_members mem ms l;
          let h = h\<lparr>lists := (lists h)(group_members \<mapsto> l)\<rparr>;
          if erri = SUCCESS
          then do { (erri, io_groups) \<leftarrow>
                      opal_hash_table_set_value_ptr mem io_groups (cstr_bytes tag) group_members;
                    Some (erri, h, io_groups) }
          else Some (erri, h, io_groups) }"

text \<open>
  \<^verbatim>\<open>orcm_logical_group_add\<close>.  A NULL tag is dereferenced, a NULL table is refused.  On any error the
  list object is released, also when the table still points to it.
\<close>

definition orcm_logical_group_add ::
  "allocator \<Rightarrow> bool \<Rightarrow> string option \<Rightarrow> string option \<Rightarrow> heap \<Rightarrow> groups option
     \<Rightarrow> (status \<times> heap \<times> groups option) option" where
  "orcm_logical_group_add mem erange tag regex h io_groups =
     (case io_groups of
        None \<Rightarrow> Some (ERR_BAD_PARAM, h, None)
      | Some io_groups \<Rightarrow>
          do { tag \<leftarrow> tag;
               (erri, group_members, h, io_groups) \<leftarrow>
                 orcm_logical_group_hash_table_get mem h io_groups tag;
               if erri \<noteq> SUCCESS then Some (erri, h, Some io_groups)
               else
                 do { (erri, new_members) \<leftarrow> orte_regex_extract_node_names mem erange regex None;
                      group_members \<leftarrow> group_members;
                      (erri, h, io_groups) \<leftarrow>
                        (if erri \<noteq> SUCCESS then Some (erri, h, io_groups)
                         else orcm_logical_group_add_internal mem tag new_members group_members h io_groups);
                      if erri \<noteq> SUCCESS
                      then do { h \<leftarrow> release h group_members; Some (erri, h, Some io_groups) }
                      else Some (SUCCESS, h, Some io_groups) } })"

section \<open>Removing members\<close>

definition is_do_all_wildcard :: "string option \<Rightarrow> bool" where
  "is_do_all_wildcard text =
     (case text of None \<Rightarrow> False | Some t \<Rightarrow> strncmp_eq t ''*'' (length t + 1))"

fun all_members_exist :: "string list \<Rightarrow> string list \<Rightarrow> status" where
  "all_members_exist value [] = SUCCESS"
| "all_members_exist value (m # ms) =
     (if \<not> member_exist value m then ERR_NODE_NOT_EXIST else all_members_exist value ms)"

definition orcm_logical_group_all_members_exist_one_tag ::
  "heap \<Rightarrow> addr \<Rightarrow> argv \<Rightarrow> status option" where
  "orcm_logical_group_all_members_exist_one_tag h value members =
     do { ms \<leftarrow> argv_list members; l \<leftarrow> lists h value; Some (all_members_exist l ms) }"

text \<open>
  The loops over the table go from one element to the next with \<open>get_next_key_ptr\<close>; the fuel is the
  number of elements and one more, since every round moves on by a slot.
\<close>

fun exist_all_tags :: "nat \<Rightarrow> heap \<Rightarrow> groups \<Rightarrow> argv \<Rightarrow> nat option \<Rightarrow> status option" where
  "exist_all_tags 0 h groups members in_member = None"
| "exist_all_tags (Suc fuel) h groups members in_member =
     (case opal_hash_table_get_next_key_ptr groups in_member of
        (_, None) \<Rightarrow> Some SUCCESS
      | (_, Some (key, value, out_member)) \<Rightarrow>
          do { erri \<leftarrow> orcm_logical_group_all_members_exist_one_tag h value members;
               if erri \<noteq> SUCCESS then Some erri
               else exist_all_tags fuel h groups members (Some out_member) })"

definition orcm_logical_group_all_members_exist_all_tags ::
  "heap \<Rightarrow> groups \<Rightarrow> argv \<Rightarrow> status option" where
  "orcm_logical_group_all_members_exist_all_tags h groups members =
     exist_all_tags (ht_capacity groups + 1) h groups members None"

text \<open>The inner loop of the removal takes out the first member that is equal.\<close>

fun remove_member :: "string \<Rightarrow> string list \<Rightarrow> string list" where
  "remove_member m [] = []"
| "remove_member m (x # xs) =
     (if strncmp_eq m x (length m + 1) then xs else x # remove_member m xs)"

definition orcm_logical_group_hash_table_remove_members ::
  "allocator \<Rightarrow> byte list \<Rightarrow> addr \<Rightarrow> argv \<Rightarrow> heap \<Rightarrow> groups \<Rightarrow> (status \<times> heap \<times> groups) option" where
  "orcm_logical_group_hash_table_remove_members mem tag value members h io_groups =
     do { ms \<leftarrow> argv_list members;
          l \<leftarrow> lists h value;
          let l = fold remove_member ms l;
          let h = h\<lparr>lists := (lists h)(value \<mapsto> l)\<rparr>;
          if l = []
          then do { (erri, io_groups) \<leftarrow> opal_hash_table_remove_value_ptr io_groups (cstr_key tag);
                    Some (erri, h, io_groups) }
          else do { (erri, io_groups) \<leftarrow> opal_hash_table_set_value_ptr mem io_groups (cstr_key tag) value;
                    Some (erri, h, io_groups) } }"

fun remove_from_all ::
  "nat \<Rightarrow> allocator \<Rightarrow> argv \<Rightarrow> heap \<Rightarrow> groups \<Rightarrow> nat option \<Rightarrow> (status \<times> heap \<times> groups) option" where
  "remove_from_all 0 mem members h io_groups in_member = None"
| "remove_from_all (Suc fuel) mem members h io_groups in_member =
     (case opal_hash_table_get_next_key_ptr io_groups in_member of
        (_, None) \<Rightarrow> Some (SUCCESS, h, io_groups)
      | (_, Some (key, value, out_member)) \<Rightarrow>
          do { (erri, h, io_groups) \<leftarrow>
                 orcm_logical_group_hash_table_remove_members mem key value members h io_groups;
               if erri \<noteq> SUCCESS then Some (erri, h, io_groups)
               else remove_from_all fuel mem members h io_groups (Some out_member) })"

definition orcm_logical_group_remove_all_tags ::
  "allocator \<Rightarrow> argv \<Rightarrow> bool \<Rightarrow> heap \<Rightarrow> groups \<Rightarrow> (status \<times> heap \<times> groups) option" where
  "orcm_logical_group_remove_all_tags mem members do_all_member h io_groups =
     (if do_all_member
      then let (erri, io_groups) = opal_hash_table_remove_all io_groups in Some (erri, h, io_groups)
      else
        do { erri \<leftarrow> orcm_logical_group_all_members_exist_all_tags h io_groups members;
             if erri \<noteq> SUCCESS then Some (erri, h, io_groups)
             else remove_from_all (ht_capacity io_groups + 1) mem members h io_groups None })"

definition orcm_logical_group_remove_a_tag ::
  "allocator \<Rightarrow> string \<Rightarrow> argv \<Rightarrow> bool \<Rightarrow> heap \<Rightarrow> groups \<Rightarrow> (status \<times> heap \<times> groups) option" where
  "orcm_logical_group_remove_a_tag mem tag members do_all_member h io_groups =
     do { (erri, value, io_groups) \<leftarrow> opal_hash_table_get_value_ptr io_groups (cstr_bytes tag);
          if erri = SUCCESS
          then if do_all_member
               then do { (erri, io_groups) \<leftarrow> opal_hash_table_remove_value_ptr io_groups (cstr_bytes tag);
                         Some (erri, h, io_groups) }
               else do { value \<leftarrow> value;
                         erri \<leftarrow> orcm_logical_group_all_members_exist_one_tag h value members;
                         if erri \<noteq> SUCCESS then Some (erri, h, io_groups)
                         else orcm_logical_group_hash_table_remove_members mem (cstr_bytes tag) value
                                members h io_groups }
          else if erri = ERR_NOT_FOUND then Some (ERR_GROUP_NOT_EXIST, h, io_groups)
          else Some (erri, h, io_groups) }"

definition orcm_logical_group_remove_internal ::
  "allocator \<Rightarrow> string \<Rightarrow> bool \<Rightarrow> argv \<Rightarrow> bool \<Rightarrow> heap \<Rightarrow> groups \<Rightarrow> (status \<times> heap \<times> groups) option" where
  "orcm_logical_group_remove_internal mem tag do_all_tag members do_all_member h io_groups =
     (if do_all_tag then orcm_logical_group_remove_all_tags mem members do_all_member h io_groups
      else orcm_logical_group_remove_a_tag mem tag members do_all_member h io_groups)"

definition orcm_logical_group_remove ::
  "allocator \<Rightarrow> bool \<Rightarrow> string \<Rightarrow> string option \<Rightarrow> heap \<Rightarrow> groups option
     \<Rightarrow> (status \<times> heap \<times> groups option) option" where
  "orcm_logical_group_remove mem erange tag regex h io_groups =
     (case io_groups of
        None \<Rightarrow> Some (ERR_BAD_PARAM, h, None)
      | Some io_groups \<Rightarrow>
          if opal_hash_table_get_size io_groups = 0 then Some (ERR_NO_ANY_GROUP, h, Some io_groups)
          else
            let do_all_tag = is_do_all_wildcard (Some tag);
                do_all_member = is_do_all_wildcard regex
            in do { (erri, members) \<leftarrow>
                      (if do_all_member then Some (SUCCESS, None)
                       else orte_regex_extract_node_names mem erange regex None);
                    if erri \<noteq> SUCCESS then Some (erri, h, Some io_groups)
                    else do { (erri, h, io_groups) \<leftarrow>
                                orcm_logical_group_remove_internal mem tag do_all_tag members
                                  do_all_member h io_groups;
                              Some (erri, h, Some io_groups) } })"

section \<open>Listing members\<close>

fun specific_members :: "allocator \<Rightarrow> string list \<Rightarrow> string list \<Rightarrow> string list \<Rightarrow> string list" where
  "specific_members mem value [] new_value = new_value"
| "specific_members mem value (m # ms) new_value =
     (case List.find (\<lambda>x. strncmp_eq m x (length m + 1)) value of
        None \<Rightarrow> specific_members mem value ms new_value
      | Some x \<Rightarrow>
          specific_members mem value ms (snd (orcm_logical_group_list_append mem x new_value)))"

text \<open>The new list object, or NULL; an empty one is released, which also clears the pointer.\<close>

definition orcm_logical_group_list_specific_members ::
  "allocator \<Rightarrow> addr \<Rightarrow> argv \<Rightarrow> heap \<Rightarrow> (addr option \<times> heap) option" where
  "orcm_logical_group_list_specific_members mem value members h =
     do { ms \<leftarrow> argv_list members;
          if ms = [] then Some (None, h)
          else case new_list mem h of
                 (None, h) \<Rightarrow> Some (None, h)
               | (Some a, h) \<Rightarrow>
                   do { l \<leftarrow> lists h value;
                        let l' = specific_members mem l ms [];
                        if l' = [] then do { h \<leftarrow> release h a; Some (None, h) }
                        else Some (Some a, h\<lparr>lists := (lists h)(a \<mapsto> l')\<rparr>) } }"

fun list_all_tags_loop ::
  "nat \<Rightarrow> allocator \<Rightarrow> argv \<Rightarrow> groups \<Rightarrow> nat option \<Rightarrow> heap \<Rightarrow> groups \<Rightarrow> (heap \<times> groups) option" where
  "list_all_tags_loop 0 mem members groups in_member h o_groups = None"
| "list_all_tags_loop (Suc fuel) mem members groups in_member h o_groups =
     (case opal_hash_table_get_next_key_ptr groups in_member of
        (_, None) \<Rightarrow> Some (h, o_groups)
      | (_, Some (key, value, o_member)) \<Rightarrow>
          do { (new_value, h) \<leftarrow> orcm_logical_group_list_specific_members mem value members h;
               o_groups \<leftarrow>
                 (case new_value of
                    None \<Rightarrow> Some o_groups
                  | Some a \<Rightarrow> map_option snd (opal_hash_table_set_value_ptr mem o_groups key a));
               list_all_tags_loop fuel mem members groups (Some o_member) h o_groups })"

text \<open>
  The listing functions return a table: the given one itself when everything is listed, a new one
  otherwise, NULL (\<open>None\<close> inside) when there is none.  A new table is only built when
  \<^verbatim>\<open>OBJ_NEW\<close> succeeds; the status of its initialisation is ignored.
\<close>

definition orcm_logical_group_list_all_tags ::
  "allocator \<Rightarrow> argv \<Rightarrow> bool \<Rightarrow> heap \<Rightarrow> groups \<Rightarrow> (groups option \<times> heap) option" where
  "orcm_logical_group_list_all_tags mem members do_all_member h groups =
     (if do_all_member then Some (Some groups, h)
      else if \<not> mem object_size then Some (None, h)
      else
        do { (h, o_groups) \<leftarrow> list_all_tags_loop (ht_capacity groups + 1) mem members groups None h
               (snd (opal_hash_table_init mem opal_hash_table_construct HASH_SIZE));
             Some (Some o_groups, h) })"

definition orcm_logical_group_list_a_tag ::
  "allocator \<Rightarrow> string \<Rightarrow> argv \<Rightarrow> bool \<Rightarrow> heap \<Rightarrow> groups \<Rightarrow> (groups option \<times> heap) option" where
  "orcm_logical_group_list_a_tag mem tag members do_all_member h groups =
     do { (erri, value, groups) \<leftarrow> opal_hash_table_get_value_ptr groups (cstr_bytes tag);
          if erri \<noteq> SUCCESS \<or> \<not> mem object_size then Some (None, h)
          else
            let o_groups = snd (opal_hash_table_init mem opal_hash_table_construct HASH_SIZE)
            in do { value \<leftarrow> value;
                    if do_all_member
                    then do { (erri, o_groups) \<leftarrow>
                                opal_hash_table_set_value_ptr mem o_groups (cstr_bytes tag) value;
                              Some (Some o_groups, h) }
                    else
                      do { (new_value, h) \<leftarrow> orcm_logical_group_list_specific_members mem value members h;
                           case new_value of
                             None \<Rightarrow> Some (Some o_groups, h)
                           | Some a \<Rightarrow>
                               do { (erri, o_groups) \<leftarrow>
                                      opal_hash_table_set_value_ptr mem o_groups (cstr_bytes tag) a;
                                    Some (Some o_groups, h) } } } }"

definition orcm_logical_group_list_internal ::
  "allocator \<Rightarrow> string \<Rightarrow> bool \<Rightarrow> argv \<Rightarrow> bool \<Rightarrow> heap \<Rightarrow> groups \<Rightarrow> (groups option \<times> heap) option" where
  "orcm_logical_group_list_internal mem tag do_all_tag members do_all_member h groups =
     (if do_all_tag then orcm_logical_group_list_all_tags mem members do_all_member h groups
      else orcm_logical_group_list_a_tag mem tag members do_all_member h groups)"

definition orcm_logical_group_list ::
  "allocator \<Rightarrow> bool \<Rightarrow> string \<Rightarrow> string option \<Rightarrow> heap \<Rightarrow> groups option \<Rightarrow> (groups option \<times> heap) option" where
  "orcm_logical_group_list mem erange tag regex h groups =
     (case groups of
        None \<Rightarrow> Some (None, h)
      | Some groups \<Rightarrow>
          let do_all_tag = is_do_all_wildcard (Some tag);
              do_all_member = is_do_all_wildcard regex
          in do { (erri, members) \<leftarrow>
                    (if do_all_member then Some (SUCCESS, None)
                     else orte_regex_extract_node_names mem erange regex None);
                  if erri \<noteq> SUCCESS then Some (None, h)
                  else orcm_logical_group_list_internal mem tag do_all_tag members do_all_member h groups })"

section \<open>What the state stands for\<close>

definition group_map :: "heap \<Rightarrow> groups \<Rightarrow> string \<rightharpoonup> string list" where
  "group_map h ht tag =
     (case ht_map ht (KeyPtr (cstr_bytes tag)) of None \<Rightarrow> None | Some a \<Rightarrow> lists h a)"

definition cstring :: "string \<Rightarrow> bool" where
  "cstring s \<longleftrightarrow> CHR 0x00 \<notin> set s"

text \<open>
  The invariant: the table is well formed, its keys are the bytes of C strings, and its values are distinct
  live list objects without repeated members.
\<close>

definition groups_ok :: "heap \<Rightarrow> groups \<Rightarrow> bool" where
  "groups_ok h ht \<longleftrightarrow> table_ok Methods_ptr ht \<and>
     (\<forall>b a. ht_map ht (KeyPtr b) = Some a \<longrightarrow>
        (\<exists>t. b = cstr_bytes t \<and> cstring t) \<and> a < fresh h \<and> (\<exists>l. lists h a = Some l \<and> distinct l)) \<and>
     (\<forall>b b' a. ht_map ht (KeyPtr b) = Some a \<longrightarrow> ht_map ht (KeyPtr b') = Some a \<longrightarrow> b = b')"

text \<open>Adding members one by one, each at the end and only if it is new.\<close>

definition add_new :: "string list \<Rightarrow> string list \<Rightarrow> string list" where
  "add_new ns l = fold (\<lambda>m l. if m \<in> set l then l else l @ [m]) ns l"

lemma add_new_simps [simp]:
  "add_new [] l = l"
  "add_new (m # ms) l = add_new ms (if m \<in> set l then l else l @ [m])"
  by (simp_all add: add_new_def)

lemma set_add_new: "set (add_new ns l) = set l \<union> set ns"
  by (induction ns arbitrary: l) auto

lemma distinct_add_new: "distinct l \<Longrightarrow> distinct (add_new ns l)"
  by (induction ns arbitrary: l) auto

lemma add_new_distinct: "distinct (l @ ns) \<Longrightarrow> add_new ns l = l @ ns"
  by (induction ns arbitrary: l) auto

lemma member_exist_iff: "member_exist l m \<longleftrightarrow> m \<in> set l"
  by (induction l) auto

lemma add_members_always: "add_members always ns l = (SUCCESS, add_new ns l)"
  by (induction ns arbitrary: l)
    (simp_all add: member_exist_iff orcm_logical_group_list_append_def object_size_def)

lemma all_members_exist_iff:
  "all_members_exist l ms = (if set ms \<subseteq> set l then SUCCESS else ERR_NODE_NOT_EXIST)"
  by (induction ms) (auto simp: member_exist_iff)

lemma remove_member_eq: "remove_member m l = remove1 m l"
  by (induction l) auto

lemma fold_remove1_filter:
  "distinct l \<Longrightarrow> fold remove_member ms l = filter (\<lambda>x. x \<notin> set ms) l"
proof (induction ms arbitrary: l)
  case (Cons m ms)
  then have "remove_member m l = filter (\<lambda>x. x \<noteq> m) l"
    by (simp add: remove_member_eq distinct_remove1_removeAll removeAll_filter_not_eq eq_commute)
  with Cons show ?case by (simp add: conj_commute)
qed simp

lemma argv_list_holds: "holds a xs \<Longrightarrow> argv_list a = Some xs"
  by (cases a) (auto elim: holdsE)

lemma cstr_key_cstr_bytes: "cstring t \<Longrightarrow> cstr_key (cstr_bytes t) = cstr_bytes t"
proof -
  assume t: "cstring t"
  have "char_byte c \<noteq> 0" if "c \<in> set t" for c
  proof
    assume "char_byte c = 0"
    moreover have "char_byte (CHR 0x00) = 0" by (simp add: char_byte_def)
    ultimately have "c = CHR 0x00" using char_byte_inj by metis
    with that t show False by (simp add: cstring_def)
  qed
  then have "takeWhile (\<lambda>b. b \<noteq> 0) (map char_byte t @ [0]) = map char_byte t"
    by (induction t) auto
  then show ?thesis by (simp add: cstr_key_def cstr_bytes_def)
qed

section \<open>Keeping the invariant\<close>

lemma groups_okD:
  assumes "groups_ok h ht"
  shows "table_ok Methods_ptr ht"
    and "ht_map ht (KeyPtr b) = Some a \<Longrightarrow> a < fresh h \<and> (\<exists>l. lists h a = Some l \<and> distinct l)"
    and "ht_map ht (KeyPtr b) = Some a \<Longrightarrow> \<exists>t. b = cstr_bytes t \<and> cstring t"
    and "ht_map ht (KeyPtr b) = Some a \<Longrightarrow> ht_map ht (KeyPtr b') = Some a \<Longrightarrow> b = b'"
  using assms by (auto simp: groups_ok_def)

lemma groups_okI:
  assumes "table_ok Methods_ptr ht"
    and "\<And>b a. ht_map ht (KeyPtr b) = Some a \<Longrightarrow> \<exists>t. b = cstr_bytes t \<and> cstring t"
    and "\<And>b a. ht_map ht (KeyPtr b) = Some a \<Longrightarrow> a < fresh h \<and> (\<exists>l. lists h a = Some l \<and> distinct l)"
    and "\<And>b b' a. ht_map ht (KeyPtr b) = Some a \<Longrightarrow> ht_map ht (KeyPtr b') = Some a \<Longrightarrow> b = b'"
  shows "groups_ok h ht"
  unfolding groups_ok_def using assms by blast

lemma groups_ok_same:
  assumes "groups_ok h ht" and "table_ok Methods_ptr ht'"
    and "(\<lambda>b. ht_map ht' (KeyPtr b)) = (\<lambda>b. ht_map ht (KeyPtr b))"
  shows "groups_ok h ht'" and "group_map h ht' = group_map h ht"
proof -
  have eq: "ht_map ht' (KeyPtr b) = ht_map ht (KeyPtr b)" for b using assms(3) by metis
  show "groups_ok h ht'" using assms(1,2) unfolding groups_ok_def eq by blast
  show "group_map h ht' = group_map h ht" by (rule ext) (simp add: group_map_def eq)
qed

text \<open>
  Writing the list object of a group and storing its address: the object is the group's own one, or a
  fresh one.
\<close>

lemma groups_ok_put:
  assumes ok: "groups_ok h ht" and t: "cstring tag" and ok': "table_ok Methods_ptr ht'"
    and look: "(\<lambda>b. ht_map ht' (KeyPtr b)) = (\<lambda>b. ht_map ht (KeyPtr b))(cstr_bytes tag \<mapsto> a)"
    and own: "\<And>b. ht_map ht (KeyPtr b) = Some a \<Longrightarrow> b = cstr_bytes tag"
    and heap: "lists h' = (lists h)(a \<mapsto> l)" "fresh h \<le> fresh h'" "a < fresh h'" "distinct l"
  shows "groups_ok h' ht'" and "group_map h' ht' = (group_map h ht)(tag \<mapsto> l)"
proof -
  have eq: "ht_map ht' (KeyPtr b) = (if b = cstr_bytes tag then Some a else ht_map ht (KeyPtr b))" for b
    using fun_cong [OF look, of b] by simp
  note D = groups_okD [OF ok]
  show "groups_ok h' ht'"
  proof (rule groups_okI [OF ok'])
    fix b c assume b: "ht_map ht' (KeyPtr b) = Some c"
    show "\<exists>t. b = cstr_bytes t \<and> cstring t"
      using b t D(3) [of b c] by (cases "b = cstr_bytes tag") (auto simp: eq)
    show "c < fresh h' \<and> (\<exists>l. lists h' c = Some l \<and> distinct l)"
      using b heap D(2) [of b c] by (cases "b = cstr_bytes tag"; cases "c = a") (auto simp: eq)
  next
    fix b b' c assume "ht_map ht' (KeyPtr b) = Some c" "ht_map ht' (KeyPtr b') = Some c"
    then show "b = b'"
      using own [of b] own [of b'] D(4) [of b c b'] by (auto simp: eq split: if_splits)
  qed
  have ne: "ht_map ht (KeyPtr (cstr_bytes t)) \<noteq> Some a" if "t \<noteq> tag" for t
    using own [of "cstr_bytes t"] that by auto
  show "group_map h' ht' = (group_map h ht)(tag \<mapsto> l)"
  proof
    fix t
    show "group_map h' ht' t = ((group_map h ht)(tag \<mapsto> l)) t"
      using ne [of t] heap(1)
      by (cases "t = tag") (auto simp: group_map_def eq split: option.splits)
  qed
qed

lemma groups_ok_drop:
  assumes ok: "groups_ok h ht" and ok': "table_ok Methods_ptr ht'"
    and look: "(\<lambda>b. ht_map ht' (KeyPtr b)) = (\<lambda>b. ht_map ht (KeyPtr b))(cstr_bytes tag := None)"
    and own: "\<And>b. ht_map ht (KeyPtr b) = Some a \<Longrightarrow> b = cstr_bytes tag"
    and heap: "lists h' = (lists h)(a := x)" "fresh h' = fresh h"
  shows "groups_ok h' ht'" and "group_map h' ht' = (group_map h ht)(tag := None)"
proof -
  have eq: "ht_map ht' (KeyPtr b) = (if b = cstr_bytes tag then None else ht_map ht (KeyPtr b))" for b
    using fun_cong [OF look, of b] by simp
  note D = groups_okD [OF ok]
  have old: "ht_map ht (KeyPtr b) = Some c \<and> c \<noteq> a" if "ht_map ht' (KeyPtr b) = Some c" for b c
    using that own [of b] by (auto simp: eq split: if_splits)
  show "groups_ok h' ht'"
  proof (rule groups_okI [OF ok'])
    fix b c assume b: "ht_map ht' (KeyPtr b) = Some c"
    show "\<exists>t. b = cstr_bytes t \<and> cstring t" using old [OF b] D(3) by blast
    show "c < fresh h' \<and> (\<exists>l. lists h' c = Some l \<and> distinct l)"
      using old [OF b] D(2) [of b c] heap by auto
  next
    fix b b' c assume "ht_map ht' (KeyPtr b) = Some c" "ht_map ht' (KeyPtr b') = Some c"
    then show "b = b'" using old D(4) by blast
  qed
  have ne: "ht_map ht (KeyPtr (cstr_bytes t)) \<noteq> Some a" if "t \<noteq> tag" for t
    using own [of "cstr_bytes t"] that by auto
  show "group_map h' ht' = (group_map h ht)(tag := None)"
  proof
    fix t
    show "group_map h' ht' t = ((group_map h ht)(tag := None)) t"
      using ne [of t] heap(1)
      by (cases "t = tag") (auto simp: group_map_def eq split: option.splits)
  qed
qed

lemma get_tag:
  assumes "groups_ok h ht"
  shows "\<exists>ht'. opal_hash_table_get_value_ptr ht (cstr_bytes tag) =
      Some (if group_map h ht tag = None then ERR_NOT_FOUND else SUCCESS,
            ht_map ht (KeyPtr (cstr_bytes tag)), ht') \<and>
    groups_ok h ht' \<and> group_map h ht' = group_map h ht \<and>
    (\<lambda>b. ht_map ht' (KeyPtr b)) = (\<lambda>b. ht_map ht (KeyPtr b))"
proof -
  obtain ht' where "opal_hash_table_get_value_ptr ht (cstr_bytes tag) =
      Some (if ht_map ht (KeyPtr (cstr_bytes tag)) = None then ERR_NOT_FOUND else SUCCESS,
            ht_map ht (KeyPtr (cstr_bytes tag)), ht')"
      "table_ok Methods_ptr ht'" "(\<lambda>b. ht_map ht' (KeyPtr b)) = (\<lambda>b. ht_map ht (KeyPtr b))"
    using ptr_dict.get_returns [OF groups_okD(1) [OF assms]] by blast
  moreover have "ht_map ht (KeyPtr (cstr_bytes tag)) = None \<longleftrightarrow> group_map h ht tag = None"
    using groups_okD(2) [OF assms] by (fastforce simp: group_map_def split: option.splits)
  ultimately show ?thesis
    using groups_ok_same [OF assms] by auto
qed

lemma group_map_None:
  "groups_ok h ht \<Longrightarrow> group_map h ht tag = None \<longleftrightarrow> ht_map ht (KeyPtr (cstr_bytes tag)) = None"
  using groups_okD(2) [of h ht] by (fastforce simp: group_map_def split: option.splits)

lemma group_map_Some:
  assumes "groups_ok h ht" and "group_map h ht tag = Some l"
  obtains a where "ht_map ht (KeyPtr (cstr_bytes tag)) = Some a" and "lists h a = Some l"
    and "distinct l" and "a < fresh h" and "\<forall>b. ht_map ht (KeyPtr b) = Some a \<longrightarrow> b = cstr_bytes tag"
proof -
  from assms(2) obtain a where a: "ht_map ht (KeyPtr (cstr_bytes tag)) = Some a" "lists h a = Some l"
    by (auto simp: group_map_def split: option.splits)
  from groups_okD(2) [OF assms(1) a(1)] a(2) have "a < fresh h" "distinct l" by auto
  with a groups_okD(4) [OF assms(1)] show thesis by (intro that [of a]) auto
qed

section \<open>Adding\<close>

lemma hash_table_get_cases:
  assumes ok: "groups_ok h ht"
  shows "\<exists>a h' ht'. orcm_logical_group_hash_table_get always h ht tag = Some (SUCCESS, Some a, h', ht') \<and>
    groups_ok h ht' \<and> group_map h ht' = group_map h ht \<and>
    (\<forall>b. ht_map ht' (KeyPtr b) = Some a \<longrightarrow> b = cstr_bytes tag) \<and> a < fresh h' \<and> fresh h \<le> fresh h' \<and>
    lists h' = (lists h)(a \<mapsto> (case group_map h ht tag of None \<Rightarrow> [] | Some l \<Rightarrow> l))"
proof -
  obtain ht' where get: "opal_hash_table_get_value_ptr ht (cstr_bytes tag) =
      Some (if group_map h ht tag = None then ERR_NOT_FOUND else SUCCESS,
            ht_map ht (KeyPtr (cstr_bytes tag)), ht')"
    and ok': "groups_ok h ht'" "group_map h ht' = group_map h ht"
    and look: "(\<lambda>b. ht_map ht' (KeyPtr b)) = (\<lambda>b. ht_map ht (KeyPtr b))"
    using get_tag [OF ok] by blast
  have eq: "ht_map ht' (KeyPtr b) = ht_map ht (KeyPtr b)" for b using look by metis
  show ?thesis
  proof (cases "group_map h ht tag")
    case None
    have "ht_map ht (KeyPtr b) \<noteq> Some (fresh h)" for b
      using groups_okD(2) [OF ok, of b "fresh h"] by auto
    with None get ok' eq show ?thesis
      by (simp add: orcm_logical_group_hash_table_get_def new_list_def object_size_def)
  next
    case (Some l)
    obtain a where a: "ht_map ht (KeyPtr (cstr_bytes tag)) = Some a" "lists h a = Some l" "distinct l"
        "a < fresh h" and own: "\<forall>b. ht_map ht (KeyPtr b) = Some a \<longrightarrow> b = cstr_bytes tag"
      by (rule group_map_Some [OF ok Some])
    have "orcm_logical_group_hash_table_get always h ht tag = Some (SUCCESS, Some a, h, ht')"
      using Some get a(1) by (simp add: orcm_logical_group_hash_table_get_def)
    moreover have "lists h = (lists h)(a \<mapsto> (case group_map h ht tag of None \<Rightarrow> [] | Some l \<Rightarrow> l))"
      using Some a(2) by (simp add: fun_upd_idem)
    moreover have "\<forall>b. ht_map ht' (KeyPtr b) = Some a \<longrightarrow> b = cstr_bytes tag"
      using own eq by simp
    ultimately show ?thesis
      using ok' a(4) by (intro exI [of _ a] exI [of _ h] exI [of _ ht'] conjI) simp_all
  qed
qed

lemma add_correct:
  assumes ok: "groups_ok h ht" and t: "cstring tag"
    and ns: "orte_regex_extract_node_names always e regex None = Some (SUCCESS, v)" "holds v ns"
  shows "\<exists>st h' ht'. orcm_logical_group_add always e (Some tag) regex h (Some ht) = Some (st, h', Some ht') \<and>
    st \<in> {SUCCESS, ERR_OUT_OF_RESOURCE} \<and> (group_map h ht tag \<noteq> None \<longrightarrow> st = SUCCESS) \<and>
    (st = SUCCESS \<longrightarrow> groups_ok h' ht' \<and>
       group_map h' ht' = (group_map h ht)
         (tag \<mapsto> add_new ns (case group_map h ht tag of None \<Rightarrow> [] | Some l \<Rightarrow> l)))"
proof -
  let ?l = "case group_map h ht tag of None \<Rightarrow> [] | Some l \<Rightarrow> l"
  obtain a h1 ht1 where get: "orcm_logical_group_hash_table_get always h ht tag = Some (SUCCESS, Some a, h1, ht1)"
    and ok1: "groups_ok h ht1" "group_map h ht1 = group_map h ht"
    and own: "\<And>b. ht_map ht1 (KeyPtr b) = Some a \<Longrightarrow> b = cstr_bytes tag"
    and h1: "a < fresh h1" "fresh h \<le> fresh h1" "lists h1 = (lists h)(a \<mapsto> ?l)"
    using hash_table_get_cases [OF ok, of tag] by blast
  have dl: "distinct ?l"
  proof (cases "group_map h ht tag")
    case (Some l)
    then show ?thesis using group_map_Some [OF ok Some] by simp
  qed simp
  let ?h2 = "h1\<lparr>lists := (lists h1)(a \<mapsto> add_new ns ?l)\<rparr>"
  obtain st ht2 where put: "opal_hash_table_set_value_ptr always ht1 (cstr_bytes tag) a = Some (st, ht2)"
    and st: "st \<in> {SUCCESS, ERR_OUT_OF_RESOURCE}" "st = SUCCESS \<longrightarrow> table_ok Methods_ptr ht2"
    and look: "(\<lambda>b. ht_map ht2 (KeyPtr b)) = (\<lambda>b. ht_map ht1 (KeyPtr b))(cstr_bytes tag \<mapsto> a)"
    using ptr_dict.put_returns [OF groups_okD(1) [OF ok1(1)], of always "cstr_bytes tag" a] by blast
  have pres: "st = SUCCESS" if "group_map h ht tag \<noteq> None"
  proof -
    from that obtain l where "group_map h ht1 tag = Some l" using ok1(2) by auto
    then obtain w where "ht_map ht1 (KeyPtr (cstr_bytes tag)) = Some w"
      by (rule group_map_Some [OF ok1(1)])
    from ptr_dict.put_present [OF groups_okD(1) [OF ok1(1)] this, of always a] put show ?thesis by auto
  qed
  have int: "orcm_logical_group_add_internal always tag v a h1 ht1 = Some (st, ?h2, ht2)"
    using h1(3) put argv_list_holds [OF ns(2)]
    by (simp add: orcm_logical_group_add_internal_def add_members_always Let_def)
  have fin: "groups_ok ?h2 ht2 \<and> group_map ?h2 ht2 = (group_map h ht)(tag \<mapsto> add_new ns ?l)"
    if "st = SUCCESS"
    using groups_ok_put [OF ok1(1) t _ look own, of ?h2 "add_new ns ?l"] st(2) that h1 ok1(2)
      distinct_add_new [OF dl] by auto
  show ?thesis
  proof (cases "st = SUCCESS")
    case True
    with get ns(1) int fin show ?thesis
      by (simp add: orcm_logical_group_add_def)
  next
    case False
    with get ns(1) int st(1) pres show ?thesis
      by (cases "group_map h ht tag") (simp_all add: orcm_logical_group_add_def release_def)
  qed
qed

text \<open>
  A table that has room for the new group takes it: the addition cannot fail, and uses up at most one
  place.
\<close>

definition room :: "nat \<Rightarrow> groups \<Rightarrow> bool" where
  "room n ht \<longleftrightarrow> ht_size ht + n < ht_growth_trigger ht"

lemma add_internal_room:
  assumes "orcm_logical_group_add_internal always tag v a h ht = Some (st, h', ht')" and "groups_ok h1 ht"
  shows "room 1 ht \<Longrightarrow> st = SUCCESS \<and> (\<forall>n. room (n + 1) ht \<longrightarrow> room n ht')"
    and "ht_map ht (KeyPtr (cstr_bytes tag)) = Some w \<Longrightarrow> room n ht' = room n ht"
proof -
  from assms(1) obtain ht2 where ht2: "opal_hash_table_set_value_ptr always ht (cstr_bytes tag) a = Some (st, ht2)"
      "ht' = ht2"
    by (auto simp: orcm_logical_group_add_internal_def add_members_always Let_def bind_eq_Some_conv)
  have wf: "wf_table ht" "keyed (key_methods (KeyPtr (cstr_bytes tag))) ht"
    using groups_okD(1) [OF assms(2)] by (auto simp: table_ok_def)
  show "room 1 ht \<Longrightarrow> st = SUCCESS \<and> (\<forall>n. room (n + 1) ht \<longrightarrow> room n ht')"
    using set_value_counters [of always ht "KeyPtr (cstr_bytes tag)" a st ht2] ht2 wf
    by (auto simp: opal_hash_table_set_value_ptr_def room_def)
  show "ht_map ht (KeyPtr (cstr_bytes tag)) = Some w \<Longrightarrow> room n ht' = room n ht"
    using set_value_present_counters [of always ht "KeyPtr (cstr_bytes tag)" a st ht2 w] ht2 wf
    by (auto simp: opal_hash_table_set_value_ptr_def room_def)
qed

lemma add_room:
  assumes "groups_ok h ht"
    and "orte_regex_extract_node_names always e regex None = Some (SUCCESS, v)"
    and "orcm_logical_group_add always e (Some tag) regex h (Some ht) = Some (st, h', Some ht')"
  shows "room 1 ht \<Longrightarrow> st = SUCCESS \<and> (\<forall>n. room (n + 1) ht \<longrightarrow> room n ht')"
    and "group_map h ht tag = Some l \<Longrightarrow> room n ht' = room n ht"
proof -
  obtain a h1 ht1 where get: "orcm_logical_group_hash_table_get always h ht tag = Some (SUCCESS, Some a, h1, ht1)"
    and ok1: "groups_ok h ht1" "group_map h ht1 = group_map h ht"
    using hash_table_get_cases [OF assms(1), of tag] by blast
  have same: "room n ht1 = room n ht" for n
  proof -
    obtain s r where "get_value ht (KeyPtr (cstr_bytes tag)) = Some (s, r, ht1)"
      using get by (auto simp: orcm_logical_group_hash_table_get_def opal_hash_table_get_value_ptr_def
          bind_eq_Some_conv new_list_def object_size_def split: if_splits)
    from get_value_counters [OF this] show ?thesis by (simp add: room_def)
  qed
  obtain st1 h2 ht2 where int: "orcm_logical_group_add_internal always tag v a h1 ht1 = Some (st1, h2, ht2)"
    using assms(2,3) get
    by (auto simp: orcm_logical_group_add_def bind_eq_Some_conv split: if_splits)
  have res: "st = st1 \<and> ht' = ht2"
    using assms(2,3) get int by (auto simp: orcm_logical_group_add_def bind_eq_Some_conv split: if_splits)
  show "room 1 ht \<Longrightarrow> st = SUCCESS \<and> (\<forall>n. room (n + 1) ht \<longrightarrow> room n ht')"
    using add_internal_room(1) [OF int ok1(1)] same res by auto
  show "room n ht' = room n ht" if l: "group_map h ht tag = Some l"
  proof -
    have "group_map h ht1 tag = Some l"
      using l ok1(2) by simp
    then obtain w where "ht_map ht1 (KeyPtr (cstr_bytes tag)) = Some w"
      by (auto simp: group_map_def split: option.splits)
    from add_internal_room(2) [OF int ok1(1) this] same res show ?thesis by simp
  qed
qed

section \<open>Removing\<close>

definition without :: "string list \<Rightarrow> string list \<Rightarrow> string list option" where
  "without ns l = (let l' = filter (\<lambda>x. x \<notin> set ns) l in if l' = [] then None else Some l')"

lemma remove_members_correct:
  assumes ok: "groups_ok h ht" and t: "cstring tag" and l: "group_map h ht tag = Some l"
    and a: "ht_map ht (KeyPtr (cstr_bytes tag)) = Some a" and ns: "holds members ns"
  shows "\<exists>h' ht'. orcm_logical_group_hash_table_remove_members always (cstr_bytes tag) a members h ht
      = Some (SUCCESS, h', ht') \<and> groups_ok h' ht' \<and>
    group_map h' ht' = (group_map h ht)(tag := without ns l)"
proof -
  obtain a' where a': "ht_map ht (KeyPtr (cstr_bytes tag)) = Some a'" "lists h a' = Some l" "distinct l"
      "a' < fresh h" and own: "\<forall>b. ht_map ht (KeyPtr b) = Some a' \<longrightarrow> b = cstr_bytes tag"
    by (rule group_map_Some [OF ok l])
  from a a'(1) have eq [simp]: "a' = a" by simp
  let ?l = "filter (\<lambda>x. x \<notin> set ns) l"
  let ?h = "h\<lparr>lists := (lists h)(a \<mapsto> ?l)\<rparr>"
  have run: "orcm_logical_group_hash_table_remove_members always (cstr_bytes tag) a members h ht =
      (if ?l = [] then do { (erri, ht) \<leftarrow> opal_hash_table_remove_value_ptr ht (cstr_bytes tag); Some (erri, ?h, ht) }
       else do { (erri, ht) \<leftarrow> opal_hash_table_set_value_ptr always ht (cstr_bytes tag) a; Some (erri, ?h, ht) })"
    using a' argv_list_holds [OF ns] cstr_key_cstr_bytes [OF t]
    by (simp add: orcm_logical_group_hash_table_remove_members_def fold_remove1_filter Let_def)
  have own': "b = cstr_bytes tag" if "ht_map ht (KeyPtr b) = Some a" for b
    using own that by simp
  have heap: "lists ?h = (lists h)(a := Some ?l)" "fresh ?h = fresh h" "fresh h \<le> fresh ?h" "a < fresh ?h"
      "distinct ?l"
    using a'(3,4) by simp_all
  show ?thesis
  proof (cases "?l = []")
    case True
    obtain ht' where ht': "opal_hash_table_remove_value_ptr ht (cstr_bytes tag) = Some (SUCCESS, ht')"
        "table_ok Methods_ptr ht'"
        "(\<lambda>b. ht_map ht' (KeyPtr b)) = (\<lambda>b. ht_map ht (KeyPtr b))(cstr_bytes tag := None)"
      using ptr_dict.remove_present [OF groups_okD(1) [OF ok] a] by blast
    have "orcm_logical_group_hash_table_remove_members always (cstr_bytes tag) a members h ht
        = Some (SUCCESS, ?h, ht')"
      unfolding run using True ht'(1) by simp
    moreover note post = groups_ok_drop [OF ok ht'(2,3) own' heap(1,2)]
    have "group_map ?h ht' = (group_map h ht)(tag := without ns l)"
      using post(2) True by (simp add: without_def)
    ultimately show ?thesis using post(1) by blast
  next
    case False
    obtain ht' where ht': "opal_hash_table_set_value_ptr always ht (cstr_bytes tag) a = Some (SUCCESS, ht')"
        "table_ok Methods_ptr ht'"
        "(\<lambda>b. ht_map ht' (KeyPtr b)) = (\<lambda>b. ht_map ht (KeyPtr b))(cstr_bytes tag \<mapsto> a)"
      using ptr_dict.put_present [OF groups_okD(1) [OF ok] a] by blast
    have "orcm_logical_group_hash_table_remove_members always (cstr_bytes tag) a members h ht
        = Some (SUCCESS, ?h, ht')"
      unfolding run using False ht'(1) by simp
    moreover note post = groups_ok_put [OF ok t ht'(2,3) own' heap(1,3,4,5)]
    have "group_map ?h ht' = (group_map h ht)(tag := without ns l)"
      using post(2) False by (simp add: without_def del: filter_empty_conv)
    ultimately show ?thesis using post(1) by blast
  qed
qed

lemma remove_a_tag_correct:
  assumes ok: "groups_ok h ht" and t: "cstring tag" and ns: "holds members ns"
  shows "\<exists>st h' ht'. orcm_logical_group_remove_a_tag always tag members False h ht = Some (st, h', ht') \<and>
    groups_ok h' ht' \<and>
    (case group_map h ht tag of
       None \<Rightarrow> st = ERR_GROUP_NOT_EXIST \<and> group_map h' ht' = group_map h ht
     | Some l \<Rightarrow>
         if set ns \<subseteq> set l then st = SUCCESS \<and> group_map h' ht' = (group_map h ht)(tag := without ns l)
         else st = ERR_NODE_NOT_EXIST \<and> group_map h' ht' = group_map h ht)"
proof -
  obtain ht1 where get: "opal_hash_table_get_value_ptr ht (cstr_bytes tag) =
      Some (if group_map h ht tag = None then ERR_NOT_FOUND else SUCCESS,
            ht_map ht (KeyPtr (cstr_bytes tag)), ht1)"
    and ok1: "groups_ok h ht1" "group_map h ht1 = group_map h ht"
      "(\<lambda>b. ht_map ht1 (KeyPtr b)) = (\<lambda>b. ht_map ht (KeyPtr b))"
    using get_tag [OF ok] by blast
  show ?thesis
  proof (cases "group_map h ht tag")
    case None
    with get ok1 show ?thesis by (simp add: orcm_logical_group_remove_a_tag_def)
  next
    case (Some l)
    obtain a where a: "ht_map ht (KeyPtr (cstr_bytes tag)) = Some a" "lists h a = Some l"
      by (rule group_map_Some [OF ok Some])
    have a1: "ht_map ht1 (KeyPtr (cstr_bytes tag)) = Some a" using a(1) ok1(3) by metis
    have run: "orcm_logical_group_remove_a_tag always tag members False h ht =
        (if set ns \<subseteq> set l
         then orcm_logical_group_hash_table_remove_members always (cstr_bytes tag) a members h ht1
         else Some (ERR_NODE_NOT_EXIST, h, ht1))"
      using get Some a argv_list_holds [OF ns]
      by (simp add: orcm_logical_group_remove_a_tag_def orcm_logical_group_all_members_exist_one_tag_def
          all_members_exist_iff)
    show ?thesis
    proof (cases "set ns \<subseteq> set l")
      case True
      with remove_members_correct [OF ok1(1) t _ a1 ns] Some ok1(2) run show ?thesis by auto
    next
      case False
      with run ok1 Some show ?thesis by simp
    qed
  qed
qed

section \<open>Properties\<close>

lemma wildcard_iff: "is_do_all_wildcard (Some t) \<longleftrightarrow> t = ''*''"
  by (simp add: is_do_all_wildcard_def)

text \<open>C7: Adding to a group.  When the member expression expands to the names \<open>ns\<close>, adding them returns
  success or, only for a new group that the table cannot take, an allocation error; on success exactly this
  group changes, to its old members followed by the new names that were not in it, in order and without
  repetition, and the table and its list objects stay well formed.\<close>

theorem group_add:
  assumes "groups_ok h ht" and "cstring tag"
    and "orte_regex_extract_node_names always e regex None = Some (SUCCESS, v)" and "holds v ns"
  shows "\<exists>st h' ht'. orcm_logical_group_add always e (Some tag) regex h (Some ht) = Some (st, h', Some ht') \<and>
    st \<in> {SUCCESS, ERR_OUT_OF_RESOURCE} \<and> (group_map h ht tag \<noteq> None \<longrightarrow> st = SUCCESS) \<and>
    (st = SUCCESS \<longrightarrow> groups_ok h' ht' \<and>
       group_map h' ht' = (group_map h ht)
         (tag \<mapsto> add_new ns (case group_map h ht tag of None \<Rightarrow> [] | Some l \<Rightarrow> l)))"
  using add_correct [OF assms] .

text \<open>C8: Removing from a group.  A group that does not exist, or a name that is not a member of it, is
  reported and nothing changes; otherwise exactly the given names leave the group, the group itself is
  deleted when it has no member left, and every other group is as before.\<close>

theorem group_remove:
  assumes "groups_ok h ht" and "cstring tag" and "tag \<noteq> ''*''" and "r \<noteq> ''*''" and "ht_size ht \<noteq> 0"
    and "orte_regex_extract_node_names always e (Some r) None = Some (SUCCESS, v)" and "holds v ns"
  shows "\<exists>st h' ht'. orcm_logical_group_remove always e tag (Some r) h (Some ht) = Some (st, h', Some ht') \<and>
    groups_ok h' ht' \<and>
    (case group_map h ht tag of
       None \<Rightarrow> st = ERR_GROUP_NOT_EXIST \<and> group_map h' ht' = group_map h ht
     | Some l \<Rightarrow>
         if set ns \<subseteq> set l then st = SUCCESS \<and> group_map h' ht' = (group_map h ht)(tag := without ns l)
         else st = ERR_NODE_NOT_EXIST \<and> group_map h' ht' = group_map h ht)"
proof -
  have run: "orcm_logical_group_remove always e tag (Some r) h (Some ht) =
      do { (erri, h, ht) \<leftarrow> orcm_logical_group_remove_a_tag always tag v False h ht;
           Some (erri, h, Some ht) }"
    using assms(3-6) by (simp add: orcm_logical_group_remove_def orcm_logical_group_remove_internal_def
        wildcard_iff opal_hash_table_get_size_def Let_def)
  obtain st h' ht' where res: "orcm_logical_group_remove_a_tag always tag v False h ht = Some (st, h', ht')"
    and post: "groups_ok h' ht' \<and>
    (case group_map h ht tag of
       None \<Rightarrow> st = ERR_GROUP_NOT_EXIST \<and> group_map h' ht' = group_map h ht
     | Some l \<Rightarrow>
         if set ns \<subseteq> set l then st = SUCCESS \<and> group_map h' ht' = (group_map h ht)(tag := without ns l)
         else st = ERR_NODE_NOT_EXIST \<and> group_map h' ht' = group_map h ht)"
    using remove_a_tag_correct [OF assms(1,2,7)] by blast
  from run res have "orcm_logical_group_remove always e tag (Some r) h (Some ht) = Some (st, h', Some ht')"
    by simp
  with post show ?thesis by blast
qed

text \<open>A state to apply the properties to: no group yet.\<close>

definition empty_heap :: heap where
  "empty_heap = \<lparr>lists = Map.empty, fresh = 0\<rparr>"

definition new_groups :: "nat \<Rightarrow> groups" where
  "new_groups n = snd (opal_hash_table_init always opal_hash_table_construct n)"

lemma new_groups_ok: "groups_ok empty_heap (new_groups 1)" "group_map empty_heap (new_groups 1) = Map.empty"
proof -
  have "fst (opal_hash_table_init always (opal_hash_table_construct :: groups) 1) = SUCCESS"
    by (simp add: opal_hash_table_init_def opal_hash_table_init2_def calloc_ok_def always_def
        opal_hash_round_capacity_up_def size_t_def)
  then have "opal_hash_table_init always opal_hash_table_construct 1 = (SUCCESS, new_groups 1)"
    by (simp add: new_groups_def prod_eq_iff)
  from table_ok_init [OF this, of Methods_ptr]
  have "table_ok Methods_ptr (new_groups 1)" "ht_map (new_groups 1) = Map.empty" by auto
  then show "groups_ok empty_heap (new_groups 1)" "group_map empty_heap (new_groups 1) = Map.empty"
    by (auto simp: groups_ok_def group_map_def)
qed

text \<open>Names without special characters stand for themselves, alone or separated by commas.\<close>

definition plain_name :: "string \<Rightarrow> bool" where
  "plain_name n \<longleftrightarrow> n \<noteq> [] \<and> (\<forall>c\<in>set n. \<not> special_char c)"

lemma extract_plain:
  assumes "\<forall>n\<in>set ns. plain_name n" and "ns \<noteq> []"
  shows "\<exists>v. orte_regex_extract_node_names always False (Some (join_with CHR '','' ns)) None
      = Some (SUCCESS, v) \<and> holds v ns"
proof -
  let ?nd = "\<lambda>n. orte_regex_node_construct\<lparr>nd_prefix := Some n\<rparr>"
  have nd: "node_text (?nd n) = n" "node_names (?nd n) = [n]" for n
    by (auto simp: node_text_def node_names_def orte_regex_node_construct_def)
  have "\<forall>nd\<in>set (map ?nd ns). wf_node nd"
    using assms(1) by (auto simp: plain_name_def wf_node_def orte_regex_node_construct_def)
  with extract_nodes_text [of "map ?nd ns" None "[]"] assms(2) show ?thesis
    by (auto simp: orte_regex_extract_node_names_def comp_def nd)
qed

lemma extract_single:
  assumes "n \<noteq> []" and "\<forall>c\<in>set n. \<not> special_char c"
  shows "\<exists>v. orte_regex_extract_node_names always False (Some n) None = Some (SUCCESS, v) \<and> holds v [n]"
  using extract_plain [of "[n]"] assms by (simp add: plain_name_def)

text \<open>A state with one group, for the witnesses.\<close>

lemma example_groups:
  "\<exists>h ht. groups_ok h ht \<and> group_map h ht = [''g'' \<mapsto> [''n1'']] \<and> ht_size ht = 1"
proof -
  obtain v where v: "orte_regex_extract_node_names always False (Some ''n1'') None = Some (SUCCESS, v)"
      "holds v [''n1'']"
    using extract_single [of "''n1''"] by (auto simp: special_char_def)
  have t: "cstring ''g''" by (simp add: cstring_def)
  have "map_option (\<lambda>(st, _, ht). (st, map_option ht_size ht))
      (orcm_logical_group_add always False (Some ''g'') (Some ''n1'') empty_heap (Some (new_groups 1)))
      = Some (SUCCESS, Some 1)"
    by code_simp
  with add_correct [OF new_groups_ok(1) t v] new_groups_ok(2)
  obtain h ht where "groups_ok h ht" "group_map h ht = [''g'' \<mapsto> [''n1'']]" "ht_size ht = 1"
    by auto
  then show ?thesis by (intro exI [of _ h] exI [of _ ht]) simp
qed

theorem group_add_witness:
  "\<exists>h ht h' ht'. group_map h ht = [''g'' \<mapsto> [''n1'']] \<and>
    orcm_logical_group_add always False (Some ''g'') (Some ''n2'') h (Some ht) = Some (SUCCESS, h', Some ht') \<and>
    group_map h' ht' = [''g'' \<mapsto> [''n1'', ''n2'']]"
proof -
  obtain h ht where s: "groups_ok h ht" "group_map h ht = [''g'' \<mapsto> [''n1'']]" using example_groups by blast
  obtain v where v: "orte_regex_extract_node_names always False (Some ''n2'') None = Some (SUCCESS, v)"
      "holds v [''n2'']"
    using extract_single [of "''n2''"] by (auto simp: special_char_def)
  have "cstring ''g''" by (simp add: cstring_def)
  from group_add [OF s(1) this v] s(2) show ?thesis by auto
qed

theorem group_remove_witness:
  "\<exists>h ht h' ht'. group_map h ht = [''g'' \<mapsto> [''n1'']] \<and>
    orcm_logical_group_remove always False ''g'' (Some ''n1'') h (Some ht) = Some (SUCCESS, h', Some ht') \<and>
    group_map h' ht' = Map.empty"
proof -
  obtain h ht where s: "groups_ok h ht" "group_map h ht = [''g'' \<mapsto> [''n1'']]" "ht_size ht \<noteq> 0"
    using example_groups by (metis zero_neq_one)
  obtain v where v: "orte_regex_extract_node_names always False (Some ''n1'') None = Some (SUCCESS, v)"
      "holds v [''n1'']"
    using extract_single [of "''n1''"] by (auto simp: special_char_def)
  have "cstring ''g''" by (simp add: cstring_def)
  from group_remove [OF s(1) this _ _ s(3) v] s(2) show ?thesis by (auto simp: without_def)
qed

text \<open>C35: A failed addition destroys the group.  When the member expression of an addition to an existing
  group is rejected, the group's list object is released although the table still points to it; the next
  addition to that group then uses the released object, whatever members it names.\<close>

theorem failed_add_dangles:
  assumes "groups_ok h ht" and "group_map h ht tag = Some l"
    and "orte_regex_extract_node_names always e regex None = Some (st, v)" and "st \<noteq> SUCCESS"
  shows "\<exists>h' ht'. orcm_logical_group_add always e (Some tag) regex h (Some ht) = Some (st, h', Some ht') \<and>
    (\<forall>regex' v'. orte_regex_extract_node_names always e regex' None = Some (SUCCESS, v') \<longrightarrow>
       orcm_logical_group_add always e (Some tag) regex' h' (Some ht') = None)"
proof -
  obtain a where a: "ht_map ht (KeyPtr (cstr_bytes tag)) = Some a" "lists h a = Some l"
    by (rule group_map_Some [OF assms(1,2)])
  obtain ht1 where get: "opal_hash_table_get_value_ptr ht (cstr_bytes tag) = Some (SUCCESS, Some a, ht1)"
    and ok1: "groups_ok h ht1" "(\<lambda>b. ht_map ht1 (KeyPtr b)) = (\<lambda>b. ht_map ht (KeyPtr b))"
    using get_tag [OF assms(1), of tag] assms(2) a(1) by auto
  have a1: "ht_map ht1 (KeyPtr (cstr_bytes tag)) = Some a" using a(1) ok1(2) by metis
  obtain ht2 where get2: "opal_hash_table_get_value_ptr ht1 (cstr_bytes tag) = Some (SUCCESS, Some a, ht2)"
    using ptr_dict.get_present [OF groups_okD(1) [OF ok1(1)] a1] by blast
  let ?h = "h\<lparr>lists := (lists h)(a := None)\<rparr>"
  have "orcm_logical_group_add always e (Some tag) regex h (Some ht) = Some (st, ?h, Some ht1)"
    using get assms(3,4) a(2)
    by (simp add: orcm_logical_group_add_def orcm_logical_group_hash_table_get_def release_def)
  moreover have "orcm_logical_group_add always e (Some tag) regex' ?h (Some ht1) = None"
    if "orte_regex_extract_node_names always e regex' None = Some (SUCCESS, v')" for regex' v'
    using get2 that
    by (simp add: orcm_logical_group_add_def orcm_logical_group_hash_table_get_def
        orcm_logical_group_add_internal_def bind_eq_None_conv)
  ultimately show ?thesis by blast
qed

theorem failed_add_dangles_witness:
  "\<exists>h ht h' ht'. group_map h ht = [''g'' \<mapsto> [''n1'']] \<and>
    orcm_logical_group_add always False (Some ''g'') (Some ''n[3]'') h (Some ht) = Some (ERR_BAD_PARAM, h', Some ht') \<and>
    orcm_logical_group_add always False (Some ''g'') (Some ''n2'') h' (Some ht') = None"
proof -
  obtain h ht where s: "groups_ok h ht" "group_map h ht = [''g'' \<mapsto> [''n1'']]" using example_groups by blast
  obtain v where v: "orte_regex_extract_node_names always False (Some ''n2'') None = Some (SUCCESS, v)"
    using extract_single [of "''n2''"] by (auto simp: special_char_def)
  have e: "orte_regex_extract_node_names always False (Some ''n[3]'') None = Some (ERR_BAD_PARAM, None)"
    by code_simp
  have "group_map h ht ''g'' = Some [''n1'']" using s(2) by simp
  from failed_add_dangles [OF s(1) this e] v s(2) show ?thesis by blast
qed

text \<open>Removing members from all groups skips groups.  The loop deletes groups from the table while it
  iterates over it; the table then moves a colliding group into the slot just visited, which the iteration
  does not visit again.  With the groups \<^verbatim>\<open>Aa\<close> and \<^verbatim>\<open>BB\<close>, whose hash codes are equal, removing
  their common member from all groups reports success and leaves it in \<^verbatim>\<open>BB\<close>.\<close>

theorem remove_from_all_skips:
  "do { (st1, h, t) \<leftarrow>
          orcm_logical_group_add always False (Some ''Aa'') (Some ''n1'') empty_heap (Some (new_groups 1));
        (st2, h, t) \<leftarrow> orcm_logical_group_add always False (Some ''BB'') (Some ''n1'') h t;
        (st3, h, t) \<leftarrow> orcm_logical_group_remove always False ''*'' (Some ''n1'') h t;
        t \<leftarrow> t;
        Some (st1, st2, st3, group_map h t ''Aa'', group_map h t ''BB'') }
   = Some (SUCCESS, SUCCESS, SUCCESS, None, Some [''n1''])"
  by code_simp

end
