(* ===== verification/Orcm_Group_Config.thy ===== *)
theory Orcm_Group_Config
  imports Orcm_Logical_Group
begin

text \<open>
  Loading and saving logical groups, the second half of \<^verbatim>\<open>orcm/util/logical_group.c\<close>: the
  interpretation of the parsed configuration section, and the section that is written back, whose member
  lines are cut to a maximal length.

  The XML parser is behind the \<^verbatim>\<open>orcm_parser\<close> interface; what it returns for the section, and the
  results of opening, closing and writing the file, are arguments of the definitions.
\<close>

section \<open>Configuration values\<close>

text \<open>An \<^verbatim>\<open>orcm_value_t\<close> with its key: a string, a nested list, or a value of another type.\<close>

datatype cfg = CStr string string | CPtr string "cfg list" | COther string

record group_state =
  gs_heap :: heap
  gs_groups :: "groups option"
  gs_current_tag :: "string option"

section \<open>Loading\<close>

definition orcm_logical_group_process_tag_line ::
  "allocator \<Rightarrow> string \<Rightarrow> string option \<Rightarrow> string option" where
  "orcm_logical_group_process_tag_line mem tag current_tag =
     (case current_tag of
        Some t \<Rightarrow> if strncmp_eq t tag (length t + 1) then current_tag
                  else if mem (length tag + 1) then Some tag else None
      | None \<Rightarrow> if mem (length tag + 1) then Some tag else None)"

text \<open>
  The loop over a list of values.  \<open>erri\<close> is the status of the last string value seen, which is what the
  function returns in the end: an error is overwritten by the next value.
\<close>

fun orcm_logical_group_parsing ::
  "allocator \<Rightarrow> bool \<Rightarrow> cfg list \<Rightarrow> status \<Rightarrow> group_state \<Rightarrow> (status \<times> group_state) option" where
  "orcm_logical_group_parsing mem erange [] erri s = Some (erri, s)"
| "orcm_logical_group_parsing mem erange (CStr key val # vs) erri s =
     (if key = ''name'' then
        orcm_logical_group_parsing mem erange vs SUCCESS
          (s\<lparr>gs_current_tag := orcm_logical_group_process_tag_line mem val (gs_current_tag s)\<rparr>)
      else if key = ''members'' then
        do { (erri, h, g) \<leftarrow>
               orcm_logical_group_add mem erange (gs_current_tag s) (Some val) (gs_heap s) (gs_groups s);
             orcm_logical_group_parsing mem erange vs erri (s\<lparr>gs_heap := h, gs_groups := g\<rparr>) }
      else orcm_logical_group_parsing mem erange vs ERR_BAD_PARAM s)"
| "orcm_logical_group_parsing mem erange (CPtr key sub # vs) erri s =
     (if key = ''group'' then
        do { (rc, s) \<leftarrow> orcm_logical_group_parsing mem erange sub SUCCESS s;
             if rc \<noteq> SUCCESS then Some (rc, s)
             else orcm_logical_group_parsing mem erange vs erri s }
      else Some (ERR_BAD_PARAM, s))"
| "orcm_logical_group_parsing mem erange (COther key # vs) erri s = Some (ERR_BAD_PARAM, s)"

fun parse_sections ::
  "allocator \<Rightarrow> bool \<Rightarrow> cfg list \<Rightarrow> group_state \<Rightarrow> (status \<times> group_state) option" where
  "parse_sections mem erange [] s = Some (SUCCESS, s)"
| "parse_sections mem erange (CPtr key sub # vs) s =
     (if key = ''logicalgroup'' then
        do { (rc, s) \<leftarrow> orcm_logical_group_parsing mem erange sub SUCCESS s;
             if rc \<noteq> SUCCESS then Some (rc, s) else parse_sections mem erange vs s }
      else parse_sections mem erange vs s)"
| "parse_sections mem erange (CStr key val # vs) s = Some (ERROR, s)"
| "parse_sections mem erange (COther key # vs) s = Some (ERROR, s)"

text \<open>\<open>section\<close> is what \<^verbatim>\<open>orcm_parser.retrieve_section\<close> returns, \<open>None\<close> for NULL.\<close>

definition orcm_logical_group_parse_from_file ::
  "allocator \<Rightarrow> bool \<Rightarrow> cfg list option \<Rightarrow> group_state \<Rightarrow> (status \<times> group_state) option" where
  "orcm_logical_group_parse_from_file mem erange result_list s =
     (case result_list of None \<Rightarrow> Some (ERR_NOT_FOUND, s) | Some vs \<Rightarrow> parse_sections mem erange vs s)"

text \<open>\<open>parser_open\<close> is the status of opening the file: \<open>SUCCESS\<close> for a descriptor.\<close>

definition orcm_logical_group_open_file :: "status \<Rightarrow> string option \<Rightarrow> status" where
  "orcm_logical_group_open_file parser_open storage_filename =
     (if storage_filename = None \<or> storage_filename = Some [] then ERR_FILE_OPEN_FAILURE
      else parser_open)"

definition orcm_logical_group_load_from_file ::
  "allocator \<Rightarrow> bool \<Rightarrow> status \<Rightarrow> cfg list option \<Rightarrow> status \<Rightarrow> string option \<Rightarrow> group_state
     \<Rightarrow> (status \<times> group_state) option" where
  "orcm_logical_group_load_from_file mem erange parser_open result_list parser_close storage_filename s =
     (if gs_groups s = None then Some (ERR_BAD_PARAM, s)
      else if orcm_logical_group_open_file parser_open storage_filename \<noteq> SUCCESS then Some (SUCCESS, s)
      else do { (erri, s) \<leftarrow> orcm_logical_group_parse_from_file mem erange result_list s;
                Some (if erri = SUCCESS then parser_close
                      else if erri = ERR_NOT_FOUND then SUCCESS else erri, s) })"

text \<open>
  \<^verbatim>\<open>orcm_logical_group_init\<close> and \<^verbatim>\<open>orcm_logical_group_load_to_memory\<close>: the file name
  defaults to a file of the installation prefix; the table starts empty.
\<close>

definition orcm_logical_group_init ::
  "allocator \<Rightarrow> string \<Rightarrow> string option \<Rightarrow> group_state \<Rightarrow> status \<times> string option \<times> group_state" where
  "orcm_logical_group_init mem prefix config_file s =
     (let filename = (case config_file of
            None \<Rightarrow> prefix @ ''/etc/orcm-default-config.xml''
          | Some f \<Rightarrow> f)
      in if \<not> mem (length filename + 1) then (ERR_OUT_OF_RESOURCE, None, s)
         else if \<not> mem object_size then (ERR_OUT_OF_RESOURCE, Some filename, s\<lparr>gs_groups := None\<rparr>)
         else case opal_hash_table_init mem opal_hash_table_construct HASH_SIZE of
                (erri, groups) \<Rightarrow> (erri, Some filename, s\<lparr>gs_groups := Some groups\<rparr>))"

definition orcm_logical_group_load_to_memory ::
  "allocator \<Rightarrow> bool \<Rightarrow> status \<Rightarrow> cfg list option \<Rightarrow> status \<Rightarrow> string \<Rightarrow> string option \<Rightarrow> group_state
     \<Rightarrow> (status \<times> group_state) option" where
  "orcm_logical_group_load_to_memory mem erange parser_open result_list parser_close prefix config_file s =
     (case orcm_logical_group_init mem prefix config_file s of
        (erri, filename, s) \<Rightarrow>
          if erri \<noteq> SUCCESS then Some (erri, s)
          else orcm_logical_group_load_from_file mem erange parser_open result_list parser_close filename s)"

text \<open>\<^verbatim>\<open>orcm_logical_group_finalize\<close>: the table is emptied and released.\<close>

definition orcm_logical_group_finalize :: "group_state \<Rightarrow> status \<times> group_state" where
  "orcm_logical_group_finalize s = (SUCCESS, s\<lparr>gs_groups := None, gs_current_tag := None\<rparr>)"

section \<open>Saving\<close>

text \<open>
  \<^verbatim>\<open>orcm_logical_group_do_convertion\<close>: the members are collected, with commas, in a buffer of
  \<open>reserved_size\<close> characters, which is flushed to the new list when the next member does not fit.  The
  test does not count the comma; a text that leaves no place for its NUL is written out of the buffer
  (outer \<open>None\<close>).  An inner \<open>None\<close> is the NULL returned when an allocation fails.
\<close>

definition append_text :: "nat \<Rightarrow> string \<Rightarrow> string \<Rightarrow> string option" where
  "append_text reserved_size memberlist m =
     (let t = (if memberlist \<noteq> [] then memberlist @ '','' else memberlist) @ m
      in if length t \<ge> reserved_size then None else Some t)"

definition convert_member ::
  "allocator \<Rightarrow> nat \<Rightarrow> string \<Rightarrow> string \<Rightarrow> string list \<Rightarrow> (string \<times> string list) option option" where
  "convert_member mem reserved_size m memberlist lines =
     (if reserved_size < length memberlist + length m + 1
      then case orcm_logical_group_list_append mem memberlist lines of
             (erri, lines) \<Rightarrow>
               if erri \<noteq> SUCCESS then Some None
               else map_option (\<lambda>t. Some (t, lines)) (append_text reserved_size [] m)
      else map_option (\<lambda>t. Some (t, lines)) (append_text reserved_size memberlist m))"

fun convert_loop ::
  "allocator \<Rightarrow> nat \<Rightarrow> string list \<Rightarrow> string \<Rightarrow> string list \<Rightarrow> string list option option" where
  "convert_loop mem reserved_size [] memberlist lines = Some (Some lines)"
| "convert_loop mem reserved_size (m # ms) memberlist lines =
     (case convert_member mem reserved_size m memberlist lines of
        None \<Rightarrow> None
      | Some None \<Rightarrow> Some None
      | Some (Some (memberlist, lines)) \<Rightarrow>
          if ms = [] \<and> memberlist \<noteq> []
          then case orcm_logical_group_list_append mem memberlist lines of
                 (erri, lines) \<Rightarrow> if erri \<noteq> SUCCESS then Some None else Some (Some lines)
          else convert_loop mem reserved_size ms memberlist lines)"

definition orcm_logical_group_do_convertion ::
  "allocator \<Rightarrow> string list \<Rightarrow> string \<Rightarrow> nat \<Rightarrow> string list option option" where
  "orcm_logical_group_do_convertion mem members_list memberlist reserved_size =
     (if \<not> mem object_size then Some None
      else convert_loop mem reserved_size members_list memberlist [])"

definition orcm_logical_group_convert_members_list ::
  "allocator \<Rightarrow> string list option \<Rightarrow> nat \<Rightarrow> string list option option" where
  "orcm_logical_group_convert_members_list mem members_list max_size =
     (case members_list of
        None \<Rightarrow> Some None
      | Some ms \<Rightarrow>
          if ms = [] \<or> max_size = 0 \<or> \<not> mem max_size then Some None
          else orcm_logical_group_do_convertion mem ms [] max_size)"

definition MAX_LINE_LENGTH :: nat where "MAX_LINE_LENGTH = 1024"

definition line_size :: nat where
  "line_size = MAX_LINE_LENGTH - length ''member list=''"

text \<open>
  \<^verbatim>\<open>orcm_logical_group_save_to_file_concat\<close>: one group of the section.  A list that cannot be
  converted is left out without an error.
\<close>

definition orcm_logical_group_save_to_file_concat ::
  "allocator \<Rightarrow> cfg list \<Rightarrow> string option \<Rightarrow> string list option \<Rightarrow> (status \<times> cfg list) option" where
  "orcm_logical_group_save_to_file_concat mem parser_input tag members_list =
     do { new_members_list \<leftarrow> orcm_logical_group_convert_members_list mem members_list line_size;
          case (tag, new_members_list) of
            (Some t, Some lines) \<Rightarrow>
              if \<not> mem object_size then Some (ERR_FILE_WRITE_FAILURE, parser_input)
              else Some (SUCCESS,
                     parser_input @ [CPtr ''group'' (CStr ''name'' t # map (CStr ''members'') lines)])
          | _ \<Rightarrow> Some (SUCCESS, parser_input) }"

text \<open>The C string at a key of the table.\<close>

definition key_string :: "byte list \<Rightarrow> string" where
  "key_string k = map (\<lambda>b. char_of (unat b)) (takeWhile (\<lambda>b. b \<noteq> 0) k)"

fun save_loop ::
  "nat \<Rightarrow> allocator \<Rightarrow> heap \<Rightarrow> groups \<Rightarrow> nat option \<Rightarrow> cfg list \<Rightarrow> (status \<times> cfg list) option" where
  "save_loop 0 mem h groups in_member parser_input = None"
| "save_loop (Suc fuel) mem h groups in_member parser_input =
     (case opal_hash_table_get_next_key_ptr groups in_member of
        (_, None) \<Rightarrow> Some (SUCCESS, parser_input)
      | (_, Some (key, value, out_member)) \<Rightarrow>
          do { l \<leftarrow> lists h value;
               (erri, parser_input) \<leftarrow>
                 orcm_logical_group_save_to_file_concat mem parser_input (Some (key_string key)) (Some l);
               if erri \<noteq> SUCCESS then Some (erri, parser_input)
               else save_loop fuel mem h groups (Some out_member) parser_input })"

text \<open>
  \<^verbatim>\<open>orcm_logical_group_save_to_file_internal\<close>: \<open>write_section\<close> is the parser's function,
  given the section to write or NULL; the result carries what was written, if anything.
\<close>

definition orcm_logical_group_save_to_file_internal ::
  "allocator \<Rightarrow> (cfg list option \<Rightarrow> status) \<Rightarrow> heap \<Rightarrow> groups \<Rightarrow> (status \<times> cfg list option option) option" where
  "orcm_logical_group_save_to_file_internal mem write_section h groups =
     (if \<not> mem object_size then Some (ERR_FILE_WRITE_FAILURE, None)
      else if opal_hash_table_get_size groups = 0 then Some (write_section None, Some None)
      else do { (erri, parser_input) \<leftarrow> save_loop (ht_capacity groups + 1) mem h groups None [];
                if erri = SUCCESS then Some (write_section (Some parser_input), Some (Some parser_input))
                else Some (erri, None) })"

text \<open>
  Creating the file with an empty section when it cannot be opened or has none; \<open>create\<close> is the status
  of creating it, \<open>reopen\<close> that of opening it then.  The two creations of a save are separate events with
  results of their own, \<open>(create1, reopen1)\<close> and \<open>(create2, reopen2)\<close>.
\<close>

definition orcm_logical_group_open_file_write_mode ::
  "status \<times> status \<Rightarrow> string option \<Rightarrow> status" where
  "orcm_logical_group_open_file_write_mode = (\<lambda>(create, reopen) storage_filename.
     if storage_filename = None \<or> storage_filename = Some [] then ERR_FILE_OPEN_FAILURE
     else if create = SUCCESS then orcm_logical_group_open_file reopen storage_filename
     else create)"

record file_events =
  parser_open :: status
  first_create :: "status \<times> status"
  second_create :: "status \<times> status"
  close_empty :: status
  retrieved :: "cfg list option"
  parser_close :: status

definition orcm_logical_group_open_file_with_logicalgroup_tag ::
  "file_events \<Rightarrow> string option \<Rightarrow> status" where
  "orcm_logical_group_open_file_with_logicalgroup_tag ev storage_filename =
     (let ret = orcm_logical_group_open_file (parser_open ev) storage_filename;
          ret = (if ret \<noteq> SUCCESS
                 then orcm_logical_group_open_file_write_mode (first_create ev) storage_filename else ret)
      in if ret \<noteq> SUCCESS then ret
         else if retrieved ev = None
         then if close_empty ev = SUCCESS
              then orcm_logical_group_open_file_write_mode (second_create ev) storage_filename
              else close_empty ev
         else SUCCESS)"

definition orcm_logical_group_save_to_file ::
  "allocator \<Rightarrow> (cfg list option \<Rightarrow> status) \<Rightarrow> file_events \<Rightarrow> string option \<Rightarrow> heap \<Rightarrow> groups option
     \<Rightarrow> (status \<times> cfg list option option) option" where
  "orcm_logical_group_save_to_file mem write_section ev storage_filename h groups =
     (case groups of
        None \<Rightarrow> Some (ERR_BAD_PARAM, None)
      | Some groups \<Rightarrow>
          let ret = orcm_logical_group_open_file_with_logicalgroup_tag ev storage_filename
          in if ret \<noteq> SUCCESS then Some (ret, None)
             else do { (erri, written) \<leftarrow>
                         orcm_logical_group_save_to_file_internal mem write_section h groups;
                       Some (if erri = SUCCESS then parser_close ev else erri, written) })"

section \<open>Member lines\<close>

text \<open>The lines of a list are its members, in order, cut into non-empty pieces.\<close>

lemma join_with_append:
  "xs \<noteq> [] \<Longrightarrow> ys \<noteq> [] \<Longrightarrow> join_with d (xs @ ys) = join_with d xs @ d # join_with d ys"
  by (induction xs rule: join_with.induct) (auto simp: join_with_Cons)

lemma join_with_eq_Nil: "\<forall>x\<in>set xs. x \<noteq> [] \<Longrightarrow> join_with d xs = [] \<longleftrightarrow> xs = []"
  by (induction xs rule: join_with.induct) auto

lemma list_append_always: "orcm_logical_group_list_append always x xs = (SUCCESS, xs @ [x])"
  by (simp add: orcm_logical_group_list_append_def object_size_def)

lemma append_text_Some:
  "append_text n b m = Some t \<longleftrightarrow>
     t = (if b = [] then m else b @ CHR '','' # m) \<and> length t < n"
  by (auto simp: append_text_def Let_def)

lemma convert_member_Some:
  assumes "convert_member always n m (join_with CHR '','' pend) lines = Some (Some (t, lines'))"
    and "\<forall>x\<in>set (m # pend). x \<noteq> []"
  shows "(lines' = lines \<and> t = join_with CHR '','' (pend @ [m])) \<or>
    (pend \<noteq> [] \<and> lines' = lines @ [join_with CHR '','' pend] \<and> t = m)"
proof (cases "n < length (join_with CHR '','' pend) + length m + 1")
  case True
  with assms show ?thesis
    by (cases "pend = []") (auto simp: convert_member_def list_append_always append_text_Some)
next
  case False
  with assms join_with_eq_Nil [of pend "CHR '',''"] show ?thesis
    by (cases "pend = []") (auto simp: convert_member_def append_text_Some join_with_append)
qed

lemma convert_loop_pieces:
  assumes "convert_loop always n ms (join_with CHR '','' pend) lines = Some (Some out)"
    and "ms \<noteq> []" and "\<forall>x\<in>set (pend @ ms). x \<noteq> []"
  shows "\<exists>ps. out = lines @ map (join_with CHR '','') ps \<and> concat ps = pend @ ms \<and> [] \<notin> set ps"
  using assms
proof (induction ms arbitrary: pend lines)
  case (Cons m ms)
  obtain t lines' where c: "convert_member always n m (join_with CHR '','' pend) lines = Some (Some (t, lines'))"
    using Cons.prems(1) by (auto split: option.splits)
  have ne: "\<forall>x\<in>set (m # pend). x \<noteq> []" using Cons.prems(3) by simp
  have t: "t \<noteq> []"
    using convert_member_Some [OF c ne] ne join_with_eq_Nil [of "pend @ [m]" "CHR '',''"] by auto
  obtain pend' ps where p: "t = join_with CHR '','' pend'" "lines' = lines @ map (join_with CHR '','') ps"
      "concat ps @ pend' = pend @ [m]" "[] \<notin> set ps" "pend' \<noteq> []"
  proof (cases "lines' = lines")
    case True
    then show ?thesis using convert_member_Some [OF c ne] that [of "pend @ [m]" "[]"] by auto
  next
    case False
    then show ?thesis using convert_member_Some [OF c ne] that [of "[m]" "[pend]"] by auto
  qed
  show ?case
  proof (cases "ms = []")
    case True
    then have "out = lines' @ [t]"
      using Cons.prems(1) c t by (simp add: list_append_always)
    with True p show ?thesis by (intro exI [of _ "ps @ [pend']"]) auto
  next
    case False
    then have "convert_loop always n ms (join_with CHR '','' pend') lines' = Some (Some out)"
      using Cons.prems(1) c p(1) by simp
    moreover have "\<forall>x\<in>set (pend' @ ms). x \<noteq> []"
    proof -
      have "set pend' \<subseteq> set (pend @ [m])" unfolding p(3) [symmetric] by simp
      with Cons.prems(3) show ?thesis by auto
    qed
    ultimately obtain ps' where "out = lines' @ map (join_with CHR '','') ps'" "concat ps' = pend' @ ms"
        "[] \<notin> set ps'"
      using Cons.IH [of pend' lines'] False by blast
    with p(2,3,4) show ?thesis
      by (intro exI [of _ "ps @ ps'"]) (auto simp flip: append_assoc)
  qed
qed simp

lemma convert_pieces:
  assumes "orcm_logical_group_convert_members_list always (Some ms) n = Some (Some lines)"
    and "\<forall>x\<in>set ms. x \<noteq> []"
  shows "\<exists>ps. lines = map (join_with CHR '','') ps \<and> concat ps = ms \<and> [] \<notin> set ps"
  using assms convert_loop_pieces [of n ms "[]" "[]" lines]
  by (auto simp: orcm_logical_group_convert_members_list_def orcm_logical_group_do_convertion_def
      object_size_def split: if_splits)

lemma convert_member_always: "convert_member always n m b lines \<noteq> Some None"
  by (auto simp: convert_member_def list_append_always)

lemma convert_loop_always: "convert_loop always n ms b lines \<noteq> Some None"
  using convert_member_always
  by (induction ms arbitrary: b lines) (auto simp: list_append_always split: option.splits)

lemma convert_always:
  assumes "ms \<noteq> []" and "0 < n" and "orcm_logical_group_convert_members_list always (Some ms) n \<noteq> None"
  shows "\<exists>lines. orcm_logical_group_convert_members_list always (Some ms) n = Some (Some lines)"
  using assms convert_loop_always [of n ms "[]" "[]"]
  by (auto simp: orcm_logical_group_convert_members_list_def orcm_logical_group_do_convertion_def
      object_size_def always_def)

section \<open>Reading back\<close>

definition member_values :: "string list list \<Rightarrow> cfg list" where
  "member_values ps = map (\<lambda>p. CStr ''members'' (join_with CHR '','' p)) ps"

definition group_value :: "string \<Rightarrow> string list list \<Rightarrow> cfg" where
  "group_value tag ps = CPtr ''group'' (CStr ''name'' tag # member_values ps)"

definition pieces_ok :: "string list list \<Rightarrow> bool" where
  "pieces_ok ps \<longleftrightarrow> [] \<notin> set ps \<and> (\<forall>n\<in>set (concat ps). plain_name n) \<and> distinct (concat ps)"

definition state_ok :: "group_state \<Rightarrow> groups \<Rightarrow> bool" where
  "state_ok s ht \<longleftrightarrow> gs_groups s = Some ht \<and> groups_ok (gs_heap s) ht"

abbreviation state_map :: "group_state \<Rightarrow> groups \<Rightarrow> string \<rightharpoonup> string list" where
  "state_map s ht \<equiv> group_map (gs_heap s) ht"

lemma parse_member:
  assumes s: "state_ok s ht" "gs_current_tag s = Some tag" "cstring tag"
    and p: "p \<noteq> []" "\<forall>n\<in>set p. plain_name n"
    and l: "l = (case state_map s ht tag of None \<Rightarrow> [] | Some l \<Rightarrow> l)" "distinct (l @ p)"
    and room: "state_map s ht tag = None \<longrightarrow> room 1 ht"
  shows "\<exists>s' ht'. orcm_logical_group_parsing always False (CStr ''members'' (join_with CHR '','' p) # vs) st s
      = orcm_logical_group_parsing always False vs SUCCESS s' \<and>
    state_ok s' ht' \<and> gs_current_tag s' = Some tag \<and>
    state_map s' ht' = (state_map s ht)(tag \<mapsto> l @ p) \<and>
    (\<forall>n. room (n + (if state_map s ht tag = None then 1 else 0)) ht \<longrightarrow> room n ht')"
proof -
  have ok: "groups_ok (gs_heap s) ht" "gs_groups s = Some ht" using s(1) by (auto simp: state_ok_def)
  obtain v where v: "orte_regex_extract_node_names always False (Some (join_with CHR '','' p)) None
      = Some (SUCCESS, v)" "holds v p"
    using extract_plain [OF p(2,1)] by blast
  obtain r h' ht' where add: "orcm_logical_group_add always False (Some tag) (Some (join_with CHR '','' p))
      (gs_heap s) (Some ht) = Some (r, h', Some ht')"
    and r: "state_map s ht tag \<noteq> None \<longrightarrow> r = SUCCESS"
    and m: "r = SUCCESS \<longrightarrow> groups_ok h' ht' \<and> group_map h' ht' = (state_map s ht)(tag \<mapsto> add_new p l)"
    using add_correct [OF ok(1) s(3) v] l(1) by blast
  note rooms = add_room [OF ok(1) v(1) add]
  have "r = SUCCESS" using r room rooms(1) by blast
  moreover have "room n ht'" if "room (n + (if state_map s ht tag = None then 1 else 0)) ht" for n
    using that room rooms by (cases "state_map s ht tag") auto
  moreover have "add_new p l = l @ p" by (rule add_new_distinct [OF l(2)])
  ultimately show ?thesis
    using add m ok(2) s(2) by (intro exI [of _ "s\<lparr>gs_heap := h', gs_groups := Some ht'\<rparr>"] exI [of _ ht'])
      (simp add: state_ok_def)
qed

lemma parse_members:
  assumes "state_ok s ht" "gs_current_tag s = Some tag" "cstring tag"
    and "[] \<notin> set ps" "\<forall>n\<in>set (concat ps). plain_name n"
    and "state_map s ht tag = Some l" "distinct (l @ concat ps)"
  shows "\<exists>s' ht'. orcm_logical_group_parsing always False (member_values ps) SUCCESS s = Some (SUCCESS, s') \<and>
    state_ok s' ht' \<and> state_map s' ht' = (state_map s ht)(tag \<mapsto> l @ concat ps) \<and>
    (\<forall>n. room n ht \<longrightarrow> room n ht')"
  using assms
proof (induction ps arbitrary: s ht l)
  case Nil
  then show ?case by (auto simp: member_values_def fun_upd_idem)
next
  case (Cons p ps)
  have 1: "p \<noteq> []" "\<forall>n\<in>set p. plain_name n" "l = (case state_map s ht tag of None \<Rightarrow> [] | Some l \<Rightarrow> l)"
      "distinct (l @ p)" "state_map s ht tag = None \<longrightarrow> room 1 ht"
    using Cons.prems by auto
  obtain s1 ht1 where s1: "orcm_logical_group_parsing always False (member_values (p # ps)) SUCCESS s
      = orcm_logical_group_parsing always False (member_values ps) SUCCESS s1"
      "state_ok s1 ht1" "gs_current_tag s1 = Some tag" "state_map s1 ht1 = (state_map s ht)(tag \<mapsto> l @ p)"
      "\<forall>n. room n ht \<longrightarrow> room n ht1"
    using parse_member [OF Cons.prems(1,2,3) 1, of "member_values ps" SUCCESS] Cons.prems(6)
    by (auto simp: member_values_def)
  have "state_map s1 ht1 tag = Some (l @ p)" using s1(4) by simp
  moreover have "[] \<notin> set ps" "\<forall>n\<in>set (concat ps). plain_name n" "distinct ((l @ p) @ concat ps)"
    using Cons.prems(4,5,7) by auto
  ultimately obtain s' ht' where "orcm_logical_group_parsing always False (member_values ps) SUCCESS s1 = Some (SUCCESS, s')"
      "state_ok s' ht'" "state_map s' ht' = (state_map s1 ht1)(tag \<mapsto> (l @ p) @ concat ps)"
      "\<forall>n. room n ht1 \<longrightarrow> room n ht'"
    using Cons.IH [OF s1(2,3) Cons.prems(3)] by blast
  with s1 show ?case by (intro exI [of _ s'] exI [of _ ht']) simp
qed

lemma parse_group:
  assumes s: "state_ok s ht" "state_map s ht tag = None" "room 1 ht" "cstring tag"
    and ps: "pieces_ok ps" "ps \<noteq> []"
  shows "\<exists>s' ht'. orcm_logical_group_parsing always False (CStr ''name'' tag # member_values ps) SUCCESS s
      = Some (SUCCESS, s') \<and> state_ok s' ht' \<and>
    state_map s' ht' = (state_map s ht)(tag \<mapsto> concat ps) \<and> (\<forall>n. room (n + 1) ht \<longrightarrow> room n ht')"
proof -
  let ?s = "s\<lparr>gs_current_tag := Some tag\<rparr>"
  obtain p qs where p: "ps = p # qs" using ps(2) by (cases ps) auto
  have name: "orcm_logical_group_parsing always False (CStr ''name'' tag # vs) SUCCESS s
      = orcm_logical_group_parsing always False vs SUCCESS ?s" for vs
    by (auto simp: orcm_logical_group_process_tag_line_def split: option.splits)
  have s0: "state_ok ?s ht" "gs_current_tag ?s = Some tag" "state_map ?s ht = state_map s ht"
    using s(1) by (auto simp: state_ok_def)
  have 1: "p \<noteq> []" "\<forall>n\<in>set p. plain_name n" "[] = (case state_map ?s ht tag of None \<Rightarrow> [] | Some l \<Rightarrow> l)"
      "distinct ([] @ p)" "state_map ?s ht tag = None \<longrightarrow> room 1 ht"
    using ps p s s0 by (auto simp: pieces_ok_def)
  obtain s1 ht1 where s1: "orcm_logical_group_parsing always False (member_values ps) SUCCESS ?s
      = orcm_logical_group_parsing always False (member_values qs) SUCCESS s1"
      "state_ok s1 ht1" "gs_current_tag s1 = Some tag" "state_map s1 ht1 = (state_map s ht)(tag \<mapsto> p)"
      "\<forall>n. room (n + 1) ht \<longrightarrow> room n ht1"
    using parse_member [OF s0(1,2) s(4) 1, of "member_values qs" SUCCESS] s(2) p
    by (auto simp: member_values_def)
  have "state_map s1 ht1 tag = Some p" using s1(4) by simp
  from parse_members [OF s1(2,3) s(4) _ _ this, of qs] ps(1) p
  obtain s' ht' where "orcm_logical_group_parsing always False (member_values qs) SUCCESS s1 = Some (SUCCESS, s')"
      "state_ok s' ht'" "state_map s' ht' = (state_map s1 ht1)(tag \<mapsto> p @ concat qs)"
      "\<forall>n. room n ht1 \<longrightarrow> room n ht'"
    by (auto simp: pieces_ok_def)
  with s1 p show ?thesis unfolding name by (intro exI [of _ s'] exI [of _ ht']) simp
qed

lemma parse_groups:
  assumes "state_ok s ht" "room (length gs) ht" "distinct (map fst gs)"
    and "\<forall>(tag, ps)\<in>set gs. cstring tag \<and> pieces_ok ps \<and> ps \<noteq> [] \<and> state_map s ht tag = None"
  shows "\<exists>s' ht'. orcm_logical_group_parsing always False (map (\<lambda>(tag, ps). group_value tag ps) gs) SUCCESS s
      = Some (SUCCESS, s') \<and> state_ok s' ht' \<and>
    state_map s' ht' = state_map s ht ++ map_of (map (\<lambda>(tag, ps). (tag, concat ps)) gs)"
  using assms
proof (induction gs arbitrary: s ht)
  case (Cons g gs)
  obtain tag ps where g: "g = (tag, ps)" by (cases g)
  have r: "room 1 ht" using Cons.prems(2) by (auto simp: room_def)
  obtain s1 ht1 where s1: "orcm_logical_group_parsing always False (CStr ''name'' tag # member_values ps) SUCCESS s
      = Some (SUCCESS, s1)" "state_ok s1 ht1" "state_map s1 ht1 = (state_map s ht)(tag \<mapsto> concat ps)"
      "\<forall>n. room (n + 1) ht \<longrightarrow> room n ht1"
    using parse_group [OF Cons.prems(1) _ r, of tag ps] Cons.prems(4) g by auto
  have "room (length gs) ht1" using s1(4) Cons.prems(2) by auto
  moreover have "\<forall>(tag, ps)\<in>set gs. cstring tag \<and> pieces_ok ps \<and> ps \<noteq> [] \<and> state_map s1 ht1 tag = None"
    using Cons.prems(3,4) s1(3) g by (force simp: image_iff)
  ultimately obtain s' ht' where
      "orcm_logical_group_parsing always False (map (\<lambda>(tag, ps). group_value tag ps) gs) SUCCESS s1
        = Some (SUCCESS, s')" "state_ok s' ht'"
      "state_map s' ht' = state_map s1 ht1 ++ map_of (map (\<lambda>(tag, ps). (tag, concat ps)) gs)"
    using Cons.IH [OF s1(2)] Cons.prems(3) by fastforce
  moreover have "state_map s' ht' = state_map s ht ++ map_of (map (\<lambda>(tag, ps). (tag, concat ps)) (g # gs))"
  proof -
    have "map_of (map (\<lambda>(tag, ps). (tag, concat ps)) gs) tag = None"
      using Cons.prems(3) g by (auto simp: map_of_eq_None_iff image_iff)
    with calculation(3) s1(3) g show ?thesis by (auto simp: map_add_def fun_eq_iff split: option.splits)
  qed
  moreover have "orcm_logical_group_parsing always False (map (\<lambda>(tag, ps). group_value tag ps) (g # gs)) SUCCESS s
      = Some (SUCCESS, s')"
    using calculation(1) s1(1) g by (simp add: group_value_def)
  ultimately show ?case by blast
qed auto

section \<open>Writing\<close>

lemma key_string_cstr_bytes:
  assumes "cstring t"
  shows "key_string (cstr_bytes t) = t"
proof -
  have "takeWhile (\<lambda>b. b \<noteq> 0) (cstr_bytes t) = map char_byte t"
    using cstr_key_cstr_bytes [OF assms] by (simp add: cstr_key_def cstr_bytes_def)
  then show ?thesis by (simp add: key_string_def char_byte_def o_def unat_of_nat)
qed

lemma save_concat:
  assumes "l \<noteq> []" "\<forall>n\<in>set l. n \<noteq> []"
    and "orcm_logical_group_convert_members_list always (Some l) line_size \<noteq> None"
  shows "\<exists>ps. (\<forall>acc. orcm_logical_group_save_to_file_concat always acc (Some tag) (Some l)
      = Some (SUCCESS, acc @ [group_value tag ps])) \<and> concat ps = l \<and> [] \<notin> set ps"
proof -
  have "0 < line_size" by (simp add: line_size_def MAX_LINE_LENGTH_def)
  from convert_always [OF assms(1) this assms(3)]
  obtain lines where lines: "orcm_logical_group_convert_members_list always (Some l) line_size = Some (Some lines)"
    by blast
  from convert_pieces [OF this assms(2)]
  obtain ps where "lines = map (join_with CHR '','') ps" "concat ps = l" "[] \<notin> set ps" by blast
  with lines show ?thesis
    by (intro exI [of _ ps]) (simp add: orcm_logical_group_save_to_file_concat_def group_value_def
        member_values_def object_size_def o_def)
qed

text \<open>\<open>saves h (k, a) (t, ps)\<close>: the group at key \<open>k\<close> is written as a group value.\<close>

definition saves :: "heap \<Rightarrow> byte list \<times> nat \<Rightarrow> string \<times> string list list \<Rightarrow> bool" where
  "saves h = (\<lambda>(k, a) (t, ps). t = key_string k \<and>
     (\<exists>l. lists h a = Some l \<and> concat ps = l \<and> [] \<notin> set ps \<and>
       (\<forall>acc. orcm_logical_group_save_to_file_concat always acc (Some t) (Some l)
         = Some (SUCCESS, acc @ [group_value t ps]))))"

lemma save_loop_traverse:
  assumes "list_all2 (saves h) (traverse fuel ht node) gs" and "ht_capacity ht - next_start node < fuel"
  shows "save_loop fuel always h ht node acc = Some (SUCCESS, acc @ map (\<lambda>(t, ps). group_value t ps) gs)"
  using assms
proof (induction fuel arbitrary: node gs acc)
  case (Suc fuel)
  obtain st nx where nx: "opal_hash_table_get_next_key_ptr ht node = (st, nx)" by fastforce
  show ?case
  proof (cases nx)
    case None
    with nx Suc.prems(1) show ?thesis by (auto split: status.splits)
  next
    case (Some x)
    then obtain k a i where x: "nx = Some (k, a, i)" by (cases x) auto
    have st: "st = SUCCESS"
      using nx x by (auto simp: opal_hash_table_get_next_key_ptr_def get_next_key_def
          split: option.splits hkey.splits prod.splits)
    have "next_start node \<le> i" "i < ht_capacity ht"
      using next_key_ptr_range [of ht node st k a i] nx x by auto
    then have fuel: "ht_capacity ht - next_start (Some i) < fuel"
      using Suc.prems(2) by (simp add: next_start_def)
    from Suc.prems(1) nx x st obtain g gs' where gs: "gs = g # gs'" "saves h (k, a) g"
        "list_all2 (saves h) (traverse fuel ht (Some i)) gs'"
      by (auto simp: list_all2_Cons1)
    obtain t ps where g: "g = (t, ps)" by (cases g)
    from gs(2) g obtain l where "lists h a = Some l" "t = key_string k"
        "orcm_logical_group_save_to_file_concat always acc (Some t) (Some l)
          = Some (SUCCESS, acc @ [group_value t ps])"
      by (auto simp: saves_def)
    with Suc.IH [OF gs(3) fuel] nx x gs(1) g show ?thesis by simp
  qed
qed simp

lemma list_all2_choice: "\<forall>x\<in>set xs. \<exists>y. R x y \<Longrightarrow> \<exists>ys. list_all2 R xs ys"
  by (induction xs) (auto simp: list_all2_Cons1)

definition storable :: "string list \<Rightarrow> bool" where
  "storable l \<longleftrightarrow> l \<noteq> [] \<and> (\<forall>n\<in>set l. plain_name n) \<and>
     orcm_logical_group_convert_members_list always (Some l) line_size \<noteq> None"

definition stored :: "groups \<Rightarrow> (byte list \<times> nat) list" where
  "stored ht = traverse (ht_capacity ht + 1) ht None"

lemma stored_all:
  assumes "groups_ok h ht"
  shows "distinct (map fst (stored ht))" "map_of (stored ht) = (\<lambda>k. ht_map ht (KeyPtr k))"
    "length (stored ht) = ht_size ht"
proof -
  note all = traverse_all [OF groups_okD(1) [OF assms], folded stored_def]
  then show "distinct (map fst (stored ht))" "map_of (stored ht) = (\<lambda>k. ht_map ht (KeyPtr k))" by auto
  have "length (stored ht) = length (entries (ht_table ht))" using all by (metis length_map)
  with groups_okD(1) [OF assms] show "length (stored ht) = ht_size ht"
    by (simp add: table_ok_def wf_table_def)
qed

lemma stored_group:
  assumes ok: "groups_ok h ht" and ka: "(k, a) \<in> set (stored ht)"
  obtains t l where "k = cstr_bytes t" "cstring t" "key_string k = t" "lists h a = Some l" "distinct l"
    "group_map h ht t = Some l"
proof -
  have m: "ht_map ht (KeyPtr k) = Some a"
    using ka stored_all [OF ok] by (metis map_of_is_SomeI)
  from groups_okD(3) [OF ok m] obtain t where t: "k = cstr_bytes t" "cstring t" by blast
  from groups_okD(2) [OF ok m] obtain l where l: "lists h a = Some l" "distinct l" by blast
  from that [OF t] t l m key_string_cstr_bytes [OF t(2)] show thesis by (simp add: group_map_def)
qed

lemma stored_saves:
  assumes ok: "groups_ok h ht" and st: "\<forall>l\<in>ran (group_map h ht). storable l"
  shows "\<exists>gs. list_all2 (saves h) (stored ht) gs"
proof -
  have "\<exists>g. saves h (k, a) g" if ka: "(k, a) \<in> set (stored ht)" for k a
  proof -
    obtain t l where t: "key_string k = t" "lists h a = Some l" "group_map h ht t = Some l"
      by (rule stored_group [OF ok ka])
    then have "storable l" using st by (auto simp: ran_def)
    then obtain ps where "\<forall>acc. orcm_logical_group_save_to_file_concat always acc (Some t) (Some l)
        = Some (SUCCESS, acc @ [group_value t ps])" "concat ps = l" "[] \<notin> set ps"
      using save_concat [of l t] by (auto simp: storable_def plain_name_def)
    with t show ?thesis by (intro exI [of _ "(t, ps)"]) (simp add: saves_def)
  qed
  then have "\<forall>x\<in>set (stored ht). \<exists>g. saves h x g" by auto
  then show ?thesis by (rule list_all2_choice)
qed

lemma saved_group:
  assumes ok: "groups_ok h ht" and st: "\<forall>l\<in>ran (group_map h ht). storable l"
    and gs: "list_all2 (saves h) (stored ht) gs" and t_in: "(t, ps) \<in> set gs"
  shows "cstring t \<and> pieces_ok ps \<and> ps \<noteq> [] \<and> group_map h ht t = Some (concat ps)"
proof -
  from gs t_in obtain i where "i < length gs" "gs ! i = (t, ps)" "saves h (stored ht ! i) (gs ! i)"
      "length (stored ht) = length gs"
    by (auto simp: list_all2_conv_all_nth in_set_conv_nth)
  then obtain k a where ka: "(k, a) \<in> set (stored ht)" "saves h (k, a) (t, ps)"
    by (cases "stored ht ! i") (metis nth_mem)
  obtain u l where u: "cstring u" "key_string k = u" "lists h a = Some l" "distinct l" "group_map h ht u = Some l"
    by (rule stored_group [OF ok ka(1)])
  then have "storable l" using st by (auto simp: ran_def)
  with u ka(2) show ?thesis
    by (auto simp: saves_def storable_def pieces_ok_def)
qed

lemma saved_tags:
  assumes ok: "groups_ok h ht" and gs: "list_all2 (saves h) (stored ht) gs"
  shows "map cstr_bytes (map fst gs) = map fst (stored ht)"
proof -
  have "cstr_bytes (key_string k) = k" if ka: "(k, a) \<in> set (stored ht)" for k a
    by (rule stored_group [OF ok ka]) simp
  then have "\<forall>x\<in>set (stored ht). cstr_bytes (key_string (fst x)) = fst x" by auto
  with gs show ?thesis
    by (induction rule: list_all2_induct) (auto simp: saves_def)
qed

lemma saved_map:
  assumes ok: "groups_ok h ht" and st: "\<forall>l\<in>ran (group_map h ht). storable l"
    and gs: "list_all2 (saves h) (stored ht) gs" and d: "distinct (map fst gs)"
  shows "map_of (map (\<lambda>(t, ps). (t, concat ps)) gs) = group_map h ht"
proof
  fix t
  show "map_of (map (\<lambda>(t, ps). (t, concat ps)) gs) t = group_map h ht t"
  proof (cases "t \<in> fst ` set gs")
    case True
    then obtain ps where t: "(t, ps) \<in> set gs" by auto
    with d have "map_of (map (\<lambda>(t, ps). (t, concat ps)) gs) t = Some (concat ps)"
      by (intro map_of_is_SomeI) (auto simp: o_def split_def intro: rev_image_eqI)
    with saved_group [OF ok st gs t] show ?thesis by simp
  next
    case False
    then have "cstr_bytes t \<notin> set (map fst (stored ht))" unfolding saved_tags [OF ok gs, symmetric] by force
    then have "map_of (stored ht) (cstr_bytes t) = None" by (simp add: map_of_eq_None_iff)
    then have "ht_map ht (KeyPtr (cstr_bytes t)) = None"
      using stored_all(2) [OF ok] by metis
    moreover have "map_of (map (\<lambda>(t, ps). (t, concat ps)) gs) t = None"
      using False by (simp add: map_of_eq_None_iff image_image split_def)
    ultimately show ?thesis by (simp add: group_map_def)
  qed
qed

lemma save_correct:
  assumes ok: "groups_ok h ht" and st: "\<forall>l\<in>ran (group_map h ht). storable l"
  shows "\<exists>gs. save_loop (ht_capacity ht + 1) always h ht None []
      = Some (SUCCESS, map (\<lambda>(t, ps). group_value t ps) gs) \<and>
    distinct (map fst gs) \<and> length gs = ht_size ht \<and>
    (\<forall>(t, ps)\<in>set gs. cstring t \<and> pieces_ok ps \<and> ps \<noteq> []) \<and>
    map_of (map (\<lambda>(t, ps). (t, concat ps)) gs) = group_map h ht"
proof -
  obtain gs where gs: "list_all2 (saves h) (stored ht) gs" using stored_saves [OF ok st] by blast
  have "save_loop (ht_capacity ht + 1) always h ht None []
      = Some (SUCCESS, [] @ map (\<lambda>(t, ps). group_value t ps) gs)"
    by (rule save_loop_traverse [OF gs [unfolded stored_def]]) (simp add: next_start_def)
  moreover have d: "distinct (map fst gs)"
    using stored_all(1) [OF ok] saved_tags [OF ok gs] by (metis distinct_map)
  moreover have "length gs = ht_size ht"
    using list_all2_lengthD [OF gs] stored_all(3) [OF ok] by simp
  moreover note saved_map [OF ok st gs d]
  moreover have "\<forall>(t, ps)\<in>set gs. cstring t \<and> pieces_ok ps \<and> ps \<noteq> []"
    using saved_group [OF ok st gs] by blast
  ultimately show ?thesis by (intro exI [of _ gs]) simp
qed

section \<open>The round trip\<close>

lemma init_groups:
  "\<exists>ht. orcm_logical_group_init always dir file s
      = (SUCCESS, Some (case file of None \<Rightarrow> dir @ ''/etc/orcm-default-config.xml'' | Some f \<Rightarrow> f),
         s\<lparr>gs_groups := Some ht\<rparr>) \<and>
    groups_ok (gs_heap s) ht \<and> group_map (gs_heap s) ht = Map.empty \<and> room 1004 ht"
proof -
  have "opal_hash_round_capacity_up 2000 = 2011" by code_simp
  then have "(fst (opal_hash_table_init always (opal_hash_table_construct :: groups) HASH_SIZE),
      ht_size (new_groups HASH_SIZE), ht_growth_trigger (new_groups HASH_SIZE)) = (SUCCESS, 0, 1005)"
    by (simp add: opal_hash_table_init_def opal_hash_table_init2_def calloc_ok_def always_def
        HASH_SIZE_def new_groups_def size_t_def opal_hash_table_construct_def)
  then have i: "opal_hash_table_init always opal_hash_table_construct HASH_SIZE = (SUCCESS, new_groups HASH_SIZE)"
      "room 1004 (new_groups HASH_SIZE)"
    by (auto simp: new_groups_def prod_eq_iff room_def)
  from table_ok_init [OF i(1), of Methods_ptr]
  have "table_ok Methods_ptr (new_groups HASH_SIZE)" "ht_map (new_groups HASH_SIZE) = Map.empty"
    by (auto simp: HASH_SIZE_def)
  with i show ?thesis
    by (intro exI [of _ "new_groups HASH_SIZE"])
      (simp add: orcm_logical_group_init_def groups_ok_def group_map_def object_size_def fun_eq_iff)
qed

text \<open>C10: Saving and loading groups.  A set of fewer than 1005 groups whose lists are not empty, have plain
  names and fit the line buffer is written by \<^verbatim>\<open>save_to_file\<close> as a section that
  \<^verbatim>\<open>load_to_memory\<close>, given it back by the parser, turns into exactly the same groups, with the
  members of each in the same order, however the lists were cut into lines.\<close>

theorem save_load_roundtrip:
  assumes "groups_ok h ht" and "0 < ht_size ht" and "ht_size ht < 1005"
    and "\<forall>l\<in>ran (group_map h ht). storable l"
    and "orcm_logical_group_open_file_with_logicalgroup_tag ev (Some file) = SUCCESS" and "file \<noteq> []"
  shows "\<exists>doc. orcm_logical_group_save_to_file always (\<lambda>_. SUCCESS) ev (Some file) h (Some ht)
      = Some (parser_close ev, Some (Some doc)) \<and>
    (\<exists>s' ht'. orcm_logical_group_load_to_memory always False SUCCESS (Some [CPtr ''logicalgroup'' doc]) st
        dir (Some file) s = Some (st, s') \<and> gs_groups s' = Some ht' \<and> groups_ok (gs_heap s') ht' \<and>
      group_map (gs_heap s') ht' = group_map h ht)"
proof -
  obtain gs where gs: "save_loop (ht_capacity ht + 1) always h ht None []
      = Some (SUCCESS, map (\<lambda>(t, ps). group_value t ps) gs)"
    and d: "distinct (map fst gs)" "length gs = ht_size ht"
      "\<forall>(t, ps)\<in>set gs. cstring t \<and> pieces_ok ps \<and> ps \<noteq> []"
      "map_of (map (\<lambda>(t, ps). (t, concat ps)) gs) = group_map h ht"
    using save_correct [OF assms(1,4)] by blast
  let ?doc = "map (\<lambda>(t, ps). group_value t ps) gs"
  have save: "orcm_logical_group_save_to_file always (\<lambda>_. SUCCESS) ev (Some file) h (Some ht)
      = Some (parser_close ev, Some (Some ?doc))"
    using assms(2,5) gs by (simp add: orcm_logical_group_save_to_file_def object_size_def
        orcm_logical_group_save_to_file_internal_def opal_hash_table_get_size_def)
  obtain ht0 where i: "orcm_logical_group_init always dir (Some file) s
      = (SUCCESS, Some file, s\<lparr>gs_groups := Some ht0\<rparr>)"
      "groups_ok (gs_heap s) ht0" "group_map (gs_heap s) ht0 = Map.empty" "room 1004 ht0"
    using init_groups [of dir "Some file" s] by auto
  have "\<exists>s' ht'. orcm_logical_group_parsing always False ?doc SUCCESS (s\<lparr>gs_groups := Some ht0\<rparr>)
      = Some (SUCCESS, s') \<and> state_ok s' ht' \<and> state_map s' ht' = group_map h ht"
    using parse_groups [of "s\<lparr>gs_groups := Some ht0\<rparr>" ht0 gs] i d assms(3)
    by (simp add: state_ok_def room_def)
  then obtain s' ht' where s': "orcm_logical_group_parsing always False ?doc SUCCESS (s\<lparr>gs_groups := Some ht0\<rparr>)
      = Some (SUCCESS, s')" "state_ok s' ht'" "state_map s' ht' = group_map h ht" by blast
  have "orcm_logical_group_load_to_memory always False SUCCESS (Some [CPtr ''logicalgroup'' ?doc]) st
        dir (Some file) s = Some (st, s')"
    using i(1) s'(1) assms(6) by (simp add: orcm_logical_group_load_to_memory_def
        orcm_logical_group_load_from_file_def orcm_logical_group_open_file_def
        orcm_logical_group_parse_from_file_def)
  with save s' show ?thesis by (auto simp: state_ok_def)
qed

lemma example_storable: "storable [''n1'']"
proof -
  have "orcm_logical_group_convert_members_list always (Some [''n1'']) line_size = Some (Some [''n1''])"
    by (simp add: orcm_logical_group_convert_members_list_def orcm_logical_group_do_convertion_def
        convert_member_def append_text_def line_size_def MAX_LINE_LENGTH_def object_size_def always_def
        orcm_logical_group_list_append_def)
  then show ?thesis by (simp add: storable_def plain_name_def special_char_def)
qed

theorem save_load_roundtrip_witness:
  "\<exists>h ht doc s' ht'. group_map h ht = [''g'' \<mapsto> [''n1'']] \<and>
    orcm_logical_group_save_to_file always (\<lambda>_. SUCCESS)
      \<lparr>parser_open = SUCCESS, first_create = (SUCCESS, SUCCESS), second_create = (SUCCESS, SUCCESS),
       close_empty = SUCCESS, retrieved = Some [], parser_close = SUCCESS\<rparr>
      (Some ''f.xml'') h (Some ht) = Some (SUCCESS, Some (Some doc)) \<and>
    orcm_logical_group_load_to_memory always False SUCCESS (Some [CPtr ''logicalgroup'' doc]) SUCCESS
      ''/opt'' (Some ''f.xml'') \<lparr>gs_heap = empty_heap, gs_groups = None, gs_current_tag = None\<rparr>
      = Some (SUCCESS, s') \<and> gs_groups s' = Some ht' \<and>
    group_map (gs_heap s') ht' = [''g'' \<mapsto> [''n1'']]"
proof -
  let ?ev = "\<lparr>parser_open = SUCCESS, first_create = (SUCCESS, SUCCESS), second_create = (SUCCESS, SUCCESS),
       close_empty = SUCCESS, retrieved = Some [], parser_close = SUCCESS\<rparr>"
  obtain h ht where s: "groups_ok h ht" "group_map h ht = [''g'' \<mapsto> [''n1'']]" "ht_size ht = 1"
    using example_groups by blast
  then have "\<forall>l\<in>ran (group_map h ht). storable l" using example_storable by auto
  moreover have "orcm_logical_group_open_file_with_logicalgroup_tag ?ev (Some ''f.xml'') = SUCCESS"
    by (simp add: orcm_logical_group_open_file_with_logicalgroup_tag_def orcm_logical_group_open_file_def)
  ultimately obtain doc s' ht' where
      "orcm_logical_group_save_to_file always (\<lambda>_. SUCCESS) ?ev (Some ''f.xml'') h (Some ht)
        = Some (SUCCESS, Some (Some doc))"
      "orcm_logical_group_load_to_memory always False SUCCESS (Some [CPtr ''logicalgroup'' doc]) SUCCESS
        ''/opt'' (Some ''f.xml'') \<lparr>gs_heap = empty_heap, gs_groups = None, gs_current_tag = None\<rparr>
        = Some (SUCCESS, s')" "gs_groups s' = Some ht'" "group_map (gs_heap s') ht' = group_map h ht"
    using save_load_roundtrip [of h ht ?ev "''f.xml''" SUCCESS "''/opt''"
        "\<lparr>gs_heap = empty_heap, gs_groups = None, gs_current_tag = None\<rparr>"] s by auto
  with s(2) show ?thesis by metis
qed

lemma convert_loop_fits:
  assumes "length (join_with CHR '','' (pend @ ms)) < n" and "ms \<noteq> []" and "\<forall>x\<in>set (pend @ ms). x \<noteq> []"
  shows "convert_loop always n ms (join_with CHR '','' pend) lines
    = Some (Some (lines @ [join_with CHR '','' (pend @ ms)]))"
  using assms
proof (induction ms arbitrary: pend)
  case (Cons m ms)
  let ?j = "join_with CHR '',''"
  have split: "length (?j (pend @ m # ms)) = length (?j (pend @ [m])) + (if ms = [] then 0 else Suc (length (?j ms)))"
    using join_with_append [of "pend @ [m]" ms "CHR '',''"] by (cases "ms = []") auto
  have pm: "?j (pend @ [m]) = (if ?j pend = [] then m else ?j pend @ CHR '','' # m)"
    using join_with_eq_Nil [of pend "CHR '',''"] Cons.prems(3) join_with_append [of pend "[m]" "CHR '',''"] by auto
  have "convert_member always n m (?j pend) lines = Some (Some (?j (pend @ [m]), lines))"
    using Cons.prems(1) split pm
    by (auto simp: convert_member_def append_text_Some split: if_splits)
  moreover have "?j (pend @ [m]) \<noteq> []"
    using join_with_eq_Nil [of "pend @ [m]" "CHR '',''"] Cons.prems(3) by simp
  ultimately show ?case
    using Cons.IH [of "pend @ [m]"] Cons.prems by (cases "ms = []") (simp_all add: list_append_always)
qed simp

text \<open>C40: The line buffer.  Members whose comma-separated text is shorter than the buffer are written as
  that one line.  But the test that starts a new line does not count the comma: two members whose lengths
  add up to the size of the buffer less one are both put in it, and the text with its NUL is one character
  longer than the buffer.\<close>

theorem line_buffer:
  assumes "\<forall>x\<in>set (a # b # ms). x \<noteq> []"
  shows "(length (join_with CHR '','' (a # b # ms)) < n \<longrightarrow>
      orcm_logical_group_convert_members_list always (Some (a # b # ms)) n
        = Some (Some [join_with CHR '','' (a # b # ms)])) \<and>
    (length a + length b + 1 = n \<longrightarrow>
      orcm_logical_group_convert_members_list always (Some (a # b # ms)) n = None)"
proof (intro conjI impI)
  have conv: "orcm_logical_group_convert_members_list always (Some (a # b # ms)) n
      = convert_loop always n (a # b # ms) [] []" if "0 < n"
    using that by (simp add: orcm_logical_group_convert_members_list_def orcm_logical_group_do_convertion_def
        object_size_def always_def)
  show "orcm_logical_group_convert_members_list always (Some (a # b # ms)) n
      = Some (Some [join_with CHR '','' (a # b # ms)])"
    if "length (join_with CHR '','' (a # b # ms)) < n"
    using convert_loop_fits [of "[]" "a # b # ms" n "[]"] assms conv that by simp
  show "orcm_logical_group_convert_members_list always (Some (a # b # ms)) n = None"
    if "length a + length b + 1 = n"
    using assms conv that by (auto simp: convert_member_def append_text_def)
qed

theorem line_buffer_witness:
  "orcm_logical_group_convert_members_list always (Some [''abc'', ''def'']) 8 = Some (Some [''abc,def'']) \<and>
   orcm_logical_group_convert_members_list always (Some [''abc'', ''def'']) 7 = None"
  using line_buffer [of "''abc''" "''def''" "[]" 8] line_buffer [of "''abc''" "''def''" "[]" 7] by simp

text \<open>Errors while loading.  The status of a bad line is overwritten by the next line: a section with
  a malformed member expression loads with success, and the group of that line is missing.  When the group
  already exists, the failed line destroys its list and leaves it in the table, so that the next member
  line of the same group uses a released object.\<close>

theorem load_error_lost:
  "map (\<lambda>doc. do { (st, s) \<leftarrow> orcm_logical_group_load_from_file always False SUCCESS
                (Some [CPtr ''logicalgroup'' [CPtr ''group'' doc]]) SUCCESS (Some ''f.xml'')
                \<lparr>gs_heap = empty_heap, gs_groups = Some (new_groups 1), gs_current_tag = None\<rparr>;
              ht \<leftarrow> gs_groups s;
              Some (st, group_map (gs_heap s) ht ''g'', group_map (gs_heap s) ht ''k'') }) [
     [CStr ''name'' ''g'', CStr ''members'' ''n[3]'', CStr ''name'' ''k'', CStr ''members'' ''n2''],
     [CStr ''name'' ''g'', CStr ''members'' ''n1'', CStr ''members'' ''n[3]'', CStr ''members'' ''n2'']]
   = [Some (SUCCESS, None, Some [''n2'']), None]"
  by code_simp

end
