(* ===== verification/Orcm_Group_Expand.thy ===== *)
theory Orcm_Group_Expand
  imports Orcm_Logical_Group
begin

text \<open>
  Expanding node expressions with logical groups, the last part of
  \<^verbatim>\<open>orcm/util/logical_group.c\<close>: an expression names nodes and, with a dollar sign, groups; groups
  may contain other groups.  The expansion works off a queue of group tags, kept in an argument vector with
  a counter of its own.
\<close>

section \<open>The operations\<close>

definition blank :: "char \<Rightarrow> bool" where
  "blank c \<longleftrightarrow> c = CHR '' '' \<or> c = CHR 0x09"

text \<open>
  \<^verbatim>\<open>orcm_logical_group_trim_string\<close>: blanks are skipped at the beginning and cut at the end; the
  backwards loop stops at the first character that is left.
\<close>

definition orcm_logical_group_trim_string :: "string \<Rightarrow> string" where
  "orcm_logical_group_trim_string s =
     (case dropWhile blank s of
        [] \<Rightarrow> []
      | c # s \<Rightarrow> c # rev (dropWhile blank (rev s)))"

text \<open>
  The inner loop over the members of a group: a member that is a group is appended to the tags and counted,
  another one is appended to the result.  Both are appended only if they are new; the counter is increased in
  any case.
\<close>

fun nested_members ::
  "allocator \<Rightarrow> string list \<Rightarrow> int \<Rightarrow> argv \<Rightarrow> argv \<Rightarrow> groups
     \<Rightarrow> (status \<times> int \<times> argv \<times> argv \<times> groups) option" where
  "nested_members mem [] cnt tag_array o_array_string groups =
     Some (SUCCESS, cnt, tag_array, o_array_string, groups)"
| "nested_members mem (m # ms) cnt tag_array o_array_string groups =
     do { (found, nested_value, groups) \<leftarrow> opal_hash_table_get_value_ptr groups (cstr_bytes m);
          if found = SUCCESS
          then do { (erri, tag_array) \<leftarrow> opal_argv_append_unique_nosize mem tag_array m False;
                    if erri \<noteq> SUCCESS then Some (erri, cnt, tag_array, o_array_string, groups)
                    else nested_members mem ms (cnt + 1) tag_array o_array_string groups }
          else do { (erri, o_array_string) \<leftarrow> opal_argv_append_unique_nosize mem o_array_string m False;
                    if erri \<noteq> SUCCESS then Some (erri, cnt, tag_array, o_array_string, groups)
                    else nested_members mem ms cnt tag_array o_array_string groups } }"

text \<open>
  The body of the loop in \<^verbatim>\<open>orcm_logical_group_tag_to_members_nested\<close>.  Reading the first tag of an
  empty vector gives NULL, which is passed to \<^verbatim>\<open>strlen\<close>.
\<close>

definition first_tag :: "argv \<Rightarrow> string option" where
  "first_tag tag_array =
     do { b \<leftarrow> tag_array; c \<leftarrow> rd b 0; case c of Str t \<Rightarrow> Some t | _ \<Rightarrow> None }"

definition nested_step ::
  "allocator \<Rightarrow> heap \<Rightarrow> int \<Rightarrow> argv \<Rightarrow> argv \<Rightarrow> groups
     \<Rightarrow> (status \<times> int \<times> argv \<times> argv \<times> groups) option" where
  "nested_step mem h cnt tag_array o_array_string groups =
     do { tag \<leftarrow> first_tag tag_array;
          (found, value, groups) \<leftarrow> opal_hash_table_get_value_ptr groups (cstr_bytes tag);
          (erri, cnt, tag_array, o_array_string, groups) \<leftarrow>
            (case value of
               Some a \<Rightarrow>
                 if found = SUCCESS
                 then do { l \<leftarrow> lists h a;
                           nested_members mem l cnt tag_array o_array_string groups }
                 else Some (SUCCESS, cnt, tag_array, o_array_string, groups)
             | None \<Rightarrow> Some (SUCCESS, cnt, tag_array, o_array_string, groups));
          if erri \<noteq> SUCCESS then Some (erri, cnt, tag_array, o_array_string, groups)
          else do { (erri, cnt, tag_array) \<leftarrow> opal_argv_delete mem cnt tag_array 0 1;
                    Some (erri, cnt, tag_array, o_array_string, groups) } }"

partial_function (option) nested_loop ::
  "allocator \<Rightarrow> heap \<Rightarrow> status \<Rightarrow> int \<Rightarrow> argv \<Rightarrow> argv \<Rightarrow> groups \<Rightarrow> (status \<times> argv \<times> argv \<times> groups) option" where
  [code]: "nested_loop mem h erri cnt tag_array o_array_string groups =
     (if 0 < cnt
      then do { (erri, cnt, tag_array, o_array_string, groups) \<leftarrow>
                  nested_step mem h cnt tag_array o_array_string groups;
                if erri \<noteq> SUCCESS then Some (erri, tag_array, o_array_string, groups)
                else nested_loop mem h erri cnt tag_array o_array_string groups }
      else Some (erri, tag_array, o_array_string, groups))"

definition orcm_logical_group_tag_to_members_nested ::
  "allocator \<Rightarrow> heap \<Rightarrow> argv \<Rightarrow> argv \<Rightarrow> groups \<Rightarrow> (status \<times> argv \<times> argv \<times> groups) option" where
  "orcm_logical_group_tag_to_members_nested mem h tag_array o_array_string groups =
     do { cnt \<leftarrow> opal_argv_count tag_array;
          nested_loop mem h SUCCESS (int cnt) tag_array o_array_string groups }"

text \<open>
  \<^verbatim>\<open>orcm_logical_group_parse_array_string\<close>: the loop that separates tags from names, and the whole
  function.  \<open>groups\<close> is \<^verbatim>\<open>LOGICAL_GROUP.groups\<close>, which must exist as soon as there is a tag.
\<close>

fun sort_names ::
  "allocator \<Rightarrow> string list \<Rightarrow> argv \<Rightarrow> argv \<Rightarrow> (status \<times> argv \<times> argv) option" where
  "sort_names mem [] tag_array o_array_string = Some (SUCCESS, tag_array, o_array_string)"
| "sort_names mem (n # ns) tag_array o_array_string =
     (if n \<noteq> [] \<and> hd n = CHR ''$''
      then do { (erri, tag_array) \<leftarrow> opal_argv_append_unique_nosize mem tag_array (tl n) False;
                if erri \<noteq> SUCCESS then Some (erri, tag_array, o_array_string)
                else sort_names mem ns tag_array o_array_string }
      else do { (erri, o_array_string) \<leftarrow> opal_argv_append_unique_nosize mem o_array_string n False;
                if erri \<noteq> SUCCESS then Some (erri, tag_array, o_array_string)
                else sort_names mem ns tag_array o_array_string })"

definition orcm_logical_group_parse_array_string ::
  "allocator \<Rightarrow> bool \<Rightarrow> string option \<Rightarrow> argv \<Rightarrow> heap \<Rightarrow> groups option
     \<Rightarrow> (status \<times> argv \<times> groups option) option" where
  "orcm_logical_group_parse_array_string mem erange regex o_array_string h groups =
     (case regex of
        None \<Rightarrow> Some (SUCCESS, o_array_string, groups)
      | Some regex \<Rightarrow>
          let o_regex = orcm_logical_group_trim_string regex
          in if o_regex = [] then Some (SUCCESS, o_array_string, groups)
             else do { (erri, regex_array) \<leftarrow> orte_regex_extract_node_names mem erange (Some o_regex) None;
                       if erri \<noteq> SUCCESS then Some (erri, None, groups)
                       else do { names \<leftarrow> argv_list regex_array;
                                 (erri, tag_array, o_array_string) \<leftarrow>
                                   sort_names mem names None o_array_string;
                                 if erri \<noteq> SUCCESS then Some (erri, None, groups)
                                 else if tag_array = None then Some (SUCCESS, o_array_string, groups)
                                 else do { ht \<leftarrow> groups;
                                           (erri, _, o_array_string, ht) \<leftarrow>
                                             orcm_logical_group_tag_to_members_nested mem h tag_array
                                               o_array_string ht;
                                           Some (erri, if erri = SUCCESS then o_array_string else None,
                                                 Some ht) } } })"

text \<open>The size is an \<^verbatim>\<open>unsigned int\<close>.\<close>

definition orcm_logical_group_argv_addup_size :: "string list \<Rightarrow> nat" where
  "orcm_logical_group_argv_addup_size argv = fold (\<lambda>s size. (size + (length s + 1)) mod 2 ^ 32) argv 0"

fun concat_names :: "string list \<Rightarrow> string" where
  "concat_names [] = []"
| "concat_names (s # ss) = s @ (if ss \<noteq> [] then '','' else []) @ concat_names ss"

definition orcm_logical_group_arraystring_to_string ::
  "allocator \<Rightarrow> argv \<Rightarrow> (status \<times> string option) option" where
  "orcm_logical_group_arraystring_to_string mem array_string =
     do { ss \<leftarrow> argv_list array_string;
          let size = orcm_logical_group_argv_addup_size ss;
          if size = 0 then Some (ERR_BAD_PARAM, None)
          else if \<not> mem size then Some (ERR_OUT_OF_RESOURCE, None)
          else if length (concat_names ss) \<ge> size then None
          else Some (SUCCESS, Some (concat_names ss)) }"

definition orcm_logical_group_parse_string ::
  "allocator \<Rightarrow> bool \<Rightarrow> string option \<Rightarrow> heap \<Rightarrow> groups option
     \<Rightarrow> (status \<times> string option \<times> groups option) option" where
  "orcm_logical_group_parse_string mem erange regex h groups =
     do { (erri, o_string_array, groups) \<leftarrow>
            orcm_logical_group_parse_array_string mem erange regex None h groups;
          if erri \<noteq> SUCCESS then Some (erri, None, groups)
          else do { (erri, o_string) \<leftarrow> orcm_logical_group_arraystring_to_string mem o_string_array;
                    Some (erri, o_string, groups) } }"

section \<open>Nested groups\<close>

definition members :: "(string \<rightharpoonup> string list) \<Rightarrow> string \<Rightarrow> string list" where
  "members M t = (case M t of None \<Rightarrow> [] | Some l \<Rightarrow> l)"

definition subgroups :: "(string \<rightharpoonup> string list) \<Rightarrow> string \<Rightarrow> string list" where
  "subgroups M t = filter (\<lambda>m. M m \<noteq> None) (members M t)"

definition leaves :: "(string \<rightharpoonup> string list) \<Rightarrow> string \<Rightarrow> string list" where
  "leaves M t = filter (\<lambda>m. M m = None) (members M t)"

definition nesting :: "(string \<rightharpoonup> string list) \<Rightarrow> (string \<times> string) set" where
  "nesting M = {(t, u). u \<in> set (subgroups M t)}"

text \<open>The tags in the order of the queue, \<open>None\<close> when \<open>n\<close> steps do not empty it.\<close>

fun walk :: "(string \<rightharpoonup> string list) \<Rightarrow> nat \<Rightarrow> string list \<Rightarrow> string list option" where
  "walk M n [] = Some []"
| "walk M 0 (t # q) = None"
| "walk M (Suc n) (t # q) = map_option ((#) t) (walk M n (q @ subgroups M t))"

lemma walk_queue: "walk M n q = Some ts \<Longrightarrow> \<exists>r. ts = q @ r"
  by (induction M n q arbitrary: ts rule: walk.induct) force+

lemma walk_closed: "walk M n q = Some ts \<Longrightarrow> t \<in> set ts \<Longrightarrow> set (subgroups M t) \<subseteq> set ts"
proof (induction M n q arbitrary: ts rule: walk.induct)
  case (3 M n u q)
  then obtain us where us: "walk M n (q @ subgroups M u) = Some us" "ts = u # us" by auto
  then obtain r where "us = (q @ subgroups M u) @ r" using walk_queue by blast
  with 3 us show ?case by (cases "t = u") auto
qed auto

lemma walk_reached: "walk M n q = Some ts \<Longrightarrow> u \<in> set ts \<Longrightarrow> \<exists>t\<in>set q. (t, u) \<in> (nesting M)\<^sup>*"
proof (induction M n q arbitrary: ts rule: walk.induct)
  case (3 M n t q)
  then obtain us where us: "walk M n (q @ subgroups M t) = Some us" "ts = t # us" by auto
  show ?case
  proof (cases "u = t")
    case False
    with 3 us obtain v where "v \<in> set (q @ subgroups M t)" "(v, u) \<in> (nesting M)\<^sup>*" by auto
    then show ?thesis
      by (auto simp: nesting_def intro: converse_rtrancl_into_rtrancl)
  qed auto
qed auto

lemma set_walk:
  assumes "walk M n q = Some ts"
  shows "set ts = {u. \<exists>t\<in>set q. (t, u) \<in> (nesting M)\<^sup>*}"
proof (intro equalityI subsetI)
  fix u assume "u \<in> {u. \<exists>t\<in>set q. (t, u) \<in> (nesting M)\<^sup>*}"
  then obtain t where "t \<in> set q" "(t, u) \<in> (nesting M)\<^sup>*" by blast
  from this(2,1) show "u \<in> set ts"
  proof (induction rule: rtrancl_induct)
    case base
    then show ?case using walk_queue [OF assms] by auto
  next
    case (step v w)
    then show ?case using walk_closed [OF assms, of v] by (auto simp: nesting_def)
  qed
qed (use walk_reached [OF assms] in blast)

section \<open>The loop works off the queue\<close>

lemma nested_members_correct:
  assumes "groups_ok h ht" "holds ta q" "holds out l"
  shows "\<exists>ta' out' ht'. nested_members always ms cnt ta out ht
      = Some (SUCCESS, cnt + int (length (filter (\<lambda>m. group_map h ht m \<noteq> None) ms)), ta', out', ht') \<and>
    holds ta' (add_new (filter (\<lambda>m. group_map h ht m \<noteq> None) ms) q) \<and>
    holds out' (add_new (filter (\<lambda>m. group_map h ht m = None) ms) l) \<and>
    (ta \<noteq> None \<longrightarrow> ta' \<noteq> None) \<and> groups_ok h ht' \<and> group_map h ht' = group_map h ht"
  using assms
proof (induction ms arbitrary: cnt ta out ht q l)
  case (Cons m ms)
  obtain ht1 where get: "opal_hash_table_get_value_ptr ht (cstr_bytes m) =
      Some (if group_map h ht m = None then ERR_NOT_FOUND else SUCCESS,
            ht_map ht (KeyPtr (cstr_bytes m)), ht1)"
    and ok1: "groups_ok h ht1" "group_map h ht1 = group_map h ht"
    using get_tag [OF Cons.prems(1), of m] by blast
  show ?case
  proof (cases "group_map h ht m")
    case None
    obtain out1 where "opal_argv_append_unique_nosize always out m False = Some (SUCCESS, out1)"
        "holds out1 (if m \<in> set l then l else l @ [m])"
      using append_unique_ample [OF Cons.prems(3)] by blast
    with None get Cons.IH [OF ok1(1) Cons.prems(2), of out1] ok1(2) show ?thesis by simp
  next
    case (Some l')
    obtain ta1 where ta1: "opal_argv_append_unique_nosize always ta m False = Some (SUCCESS, ta1)"
        "holds ta1 (if m \<in> set q then q else q @ [m])" "ta1 \<noteq> None"
      using append_unique_ample [OF Cons.prems(2)] by blast
    obtain ta' out' ht' where "nested_members always ms (cnt + 1) ta1 out ht1
        = Some (SUCCESS, cnt + 1 + int (length (filter (\<lambda>m. group_map h ht m \<noteq> None) ms)), ta', out', ht')"
        "holds ta' (add_new (filter (\<lambda>m. group_map h ht m \<noteq> None) ms) (if m \<in> set q then q else q @ [m]))"
        "holds out' (add_new (filter (\<lambda>m. group_map h ht m = None) ms) l)"
        "ta' \<noteq> None" "groups_ok h ht'" "group_map h ht' = group_map h ht"
      using Cons.IH [OF ok1(1) ta1(2) Cons.prems(3), of "cnt + 1"] ok1(2) ta1(3) by auto
    with Some get ta1(1) show ?thesis
      by (intro exI [of _ ta'] exI [of _ out'] exI [of _ ht']) (simp add: algebra_simps)
  qed
qed auto

lemma first_tag_holds: "holds ta (t # q) \<Longrightarrow> first_tag ta = Some t"
  by (cases ta) (auto simp: holds_def first_tag_def rd_def)

lemma first_tag_empty: "holds ta [] \<Longrightarrow> first_tag ta = None"
  by (cases ta) (auto simp: holds_def first_tag_def rd_def)

lemma add_new_Cons: "tl (add_new ns (t # q)) = add_new (filter (\<lambda>m. m \<noteq> t) ns) q"
proof -
  have "add_new ns (t # q) = t # add_new (filter (\<lambda>m. m \<noteq> t) ns) q"
    by (induction ns arbitrary: q) auto
  then show ?thesis by simp
qed

lemma nested_step_correct:
  assumes ok: "groups_ok h ht" and q: "holds ta (t # q)" and out: "holds out l"
  shows "\<exists>ta' out' ht'. nested_step always h cnt ta out ht
      = Some (SUCCESS, cnt + int (length (subgroups (group_map h ht) t)) - 1, ta', out', ht') \<and>
    holds ta' (add_new (filter (\<lambda>m. m \<noteq> t) (subgroups (group_map h ht) t)) q) \<and>
    holds out' (add_new (leaves (group_map h ht) t) l) \<and>
    groups_ok h ht' \<and> group_map h ht' = group_map h ht"
proof -
  let ?M = "group_map h ht"
  obtain ht1 where get: "opal_hash_table_get_value_ptr ht (cstr_bytes t) =
      Some (if ?M t = None then ERR_NOT_FOUND else SUCCESS, ht_map ht (KeyPtr (cstr_bytes t)), ht1)"
    and ok1: "groups_ok h ht1" "group_map h ht1 = ?M"
    using get_tag [OF ok, of t] by blast
  obtain ta2 out2 ht2 where mem: "nested_members always (members ?M t) cnt ta out ht1
      = Some (SUCCESS, cnt + int (length (subgroups ?M t)), ta2, out2, ht2)"
    and h2: "holds ta2 (add_new (subgroups ?M t) (t # q))" "holds out2 (add_new (leaves ?M t) l)"
      "ta2 \<noteq> None" "groups_ok h ht2" "group_map h ht2 = ?M"
    using nested_members_correct [OF ok1(1) q out, of "members ?M t" cnt] q ok1(2)
    by (cases ta) (auto simp: subgroups_def leaves_def)
  have body: "(case ht_map ht (KeyPtr (cstr_bytes t)) of
         Some a \<Rightarrow> if (if ?M t = None then ERR_NOT_FOUND else SUCCESS) = SUCCESS
                   then do { l \<leftarrow> lists h a; nested_members always l cnt ta out ht1 }
                   else Some (SUCCESS, cnt, ta, out, ht1)
       | None \<Rightarrow> Some (SUCCESS, cnt, ta, out, ht1))
     = nested_members always (members ?M t) cnt ta out ht1"
    by (cases "ht_map ht (KeyPtr (cstr_bytes t))"; cases "?M t") (auto simp: members_def group_map_def)
  obtain b where b: "ta2 = Some b" using h2(3) by blast
  obtain ta3 where del: "opal_argv_delete always (cnt + int (length (subgroups ?M t))) ta2 0 1
      = Some (SUCCESS, cnt + int (length (subgroups ?M t)) - 1, ta3)"
      "holds ta3 (tl (add_new (subgroups ?M t) (t # q)))"
    using delete_correct [of b "add_new (subgroups ?M t) (t # q)" 0 1 always] h2(1) b
    by (auto simp: drop_Suc)
  have "nested_step always h cnt ta out ht
      = Some (SUCCESS, cnt + int (length (subgroups ?M t)) - 1, ta3, out2, ht2)"
    unfolding nested_step_def first_tag_holds [OF q] using get body mem del(1) by simp
  with h2 del(2) show ?thesis by (simp add: add_new_Cons)
qed

lemma nested_loop_correct:
  assumes "walk (group_map h ht) n q = Some ts" "distinct ts"
    and "groups_ok h ht" "holds ta q" "holds out l"
  shows "\<exists>ta' out' ht'. nested_loop always h SUCCESS (int (length q)) ta out ht = Some (SUCCESS, ta', out', ht') \<and>
    holds out' (add_new (concat (map (leaves (group_map h ht)) ts)) l) \<and>
    groups_ok h ht' \<and> group_map h ht' = group_map h ht"
  using assms
proof (induction "group_map h ht" n q arbitrary: ts ta out l ht rule: walk.induct)
  case (1 n)
  then show ?case by (auto simp: nested_loop.simps)
next
  case (3 n t q)
  let ?M = "group_map h ht"
  obtain us where us: "walk ?M n (q @ subgroups ?M t) = Some us" "ts = t # us" using 3(2) by auto
  obtain r where r: "us = q @ subgroups ?M t @ r" using walk_queue [OF us(1)] by auto
  have q': "add_new (filter (\<lambda>m. m \<noteq> t) (subgroups ?M t)) q = q @ subgroups ?M t"
  proof -
    have "t \<notin> set (subgroups ?M t)" using 3(3) us(2) r by simp
    then have "filter (\<lambda>m. m \<noteq> t) (subgroups ?M t) = subgroups ?M t" by (simp add: filter_id_conv) metis
    moreover have "distinct (q @ subgroups ?M t)" using 3(3) us(2) r by auto
    ultimately show ?thesis using add_new_distinct [of q "subgroups ?M t"] by simp
  qed
  obtain ta1 out1 ht1 where st: "nested_step always h (int (length (t # q))) ta out ht
      = Some (SUCCESS, int (length (q @ subgroups ?M t)), ta1, out1, ht1)"
    and s1: "holds ta1 (q @ subgroups ?M t)" "holds out1 (add_new (leaves ?M t) l)"
      "groups_ok h ht1" "group_map h ht1 = ?M"
    using nested_step_correct [OF 3(4,5,6), of "int (length (t # q))"] q' by auto
  obtain ta' out' ht' where "nested_loop always h SUCCESS (int (length (q @ subgroups ?M t))) ta1 out1 ht1
      = Some (SUCCESS, ta', out', ht')"
      "holds out' (add_new (concat (map (leaves ?M) us)) (add_new (leaves ?M t) l))"
      "groups_ok h ht'" "group_map h ht' = ?M"
    using 3(1) [of ht1 us ta1 out1 "add_new (leaves ?M t) l"] us s1 3(3) by auto
  with st us(2) show ?case
    by (subst nested_loop.simps) (simp add: add_new_def fold_append)
qed simp

section \<open>Whole expressions\<close>

definition named_tags :: "string list \<Rightarrow> string list" where
  "named_tags ns = add_new (map tl (filter (\<lambda>n. n \<noteq> [] \<and> hd n = CHR ''$'') ns)) []"

definition named_nodes :: "string list \<Rightarrow> string list" where
  "named_nodes ns = filter (\<lambda>n. \<not> (n \<noteq> [] \<and> hd n = CHR ''$'')) ns"

lemma sort_names_correct:
  assumes "holds ta q" "holds out l" "q \<noteq> [] \<longrightarrow> ta \<noteq> None"
  shows "\<exists>ta' out'. sort_names always ns ta out = Some (SUCCESS, ta', out') \<and>
    holds ta' (add_new (map tl (filter (\<lambda>n. n \<noteq> [] \<and> hd n = CHR ''$'') ns)) q) \<and>
    holds out' (add_new (named_nodes ns) l)"
  using assms
proof (induction ns arbitrary: ta out q l)
  case (Cons n ns)
  show ?case
  proof (cases "n \<noteq> [] \<and> hd n = CHR ''$''")
    case True
    obtain ta1 where ta1: "opal_argv_append_unique_nosize always ta (tl n) False = Some (SUCCESS, ta1)"
        "holds ta1 (if tl n \<in> set q then q else q @ [tl n])" "ta1 \<noteq> None"
      using append_unique_ample [OF Cons.prems(1)] by blast
    with True Cons.IH [OF ta1(2) Cons.prems(2)] show ?thesis by (simp add: named_nodes_def)
  next
    case False
    obtain out1 where out1: "opal_argv_append_unique_nosize always out n False = Some (SUCCESS, out1)"
        "holds out1 (if n \<in> set l then l else l @ [n])"
      using append_unique_ample [OF Cons.prems(2)] by blast
    with False Cons.IH [OF Cons.prems(1) out1(2) Cons.prems(3)] show ?thesis
      by (auto simp: named_nodes_def)
  qed
qed (simp add: named_nodes_def)

lemma parse_array_correct:
  assumes ok: "groups_ok h ht" and ne: "orcm_logical_group_trim_string regex \<noteq> []"
    and ns: "orte_regex_extract_node_names always e (Some (orcm_logical_group_trim_string regex)) None
      = Some (SUCCESS, v)" "holds v ns"
    and w: "walk (group_map h ht) n (named_tags ns) = Some ts" "distinct ts"
  shows "\<exists>out ht'. orcm_logical_group_parse_array_string always e (Some regex) None h (Some ht)
      = Some (SUCCESS, out, Some ht') \<and>
    holds out (add_new (named_nodes ns @ concat (map (leaves (group_map h ht)) ts)) []) \<and>
    groups_ok h ht' \<and> group_map h ht' = group_map h ht"
proof -
  obtain ta out where sort: "sort_names always ns None None = Some (SUCCESS, ta, out)"
      "holds ta (named_tags ns)" "holds out (add_new (named_nodes ns) [])"
    using sort_names_correct [of None "[]" None "[]" ns] by (auto simp: named_tags_def)
  obtain ta' out' ht' where loop: "nested_loop always h SUCCESS (int (length (named_tags ns))) ta out ht
      = Some (SUCCESS, ta', out', ht')"
      "holds out' (add_new (concat (map (leaves (group_map h ht)) ts)) (add_new (named_nodes ns) []))"
      "groups_ok h ht'" "group_map h ht' = group_map h ht"
    using nested_loop_correct [OF w ok sort(2,3)] by blast
  have app: "add_new (named_nodes ns @ xs) [] = add_new xs (add_new (named_nodes ns) [])" for xs
    by (simp add: add_new_def)
  show ?thesis
  proof (cases ta)
    case None
    then have "named_tags ns = []" using sort(2) by simp
    with w(1) have "ts = []" by simp
    with None sort ne ns ok show ?thesis
      by (auto simp: orcm_logical_group_parse_array_string_def argv_list_holds)
  next
    case (Some b)
    have "orcm_logical_group_tag_to_members_nested always h ta out ht = Some (SUCCESS, ta', out', ht')"
      using loop(1) opal_argv_count_correct [OF sort(2)]
      by (simp add: orcm_logical_group_tag_to_members_nested_def)
    with Some sort(1) ne ns loop show ?thesis
      by (simp add: orcm_logical_group_parse_array_string_def argv_list_holds app)
  qed
qed

lemma concat_names_eq: "concat_names ss = join_with CHR '','' ss"
proof (induction ss)
  case (Cons s ss)
  then show ?case by (cases ss) auto
qed simp

lemma addup_size:
  "orcm_logical_group_argv_addup_size ss = sum_list (map (\<lambda>s. length s + 1) ss) mod 2 ^ 32"
proof -
  have "fold (\<lambda>s size. (size + (length s + 1)) mod 2 ^ 32) ss (a mod 2 ^ 32)
      = (a + sum_list (map (\<lambda>s. length s + 1) ss)) mod 2 ^ 32" for a
  proof (induction ss arbitrary: a)
    case (Cons s ss)
    have "(a mod 2 ^ 32 + (length s + 1)) mod 2 ^ 32 = (a + (length s + 1)) mod 2 ^ 32"
      by (rule mod_add_left_eq)
    with Cons [of "a + (length s + 1)"] show ?case by (simp only: fold_simps list.map sum_list.Cons add.assoc)
  qed simp
  from this [of 0] show ?thesis by (simp add: orcm_logical_group_argv_addup_size_def)
qed

lemma length_join_with:
  "ss \<noteq> [] \<Longrightarrow> length (join_with d ss) + 1 = sum_list (map (\<lambda>s. length s + 1) ss)"
  by (induction ss rule: join_with.induct) auto

lemma to_string_correct:
  assumes "holds a ss" "ss \<noteq> []" "length (join_with CHR '','' ss) < 2 ^ 32 - 1"
  shows "orcm_logical_group_arraystring_to_string always a = Some (SUCCESS, Some (join_with CHR '','' ss))"
proof -
  have "orcm_logical_group_argv_addup_size ss = length (join_with CHR '','' ss) + 1"
    using length_join_with [OF assms(2), of "CHR '',''"] assms(3)
    by (simp only: addup_size mod_less less_diff_conv)
  with argv_list_holds [OF assms(1)] show ?thesis
    by (simp add: orcm_logical_group_arraystring_to_string_def concat_names_eq)
qed

text \<open>C9: Expanding groups.  If working off the groups named in an expression ends and meets no group twice,
  the expansion returns the names of the expression and all the nodes that are reached through nested groups,
  each once, and \<^verbatim>\<open>parse_string\<close> returns them separated by commas.\<close>

theorem group_expansion:
  assumes "groups_ok h ht" and "orcm_logical_group_trim_string regex \<noteq> []"
    and "orte_regex_extract_node_names always e (Some (orcm_logical_group_trim_string regex)) None
      = Some (SUCCESS, v)" and "holds v ns"
    and "walk (group_map h ht) n (named_tags ns) = Some ts" and "distinct ts"
  shows "\<exists>out l ht'. orcm_logical_group_parse_array_string always e (Some regex) None h (Some ht)
      = Some (SUCCESS, out, Some ht') \<and> groups_ok h ht' \<and> group_map h ht' = group_map h ht \<and>
    holds out l \<and> distinct l \<and>
    set l = set (named_nodes ns) \<union>
      {m. \<exists>t\<in>set (named_tags ns). \<exists>u. (t, u) \<in> (nesting (group_map h ht))\<^sup>* \<and> m \<in> set (leaves (group_map h ht) u)} \<and>
    (l \<noteq> [] \<and> length (join_with CHR '','' l) < 2 ^ 32 - 1 \<longrightarrow>
      orcm_logical_group_parse_string always e (Some regex) h (Some ht)
        = Some (SUCCESS, Some (join_with CHR '','' l), Some ht'))"
proof -
  let ?l = "add_new (named_nodes ns @ concat (map (leaves (group_map h ht)) ts)) []"
  obtain out ht' where parse: "orcm_logical_group_parse_array_string always e (Some regex) None h (Some ht)
      = Some (SUCCESS, out, Some ht')" "holds out ?l" "groups_ok h ht'" "group_map h ht' = group_map h ht"
    using parse_array_correct [OF assms] by blast
  have "set ?l = set (named_nodes ns) \<union>
      {m. \<exists>t\<in>set (named_tags ns). \<exists>u. (t, u) \<in> (nesting (group_map h ht))\<^sup>* \<and> m \<in> set (leaves (group_map h ht) u)}"
    unfolding set_add_new set_append set_concat set_map set_walk [OF assms(5)] by auto
  moreover have "distinct ?l" by (rule distinct_add_new) simp
  moreover have "orcm_logical_group_parse_string always e (Some regex) h (Some ht)
      = Some (SUCCESS, Some (join_with CHR '','' ?l), Some ht')"
    if "?l \<noteq> [] \<and> length (join_with CHR '','' ?l) < 2 ^ 32 - 1"
    using parse(1) to_string_correct [OF parse(2)] that
    by (simp add: orcm_logical_group_parse_string_def)
  ultimately show ?thesis using parse by (intro exI [of _ out] exI [of _ ?l] exI [of _ ht'] conjI) auto
qed

text \<open>A state with nested groups, built by additions.\<close>

lemma add_example:
  assumes "groups_ok h ht" "room (n + 1) ht" "cstring t" "\<forall>x\<in>set ms. plain_name x" "ms \<noteq> []" "distinct ms"
    "group_map h ht t = None"
  shows "\<exists>h' ht'. groups_ok h' ht' \<and> room n ht' \<and> group_map h' ht' = (group_map h ht)(t \<mapsto> ms)"
proof -
  obtain v where v: "orte_regex_extract_node_names always False (Some (join_with CHR '','' ms)) None
      = Some (SUCCESS, v)" "holds v ms"
    using extract_plain [OF assms(4,5)] by blast
  obtain st h' ht' where add: "orcm_logical_group_add always False (Some t) (Some (join_with CHR '','' ms)) h (Some ht)
      = Some (st, h', Some ht')"
      "st = SUCCESS \<longrightarrow> groups_ok h' ht' \<and> group_map h' ht' = (group_map h ht)(t \<mapsto> add_new ms [])"
    using add_correct [OF assms(1,3) v] assms(7) by auto
  have "room 1 ht" using assms(2) by (simp add: room_def)
  from add_room(1) [OF assms(1) v(1) add(1) this] assms(2) have "st = SUCCESS" "room n ht'" by auto
  with add(2) add_new_distinct [of "[]" ms] assms(6) show ?thesis by auto
qed

lemma example_nested:
  assumes "\<forall>x\<in>set xs \<union> set ys. plain_name x" "xs \<noteq> []" "ys \<noteq> []" "distinct xs" "distinct ys"
  shows "\<exists>h ht. groups_ok h ht \<and> group_map h ht = [''a'' \<mapsto> xs, ''b'' \<mapsto> ys]"
proof -
  have "room 2 (new_groups 1)"
    by (simp add: room_def new_groups_def opal_hash_table_init_def opal_hash_table_init2_def calloc_ok_def
        always_def opal_hash_round_capacity_up_def size_t_def opal_hash_table_construct_def)
  then have r: "room (1 + 1) (new_groups 1)" by (simp only: one_add_one)
  obtain h ht where 1: "groups_ok h ht" "room 1 ht" "group_map h ht = [''a'' \<mapsto> xs]"
    using add_example [OF new_groups_ok(1) r, of "''a''" xs] new_groups_ok(2) assms
    by (auto simp: cstring_def)
  have "room (0 + 1) ht" using 1(2) by simp
  from add_example [OF 1(1) this, of "''b''" ys] 1(3) assms show ?thesis
    by (auto simp: cstring_def)
qed

theorem group_expansion_witness:
  "\<exists>h ht out ht'. group_map h ht = [''a'' \<mapsto> [''b'', ''n1''], ''b'' \<mapsto> [''n2'']] \<and>
    orcm_logical_group_parse_array_string always False (Some '' $a '') None h (Some ht)
      = Some (SUCCESS, out, Some ht') \<and> (\<exists>l. holds out l \<and> set l = {''n1'', ''n2''})"
proof -
  let ?M = "[''a'' \<mapsto> [''b'', ''n1''], ''b'' \<mapsto> [''n2'']] :: string \<rightharpoonup> string list"
  obtain h ht where s: "groups_ok h ht" "group_map h ht = ?M"
    using example_nested [of "[''b'', ''n1'']" "[''n2'']"] by (auto simp: plain_name_def special_char_def)
  have trim: "orcm_logical_group_trim_string '' $a '' = ''$a''" by code_simp
  obtain v where v: "orte_regex_extract_node_names always False (Some ''$a'') None = Some (SUCCESS, v)"
      "holds v [''$a'']"
    using extract_single [of "''$a''"] by (auto simp: special_char_def)
  have tags: "named_tags [''$a''] = [''a'']" "named_nodes [''$a''] = []"
    by (simp_all add: named_tags_def named_nodes_def)
  have sub: "subgroups ?M t = (if t = ''a'' then [''b''] else [])"
      "leaves ?M t = (if t = ''a'' then [''n1''] else if t = ''b'' then [''n2''] else [])" for t
    by (auto simp: subgroups_def leaves_def members_def)
  have w: "walk ?M 2 [''a''] = Some [''a'', ''b'']"
    by (simp add: sub numeral_2_eq_2)
  have reach: "{m. \<exists>t\<in>set [''a'']. \<exists>u. (t, u) \<in> (nesting ?M)\<^sup>* \<and> m \<in> set (leaves ?M u)} = {''n1'', ''n2''}"
  proof -
    have "{m. \<exists>t\<in>set [''a'']. \<exists>u. (t, u) \<in> (nesting ?M)\<^sup>* \<and> m \<in> set (leaves ?M u)}
        = (\<Union>u\<in>{u. \<exists>t\<in>set [''a'']. (t, u) \<in> (nesting ?M)\<^sup>*}. set (leaves ?M u))"
      by blast
    also have "\<dots> = {''n1'', ''n2''}" unfolding set_walk [OF w, symmetric] by (simp add: sub insert_commute)
    finally show ?thesis .
  qed
  from group_expansion [of h ht "'' $a ''" False v "[''$a'']" 2 "[''a'', ''b'']"] s trim v tags w
  obtain out l ht' where "orcm_logical_group_parse_array_string always False (Some '' $a '') None h (Some ht)
      = Some (SUCCESS, out, Some ht')" "holds out l"
      "set l = set (named_nodes [''$a'']) \<union>
        {m. \<exists>t\<in>set [''a'']. \<exists>u. (t, u) \<in> (nesting ?M)\<^sup>* \<and> m \<in> set (leaves ?M u)}"
    by auto
  moreover have "set l = {''n1'', ''n2''}"
    using calculation(3) unfolding reach tags by simp
  ultimately show ?thesis
    using s(2) by (intro exI [of _ h] exI [of _ ht] exI [of _ out] exI [of _ ht'] conjI exI [of _ l])
qed

section \<open>Shared and cyclic groups\<close>

text \<open>One iteration of the loop, seen through the list of tags.\<close>

lemma nested_loop_step:
  assumes "groups_ok h ht" "holds ta (t # q)" "holds out l" "0 < cnt"
  obtains ta' out' ht' l' where
    "nested_step always h cnt ta out ht
      = Some (SUCCESS, cnt + int (length (subgroups (group_map h ht) t)) - 1, ta', out', ht')"
    "nested_loop always h st cnt ta out ht
      = nested_loop always h SUCCESS (cnt + int (length (subgroups (group_map h ht) t)) - 1) ta' out' ht'"
    "holds ta' (add_new (filter (\<lambda>m. m \<noteq> t) (subgroups (group_map h ht) t)) q)"
    "holds out' l'" "groups_ok h ht'" "group_map h ht' = group_map h ht"
proof -
  obtain ta' out' ht' where "nested_step always h cnt ta out ht
      = Some (SUCCESS, cnt + int (length (subgroups (group_map h ht) t)) - 1, ta', out', ht')"
    and r: "holds ta' (add_new (filter (\<lambda>m. m \<noteq> t) (subgroups (group_map h ht) t)) q)"
      "holds out' (add_new (leaves (group_map h ht) t) l)" "groups_ok h ht'" "group_map h ht' = group_map h ht"
    using nested_step_correct [OF assms(1-3), of cnt] by blast
  with assms(4) show thesis
    by (intro that [of ta' out' ht']) (simp_all add: nested_loop.simps [of always h st cnt])
qed


fun nested_steps ::
  "nat \<Rightarrow> heap \<Rightarrow> int \<Rightarrow> argv \<Rightarrow> argv \<Rightarrow> groups \<Rightarrow> (status \<times> int \<times> argv \<times> argv \<times> groups) option" where
  "nested_steps 0 h cnt ta out ht = Some (SUCCESS, cnt, ta, out, ht)"
| "nested_steps (Suc n) h cnt ta out ht =
     do { (erri, cnt, ta, out, ht) \<leftarrow> nested_step always h cnt ta out ht;
          if erri \<noteq> SUCCESS then Some (erri, cnt, ta, out, ht) else nested_steps n h cnt ta out ht }"

text \<open>C37: Cyclic groups.  When two groups contain each other, the expansion never ends: after any number
  of iterations one tag is left in the queue, so the loop has no result.\<close>

theorem cyclic_groups_never_end:
  assumes "groups_ok h ht" and "holds ta [a]" and "holds out l"
    and "subgroups (group_map h ht) a = [b]" and "subgroups (group_map h ht) b = [a]" and "a \<noteq> b"
  shows "(\<forall>n. \<exists>ta' out' ht'. nested_steps n h 1 ta out ht = Some (SUCCESS, 1, ta', out', ht')) \<and>
    orcm_logical_group_tag_to_members_nested always h ta out ht = None"
proof -
  define cyc where "cyc = (\<lambda>ta out ht. groups_ok h ht \<and>
    (\<exists>t u. holds ta [t] \<and> subgroups (group_map h ht) t = [u] \<and> subgroups (group_map h ht) u = [t] \<and> t \<noteq> u) \<and>
    (\<exists>l. holds out l))"
  have step: "\<exists>ta' out' ht'. nested_step always h 1 ta out ht = Some (SUCCESS, 1, ta', out', ht') \<and> cyc ta' out' ht'"
    if cyc: "cyc ta out ht" for ta out ht
  proof -
    from cyc obtain t u l where t: "groups_ok h ht" "holds ta [t]" "holds out l" "subgroups (group_map h ht) t = [u]"
        "subgroups (group_map h ht) u = [t]" "t \<noteq> u"
      by (auto simp: cyc_def)
    obtain ta' out' ht' l' where "nested_step always h 1 ta out ht = Some (SUCCESS, 1, ta', out', ht')"
        "holds ta' [u]" "holds out' l'" "groups_ok h ht'" "group_map h ht' = group_map h ht"
      by (rule nested_loop_step [OF t(1-3), of 1 SUCCESS]) (use t(4-6) in auto)
    with t show ?thesis unfolding cyc_def by (intro exI [of _ ta'] exI [of _ out'] exI [of _ ht']) auto
  qed
  have init: "cyc ta out ht" using assms unfolding cyc_def by blast
  have "\<exists>ta' out' ht'. nested_steps n h 1 ta out ht = Some (SUCCESS, 1, ta', out', ht')"
    if "cyc ta out ht" for n ta out ht
    using that
  proof (induction n arbitrary: ta out ht)
    case (Suc n)
    then show ?case using step [OF Suc.prems] by force
  qed simp
  moreover have "False" if "nested_loop always h SUCCESS 1 ta out ht = Some y" "cyc ta out ht" for ta out ht y
  proof -
    have "mem = always \<longrightarrow> h' = h \<longrightarrow> c = 1 \<longrightarrow> cyc ta out ht \<longrightarrow> False"
      if "nested_loop mem h' st c ta out ht = Some y" for mem h' st c ta out ht y
      using that
    proof (induction rule: nested_loop.raw_induct [rotated 1, consumes 1])
      case (1 nl mem h' st c ta out ht y)
      show ?case
      proof (intro impI)
        assume a: "mem = always" "h' = h" "c = 1" "cyc ta out ht"
        from step [OF a(4)] obtain ta' out' ht' where
          s: "nested_step always h 1 ta out ht = Some (SUCCESS, 1, ta', out', ht')" "cyc ta' out' ht'" by blast
        with 1(2) a have "nl always h SUCCESS 1 ta' out' ht' = Some y" by simp
        from 1(1) [OF this] s(2) show False by simp
      qed
    qed
    with that show False by blast
  qed
  then have "nested_loop always h SUCCESS 1 ta out ht = None"
    using init by (cases "nested_loop always h SUCCESS 1 ta out ht") auto
  ultimately show ?thesis
    using init opal_argv_count_correct [OF assms(2)]
    by (simp add: orcm_logical_group_tag_to_members_nested_def)
qed


theorem cyclic_groups_never_end_witness:
  "\<exists>h ht. group_map h ht = [''a'' \<mapsto> [''b''], ''b'' \<mapsto> [''a'']] \<and>
    orcm_logical_group_tag_to_members_nested always h (Some [Str ''a'', Null]) None ht = None"
proof -
  let ?M = "[''a'' \<mapsto> [''b''], ''b'' \<mapsto> [''a'']] :: string \<rightharpoonup> string list"
  obtain h ht where s: "groups_ok h ht" "group_map h ht = ?M"
    using example_nested [of "[''b'']" "[''a'']"] by (auto simp: plain_name_def special_char_def)
  have sub: "subgroups ?M ''a'' = [''b'']" "subgroups ?M ''b'' = [''a'']"
    by (simp_all add: subgroups_def members_def)
  have "holds (Some [Str ''a'', Null]) [''a'']" by (simp add: holds_def)
  from cyclic_groups_never_end [OF s(1) this, of None "[]" "''b''"] s(2) sub
  have "orcm_logical_group_tag_to_members_nested always h (Some [Str ''a'', Null]) None ht = None" by simp
  with s(2) show ?thesis by blast
qed

end
