(* ===== verification/Opal_Crc.thy ===== *)
theory Opal_Crc
  imports Orcm_Prelude "HOL-Library.Monad_Syntax"
begin

text \<open>
  Checksums, \<^verbatim>\<open>opal/util/crc.c\<close> and \<^verbatim>\<open>crc.h\<close>: additive checksums over words of the machine,
  which can be computed in several calls over pieces of any length at any address, with and without copying,
  and the table-driven CRC-32.

  A source is an address and the bytes found from there on; a destination is an address, the room left, and
  the bytes written so far.  A pointer that is dereferenced as a word must be aligned, while
  \<^verbatim>\<open>memcpy\<close> works at any address; \<open>None\<close> is undefined behaviour.  The host is little-endian and
  the source and the destination do not overlap.  The functions on \<^verbatim>\<open>unsigned long\<close> and on
  \<^verbatim>\<open>unsigned int\<close> are the same text with another type, and are one polymorphic definition here.
\<close>

unbundle bit_operations_syntax

section \<open>Words in memory\<close>

type_synonym cptr = "nat \<times> byte list"
type_synonym dptr = "nat \<times> nat \<times> byte list"

fun le_nat :: "byte list \<Rightarrow> nat" where
  "le_nat [] = 0"
| "le_nat (b # bs) = unat b + 256 * le_nat bs"

fun le_bytes :: "nat \<Rightarrow> nat \<Rightarrow> byte list" where
  "le_bytes 0 n = []"
| "le_bytes (Suc k) n = of_nat n # le_bytes k (n div 256)"

definition word_of :: "byte list \<Rightarrow> 'w::len word" where
  "word_of bs = of_nat (le_nat bs)"

definition bytes_of :: "'w::len word \<Rightarrow> byte list" where
  "bytes_of w = le_bytes (LENGTH('w) div 8) (unat w)"

definition aligned :: "nat \<Rightarrow> nat \<Rightarrow> bool" where
  "aligned k a \<longleftrightarrow> a mod k = 0"

definition advance :: "nat \<Rightarrow> cptr \<Rightarrow> cptr" where
  "advance n = (\<lambda>(a, bs). (a + n, drop n bs))"

text \<open>Reading a word, through the pointer if \<open>direct\<close> and by \<^verbatim>\<open>memcpy\<close> otherwise.\<close>

definition rd_word :: "bool \<Rightarrow> cptr \<Rightarrow> 'w::len word option" where
  "rd_word direct = (\<lambda>(a, bs).
     if LENGTH('w) div 8 \<le> length bs \<and> (direct \<longrightarrow> aligned (LENGTH('w) div 8) a)
     then Some (word_of (take (LENGTH('w) div 8) bs)) else None)"

definition rd_bytes :: "nat \<Rightarrow> cptr \<Rightarrow> byte list option" where
  "rd_bytes n = (\<lambda>(a, bs). if n \<le> length bs then Some (take n bs) else None)"

definition store :: "byte list \<Rightarrow> dptr \<Rightarrow> dptr option" where
  "store bs = (\<lambda>(a, n, out). if length bs \<le> n then Some (a + length bs, n - length bs, out @ bs) else None)"

definition wr_word :: "bool \<Rightarrow> 'w::len word \<Rightarrow> dptr \<Rightarrow> dptr option" where
  "wr_word direct w = (\<lambda>d. if direct \<longrightarrow> aligned (LENGTH('w) div 8) (fst d) then store (bytes_of w) d else None)"

text \<open>\<^verbatim>\<open>memcpy((char *)&temp + off, src, n)\<close>\<close>

definition put_at :: "nat \<Rightarrow> byte list \<Rightarrow> 'w::len word \<Rightarrow> 'w word option" where
  "put_at off bs temp =
     (if off + length bs \<le> LENGTH('w) div 8
      then Some (word_of (take off (bytes_of temp) @ bs @ drop (off + length bs) (bytes_of temp))) else None)"

section \<open>Checksums without copying\<close>

text \<open>The state kept between calls: the last partial word and its length in bytes.\<close>

type_synonym 'w partial = "'w word \<times> nat"

fun sum_words :: "bool \<Rightarrow> nat \<Rightarrow> 'w::len word \<Rightarrow> cptr \<Rightarrow> ('w word \<times> cptr) option" where
  "sum_words direct 0 csum src = Some (csum, src)"
| "sum_words direct (Suc n) csum src =
     do { temp \<leftarrow> rd_word direct src;
          sum_words direct n (csum + temp) (advance (LENGTH('w) div 8) src) }"

text \<open>Up to the last complete word; the Boolean says that the function returns there.\<close>

definition csum_body ::
  "cptr \<Rightarrow> nat \<Rightarrow> 'w::len partial \<Rightarrow> ('w word \<times> cptr \<times> nat \<times> 'w partial \<times> bool) option" where
  "csum_body source csumlen = (\<lambda>(last_word, last_len).
     let k = LENGTH('w) div 8 in
     if last_len \<noteq> 0
     then if k - last_len \<le> csumlen
          then do { bs \<leftarrow> rd_bytes (k - last_len) source;
                    temp \<leftarrow> put_at last_len bs last_word;
                    let src = advance (k - last_len) source;
                        csumlen = csumlen - (k - last_len);
                        direct = (if aligned k (fst source) then False else aligned k (fst src));
                        n = csumlen div k
                    in do { (csum, src) \<leftarrow> sum_words direct n (temp - last_word) src;
                            Some (csum, src, csumlen - n * k, (0, 0), False) } }
          else do { bs \<leftarrow> rd_bytes csumlen source;
                    temp \<leftarrow> put_at last_len bs last_word;
                    Some (temp - last_word, advance csumlen source, 0, (temp, last_len + csumlen), False) }
     else do { (csum, src) \<leftarrow> sum_words (aligned k (fst source)) (csumlen div k) 0 source;
               Some (csum, src, csumlen - csumlen div k * k, (0, 0), aligned k (fst source) \<and> aligned k csumlen) })"

text \<open>The bytes that do not fill a word.\<close>

definition csum_tail :: "'w::len word \<Rightarrow> cptr \<Rightarrow> nat \<Rightarrow> 'w partial \<Rightarrow> ('w word \<times> 'w partial) option" where
  "csum_tail csum src csumlen = (\<lambda>(last_word, last_len).
     let k = LENGTH('w) div 8 in
     if csumlen = 0 then Some (csum, (last_word, last_len))
     else if last_len \<noteq> 0
     then if k - last_len \<le> csumlen
          then do { bs \<leftarrow> rd_bytes (k - last_len) src;
                    temp \<leftarrow> put_at last_len bs last_word;
                    rest \<leftarrow> rd_bytes (csumlen - (k - last_len)) (advance (k - last_len) src);
                    temp2 \<leftarrow> put_at 0 rest 0;
                    Some (csum + (temp - last_word) + temp2, (temp2, csumlen - (k - last_len))) }
          else do { bs \<leftarrow> rd_bytes csumlen src;
                    temp \<leftarrow> put_at last_len bs last_word;
                    Some (csum + (temp - last_word), (temp, last_len + csumlen)) }
     else do { bs \<leftarrow> rd_bytes csumlen src;
               temp \<leftarrow> put_at 0 bs last_word;
               Some (csum + temp, (temp, csumlen)) })"

definition csum_partial :: "cptr \<Rightarrow> nat \<Rightarrow> 'w::len partial \<Rightarrow> ('w word \<times> 'w partial) option" where
  "csum_partial source csumlen lp =
     do { (csum, src, csumlen, lp, fin) \<leftarrow> csum_body source csumlen lp;
          if fin then Some (csum, lp) else csum_tail csum src csumlen lp }"

definition opal_csum_partial :: "cptr \<Rightarrow> nat \<Rightarrow> 64 partial \<Rightarrow> (64 word \<times> 64 partial) option" where
  "opal_csum_partial = csum_partial"

definition opal_uicsum_partial :: "cptr \<Rightarrow> nat \<Rightarrow> 32 partial \<Rightarrow> (32 word \<times> 32 partial) option" where
  "opal_uicsum_partial = csum_partial"

definition opal_csum :: "cptr \<Rightarrow> nat \<Rightarrow> 64 word option" where
  "opal_csum source csumlen = map_option fst (opal_csum_partial source csumlen (0, 0))"

definition opal_uicsum :: "cptr \<Rightarrow> nat \<Rightarrow> 32 word option" where
  "opal_uicsum source csumlen = map_option fst (opal_uicsum_partial source csumlen (0, 0))"

text \<open>
  \<^verbatim>\<open>opal_csum16\<close>: the bytes are summed as 16-bit words in a 32-bit register, which is then folded.
\<close>

fun sum16 :: "nat \<Rightarrow> 32 word \<Rightarrow> byte list \<Rightarrow> 32 word option" where
  "sum16 0 csum bs = Some csum"
| "sum16 (Suc 0) csum bs = (case bs of b # _ \<Rightarrow> Some (csum + ucast b) | [] \<Rightarrow> None)"
| "sum16 (Suc (Suc n)) csum bs =
     (case bs of b0 # b1 # bs \<Rightarrow> sum16 n (csum + word_of [b0, b1]) bs | _ \<Rightarrow> None)"

lemma mod_add_div_less:
  fixes n m :: nat
  assumes "0 < n div m" "1 < m"
  shows "n mod m + n div m < n"
proof -
  have "n div m < m * (n div m)" using assms by simp
  then show ?thesis using mult_div_mod_eq [of m n] by linarith
qed

function fold16 :: "32 word \<Rightarrow> 16 word" where
  "fold16 csum = (if drop_bit 16 csum \<noteq> 0 then fold16 ((csum AND 0xFFFF) + drop_bit 16 csum) else ucast csum)"
  by pat_completeness auto
termination
proof (relation "measure unat")
  fix csum :: "32 word"
  assume "drop_bit 16 csum \<noteq> 0"
  then have hi: "0 < unat csum div 2 ^ 16" by (metis drop_bit_eq_div neq0_conv unat_drop_bit_eq unsigned_0 unat_eq_zero)
  have "unat csum < 2 ^ 32" using unsigned_less [of csum] by simp
  then have "unat csum mod 2 ^ 16 + unat csum div 2 ^ 16 < 2 ^ 32" by simp
  moreover have "csum AND 0xFFFF = take_bit 16 csum" by (simp add: take_bit_eq_mask mask_eq_exp_minus_1)
  ultimately have "unat ((csum AND 0xFFFF) + drop_bit 16 csum) = unat csum mod 2 ^ 16 + unat csum div 2 ^ 16"
    by (simp add: unat_word_ariths unsigned_take_bit_eq unsigned_drop_bit_eq take_bit_eq_mod drop_bit_eq_div)
  also have "\<dots> < unat csum" using hi by (rule mod_add_div_less) simp
  finally show "((csum AND 0xFFFF) + drop_bit 16 csum, csum) \<in> measure unat" by simp
qed simp

text \<open>The buffer is assumed to be aligned.\<close>

definition opal_csum16 :: "cptr \<Rightarrow> nat \<Rightarrow> 16 word option" where
  "opal_csum16 source csumlen =
     (if aligned 2 (fst source) then map_option fold16 (sum16 csumlen 0 (snd source)) else None)"

section \<open>Checksums with copying\<close>

fun copy_words ::
  "bool \<Rightarrow> bool \<Rightarrow> nat \<Rightarrow> 'w::len word \<Rightarrow> cptr \<Rightarrow> dptr \<Rightarrow> ('w word \<times> cptr \<times> dptr) option" where
  "copy_words rdirect wdirect 0 csum src dest = Some (csum, src, dest)"
| "copy_words rdirect wdirect (Suc n) csum src dest =
     do { temp \<leftarrow> rd_word rdirect src;
          dest \<leftarrow> wr_word wdirect temp dest;
          copy_words rdirect wdirect n (csum + temp) (advance (LENGTH('w) div 8) src) dest }"

text \<open>
  How the words behind a completed partial word are read and written: by the alignment of the arguments, and
  of the pointers after the partial word.
\<close>

definition copy_mode :: "nat \<Rightarrow> nat \<Rightarrow> nat \<Rightarrow> nat \<Rightarrow> nat \<Rightarrow> bool \<times> bool" where
  "copy_mode k source destination src dest =
     (if aligned k source \<and> aligned k destination then (False, False)
      else if aligned k source then (False, aligned k dest)
      else if aligned k destination then (aligned k src, False)
      else (aligned k src \<and> aligned k dest, aligned k src \<and> aligned k dest))"

definition bcopy_body ::
  "cptr \<Rightarrow> dptr \<Rightarrow> nat \<Rightarrow> nat \<Rightarrow> 'w::len partial
     \<Rightarrow> ('w word \<times> cptr \<times> dptr \<times> nat \<times> 'w partial \<times> bool) option" where
  "bcopy_body source destination copylen residue = (\<lambda>(last_word, last_len).
     let k = LENGTH('w) div 8 in
     if last_len \<noteq> 0
     then if k - last_len \<le> copylen
          then do { bs \<leftarrow> rd_bytes (k - last_len) source;
                    temp \<leftarrow> put_at last_len bs last_word;
                    dest \<leftarrow> store (take (k - last_len) (drop last_len (bytes_of temp))) destination;
                    let src = advance (k - last_len) source;
                        copylen = copylen - (k - last_len);
                        mode = copy_mode k (fst source) (fst destination) (fst src) (fst dest);
                        n = copylen div k
                    in do { (csum, src, dest) \<leftarrow> copy_words (fst mode) (snd mode) n (temp - last_word) src dest;
                            Some (csum, src, dest, copylen - n * k, (0, 0), False) } }
          else do { bs \<leftarrow> rd_bytes copylen source;
                    temp \<leftarrow> put_at last_len bs last_word;
                    dest \<leftarrow> store (take copylen (drop last_len (bytes_of temp))) destination;
                    Some (temp - last_word, advance copylen source, dest, 0, (temp, last_len + copylen), False) }
     else do { (csum, src, dest) \<leftarrow>
                 copy_words (aligned k (fst source)) (aligned k (fst destination)) (copylen div k) 0 source destination;
               Some (csum, src, dest, copylen - copylen div k * k, (0, 0),
                 aligned k (fst source) \<and> aligned k (fst destination) \<and> aligned k copylen \<and> residue = 0) })"

text \<open>The bytes left over, all of which are copied and summed.\<close>

definition bcopy_tail ::
  "'w::len word \<Rightarrow> cptr \<Rightarrow> dptr \<Rightarrow> nat \<Rightarrow> 'w partial \<Rightarrow> ('w word \<times> 'w partial \<times> dptr) option" where
  "bcopy_tail csum src dest copylen = (\<lambda>(last_word, last_len).
     let k = LENGTH('w) div 8 in
     if last_len \<noteq> 0
     then do { bs \<leftarrow> rd_bytes copylen src;
               dest \<leftarrow> store bs dest;
               if k - last_len \<le> copylen
               then do { temp \<leftarrow> put_at last_len (take (k - last_len) bs) last_word;
                         temp2 \<leftarrow> put_at 0 (drop (k - last_len) bs) 0;
                         Some (csum + (temp - last_word) + temp2, (temp2, copylen - (k - last_len)), dest) }
               else do { temp \<leftarrow> put_at last_len bs last_word;
                         Some (csum + (temp - last_word), (temp, last_len + copylen), dest) } }
     else do { bs \<leftarrow> rd_bytes copylen src;
               temp \<leftarrow> put_at 0 bs last_word;
               dest \<leftarrow> store (take copylen (bytes_of temp)) dest;
               Some (csum + temp, (temp, copylen), dest) })"

text \<open>
  More bytes are summed than copied.  Here the length of the partial word or the number of bytes left over
  is 0, so that the \<^verbatim>\<open>size_t\<close> differences do not wrap around; otherwise the result is left open.
\<close>

definition sum_residue :: "'w::len word \<Rightarrow> cptr \<Rightarrow> nat \<Rightarrow> 'w partial \<Rightarrow> ('w word \<times> 'w partial) option" where
  "sum_residue csum src residue lp =
     (let k = LENGTH('w) div 8 in
      do { (csum, src) \<leftarrow> sum_words (aligned k (fst src)) (residue div k) csum src;
           if residue - residue div k * k \<noteq> 0
           then do { bs \<leftarrow> rd_bytes (residue - residue div k * k) src;
                     temp \<leftarrow> put_at 0 bs 0;
                     Some (csum + temp, (temp, residue - residue div k * k)) }
           else Some (csum, lp) })"

definition bcopy_residue ::
  "'w::len word \<Rightarrow> cptr \<Rightarrow> dptr \<Rightarrow> nat \<Rightarrow> nat \<Rightarrow> 'w partial \<Rightarrow> ('w word \<times> 'w partial \<times> dptr) option" where
  "bcopy_residue csum src dest copylen residue = (\<lambda>(last_word, last_len).
     let k = LENGTH('w) div 8 in
     if k < copylen + last_len then None
     else
       do { cp \<leftarrow> rd_bytes copylen src;
            dest \<leftarrow> store cp dest;
            (csum, lp) \<leftarrow>
              (if residue < k - copylen - last_len
               then do { bs \<leftarrow> rd_bytes (copylen + residue) src;
                         temp \<leftarrow> put_at last_len bs last_word;
                         sum_residue (csum + (temp - last_word)) (advance k src) 0 (temp, last_len + copylen + residue) }
               else do { bs \<leftarrow> rd_bytes (k - last_len) src;
                         temp \<leftarrow> put_at last_len bs last_word;
                         sum_residue (csum + (temp - last_word)) (advance (k - last_len) src)
                           (residue - (k - last_len - copylen)) (0, 0) });
            Some (csum, lp, dest) })"

definition bcopy_csum_partial ::
  "cptr \<Rightarrow> dptr \<Rightarrow> nat \<Rightarrow> nat \<Rightarrow> 'w::len partial \<Rightarrow> ('w word \<times> 'w partial \<times> dptr) option" where
  "bcopy_csum_partial source destination copylen csumlen lp =
     (let residue = (if copylen < csumlen then csumlen - copylen else 0)
      in do { (csum, src, dest, copylen, lp, fin) \<leftarrow> bcopy_body source destination copylen residue lp;
              if fin then Some (csum, lp, dest)
              else if copylen \<noteq> 0 \<and> residue = 0 then bcopy_tail csum src dest copylen lp
              else if residue \<noteq> 0 then bcopy_residue csum src dest copylen residue lp
              else Some (csum, lp, dest) })"

definition opal_bcopy_csum_partial ::
  "cptr \<Rightarrow> dptr \<Rightarrow> nat \<Rightarrow> nat \<Rightarrow> 64 partial \<Rightarrow> (64 word \<times> 64 partial \<times> dptr) option" where
  "opal_bcopy_csum_partial = bcopy_csum_partial"

definition opal_bcopy_uicsum_partial ::
  "cptr \<Rightarrow> dptr \<Rightarrow> nat \<Rightarrow> nat \<Rightarrow> 32 partial \<Rightarrow> (32 word \<times> 32 partial \<times> dptr) option" where
  "opal_bcopy_uicsum_partial = bcopy_csum_partial"

definition opal_bcopy_csum :: "cptr \<Rightarrow> dptr \<Rightarrow> nat \<Rightarrow> nat \<Rightarrow> (64 word \<times> dptr) option" where
  "opal_bcopy_csum source destination copylen csumlen =
     map_option (\<lambda>(csum, _, dest). (csum, dest)) (opal_bcopy_csum_partial source destination copylen csumlen (0, 0))"

definition opal_bcopy_uicsum :: "cptr \<Rightarrow> dptr \<Rightarrow> nat \<Rightarrow> nat \<Rightarrow> (32 word \<times> dptr) option" where
  "opal_bcopy_uicsum source destination copylen csumlen =
     map_option (\<lambda>(csum, _, dest). (csum, dest)) (opal_bcopy_uicsum_partial source destination copylen csumlen (0, 0))"

section \<open>CRC-32\<close>

definition CRC_POLYNOMIAL :: "32 word" where "CRC_POLYNOMIAL = 0x04c11db7"
definition CRC_INITIAL_REGISTER :: "32 word" where "CRC_INITIAL_REGISTER = 0xffffffff"

definition crc_shift :: "32 word \<Rightarrow> 32 word" where
  "crc_shift a = (if a AND 0x80000000 \<noteq> 0 then push_bit 1 a XOR CRC_POLYNOMIAL else push_bit 1 a)"

definition crc_entry :: "nat \<Rightarrow> 32 word" where
  "crc_entry i = (crc_shift ^^ 8) (push_bit 24 (of_nat i))"

text \<open>The static variables: whether the table has been filled, and the table.\<close>

type_synonym crc_state = "bool \<times> 32 word list"

definition opal_initialize_crc_table :: "crc_state \<Rightarrow> crc_state" where
  "opal_initialize_crc_table = (\<lambda>_. (True, map crc_entry [0..<256]))"

definition crc_step :: "32 word list \<Rightarrow> 32 word \<Rightarrow> byte \<Rightarrow> 32 word" where
  "crc_step table partial_crc b =
     (let i = (drop_bit 24 partial_crc XOR ucast b) AND 0xff
      in push_bit 8 partial_crc XOR table ! unat i)"

text \<open>The loop over whole integers, which are read through the pointer, and then over the bytes left.\<close>

fun crc_ints :: "32 word list \<Rightarrow> nat \<Rightarrow> cptr \<Rightarrow> 32 word \<Rightarrow> (32 word \<times> cptr) option" where
  "crc_ints table 0 src crc = Some (crc, src)"
| "crc_ints table (Suc n) src crc =
     do { tmp \<leftarrow> rd_word True src :: 32 word option;
          crc_ints table n (advance 4 src) (foldl (crc_step table) crc (bytes_of tmp)) }"

definition crc_bytes :: "32 word list \<Rightarrow> nat \<Rightarrow> cptr \<Rightarrow> 32 word \<Rightarrow> 32 word option" where
  "crc_bytes table n src crc = do { bs \<leftarrow> rd_bytes n src; Some (foldl (crc_step table) crc bs) }"

definition opal_uicrc_partial :: "crc_state \<Rightarrow> cptr \<Rightarrow> nat \<Rightarrow> 32 word \<Rightarrow> (32 word \<times> crc_state) option" where
  "opal_uicrc_partial st source crclen partial_crc =
     (let st = (if \<not> fst st then opal_initialize_crc_table st else st);
          table = snd st
      in if aligned 4 (fst source)
         then do { (crc, src) \<leftarrow> crc_ints table (crclen div 4) source partial_crc;
                   crc \<leftarrow> crc_bytes table (crclen mod 4) src crc;
                   Some (crc, st) }
         else do { crc \<leftarrow> crc_bytes table crclen source partial_crc;
                   Some (crc, st) })"

fun copy_ints :: "32 word list \<Rightarrow> nat \<Rightarrow> cptr \<Rightarrow> dptr \<Rightarrow> 32 word \<Rightarrow> (32 word \<times> cptr \<times> dptr) option" where
  "copy_ints table 0 src dst crc = Some (crc, src, dst)"
| "copy_ints table (Suc n) src dst crc =
     do { tmp \<leftarrow> rd_word True src :: 32 word option;
          dst \<leftarrow> wr_word True tmp dst;
          copy_ints table n (advance 4 src) dst (foldl (crc_step table) crc (bytes_of tmp)) }"

definition copy_bytes :: "32 word list \<Rightarrow> nat \<Rightarrow> cptr \<Rightarrow> dptr \<Rightarrow> 32 word \<Rightarrow> (32 word \<times> cptr \<times> dptr) option" where
  "copy_bytes table n src dst crc =
     do { bs \<leftarrow> rd_bytes n src; dst \<leftarrow> store bs dst; Some (foldl (crc_step table) crc bs, advance n src, dst) }"

definition opal_bcopy_uicrc_partial ::
  "crc_state \<Rightarrow> cptr \<Rightarrow> dptr \<Rightarrow> nat \<Rightarrow> nat \<Rightarrow> 32 word \<Rightarrow> (32 word \<times> dptr \<times> crc_state) option" where
  "opal_bcopy_uicrc_partial st source destination copylen crclen partial_crc =
     (let residue = (if copylen < crclen then crclen - copylen else 0);
          st = (if \<not> fst st then opal_initialize_crc_table st else st);
          table = snd st
      in do { (crc, src, dst) \<leftarrow>
                (if aligned 4 (fst source) \<and> aligned 4 (fst destination)
                 then do { (crc, src, dst) \<leftarrow> copy_ints table (copylen div 4) source destination partial_crc;
                           copy_bytes table (copylen mod 4) src dst crc }
                 else copy_bytes table copylen source destination partial_crc);
              crc \<leftarrow> crc_bytes table residue src crc;
              Some (crc, dst, st) })"

definition opal_uicrc :: "crc_state \<Rightarrow> cptr \<Rightarrow> nat \<Rightarrow> (32 word \<times> crc_state) option" where
  "opal_uicrc st source crclen = opal_uicrc_partial st source crclen CRC_INITIAL_REGISTER"

definition opal_bcopy_uicrc ::
  "crc_state \<Rightarrow> cptr \<Rightarrow> dptr \<Rightarrow> nat \<Rightarrow> nat \<Rightarrow> (32 word \<times> dptr \<times> crc_state) option" where
  "opal_bcopy_uicrc st source destination copylen crclen =
     opal_bcopy_uicrc_partial st source destination copylen crclen CRC_INITIAL_REGISTER"

end
