(* ===== verification/Opal_Crc_Laws.thy ===== *)
theory Opal_Crc_Laws
  imports Opal_Crc
begin

text \<open>
  The checksums of \<^verbatim>\<open>opal/util/crc.c\<close> against reference definitions: the additive checksum is the
  sum of the words of the whole input, however it is cut into calls, and the table-driven CRC is the bitwise
  one.
\<close>

section \<open>Words and bytes\<close>

lemma le_nat_append: "le_nat (xs @ ys) = le_nat xs + 256 ^ length xs * le_nat ys"
  by (induction xs) (simp_all add: algebra_simps)

lemma le_nat_zeros [simp]: "le_nat (replicate n 0) = 0"
  by (induction n) simp_all

lemma le_nat_less: "le_nat bs < 256 ^ length bs"
proof (induction bs)
  case (Cons b bs)
  have "unat b < 256" using unsigned_less [of b] by simp
  with Cons show ?case by simp
qed simp

lemma length_le_bytes [simp]: "length (le_bytes k n) = k"
  by (induction k arbitrary: n) simp_all

lemma le_bytes_le_nat: "le_bytes (length bs + j) (le_nat bs) = bs @ replicate j 0"
proof (induction bs)
  case Nil
  show ?case by (induction j) simp_all
next
  case (Cons b bs)
  have b: "unat b < 256" using unsigned_less [of b] by simp
  have "(of_nat (256 * le_nat bs) :: byte) = 0" unfolding word_of_nat_eq_0_iff by simp
  then have "(of_nat (unat b + 256 * le_nat bs) :: byte) = b" unfolding of_nat_add by simp
  with b Cons show ?case by simp
qed

text \<open>The sum of the words of a list of bytes, the last one filled up with zeros.\<close>

function checksum :: "nat \<Rightarrow> byte list \<Rightarrow> 'w::len word" where
  "checksum k bs = (if k = 0 \<or> bs = [] then 0 else word_of (take k bs) + checksum k (drop k bs))"
  by pat_completeness auto
termination by (relation "measure (\<lambda>(k, bs). length bs)") auto

declare checksum.simps [simp del]

lemma checksum_Nil [simp]: "checksum k [] = 0"
  by (simp add: checksum.simps)

lemma checksum_word: "0 < k \<Longrightarrow> length p \<le> k \<Longrightarrow> checksum k p = word_of p"
  by (subst checksum.simps) (simp add: word_of_def)

lemma checksum_append: "length xs mod k = 0 \<Longrightarrow> checksum k (xs @ ys) = checksum k xs + checksum k ys"
proof (induction "length xs" arbitrary: xs rule: less_induct)
  case less
  show ?case
  proof (cases "k = 0 \<or> xs = []")
    case True
    with less.prems show ?thesis by (auto simp: checksum.simps [of 0])
  next
    case False
    with less.prems have k: "0 < k" "k \<le> length xs" by (auto simp: mod_eq_0_iff_dvd dest: dvd_imp_le)
    then have "checksum k (drop k xs @ ys) = checksum k (drop k xs) + (checksum k ys :: 'a word)"
      using less.prems by (intro less.hyps) (auto simp: mod_eq_0_iff_dvd dvd_diff_nat)
    with k False show ?thesis by (simp add: checksum.simps [of k "xs @ ys"] checksum.simps [of k xs])
  qed
qed

text \<open>The bytes behind the last complete word.\<close>

definition rest_of :: "nat \<Rightarrow> byte list \<Rightarrow> byte list" where
  "rest_of k bs = drop (length bs div k * k) bs"

lemma length_rest_of: "length (rest_of k bs) = length bs mod k"
  by (simp add: rest_of_def minus_div_mult_eq_mod)

lemma rest_of_append: "length xs mod k = 0 \<Longrightarrow> rest_of k (xs @ ys) = rest_of k ys"
  by (cases "k = 0") (auto simp: rest_of_def mod_eq_0_iff_dvd algebra_simps elim!: dvdE)

lemma rest_of_short: "length p < k \<Longrightarrow> rest_of k p = p"
  by (simp add: rest_of_def)

section \<open>Additive checksums\<close>

locale byte_word =
  fixes k :: nat and ty :: "'w::len itself"
  assumes bits: "LENGTH('w) = 8 * k"
begin

lemma bytes [simp]: "LENGTH('w) div 8 = k"
  by (simp add: bits)

lemma pos: "0 < k"
  using bits len_gt_0 [where 'a = 'w] by simp

lemma unat_word_of: "length bs \<le> k \<Longrightarrow> unat (word_of bs :: 'w word) = le_nat bs"
proof -
  assume "length bs \<le> k"
  then have "256 ^ length bs \<le> (256 :: nat) ^ k" by (simp add: power_increasing)
  also have "\<dots> = 2 ^ LENGTH('w)" by (simp add: bits power_mult)
  finally show ?thesis using le_nat_less [of bs] by (simp add: word_of_def unat_of_nat take_bit_nat_eq_self)
qed

lemma bytes_of_word: "length p \<le> k \<Longrightarrow> bytes_of (word_of p :: 'w word) = p @ replicate (k - length p) 0"
  using le_bytes_le_nat [of p "k - length p"] by (simp add: bytes_of_def unat_word_of)

lemma length_bytes_of [simp]: "length (bytes_of (w :: 'w word)) = k"
  by (simp add: bytes_of_def)

lemma put_at_partial:
  assumes "length p + length bs \<le> k"
  shows "put_at (length p) bs (word_of p :: 'w word) = Some (word_of (p @ bs))"
proof -
  let ?z = "replicate (k - length p - length bs) 0"
  have "bytes_of (word_of p :: 'w word) = p @ replicate (k - length p) 0" using assms by (simp add: bytes_of_word)
  then have "put_at (length p) bs (word_of p :: 'w word) = Some (word_of (p @ bs @ ?z))"
    using assms by (simp add: put_at_def drop_replicate)
  then show ?thesis by (simp add: word_of_def le_nat_append)
qed

lemma put_at_zero: "length bs \<le> k \<Longrightarrow> put_at 0 bs (0 :: 'w word) = Some (word_of bs)"
  using put_at_partial [of "[]" bs] by (simp add: word_of_def)

lemma sum_words_spec:
  assumes "n * k \<le> length bs" "direct \<Longrightarrow> aligned k a"
  shows "sum_words direct n (c :: 'w word) (a, bs) = Some (c + checksum k (take (n * k) bs), advance (n * k) (a, bs))"
  using assms
proof (induction n arbitrary: c a bs)
  case (Suc n)
  have "aligned k (a + k)" if direct using Suc.prems(2) [OF that] by (simp add: aligned_def)
  with Suc.prems have IH: "sum_words direct n (c + word_of (take k bs) :: 'w word) (a + k, drop k bs) =
      Some (c + word_of (take k bs) + checksum k (take (n * k) (drop k bs)), advance (n * k) (a + k, drop k bs))"
    by (intro Suc.IH) auto
  have "take (Suc n * k) bs = take k bs @ take (n * k) (drop k bs)" by (simp add: take_add)
  then have "checksum k (take (Suc n * k) bs) = (word_of (take k bs) :: 'w word) + checksum k (take (n * k) (drop k bs))"
    using Suc.prems(1) pos by (simp add: checksum_append checksum_word)
  with IH Suc.prems show ?case by (simp add: rd_word_def advance_def add.commute add.assoc)
qed (simp add: advance_def)

text \<open>
  What a call does with the bytes \<open>xs\<close> when the bytes \<open>p\<close> are pending: the sum grows by the
  difference, and the bytes behind the last complete word are pending.
\<close>

definition pending :: "byte list \<Rightarrow> 'w partial" where
  "pending p = (word_of p, length p)"

definition summed :: "byte list \<Rightarrow> byte list \<Rightarrow> 'w word" where
  "summed p xs = checksum k (p @ xs) - word_of p"

lemma pending_Nil: "pending [] = (0, 0)"
  by (simp add: pending_def word_of_def)

lemma summed_words:
  assumes "length (p @ xs) mod k = 0" "length ys \<le> k"
  shows "summed p (xs @ ys) = summed p xs + word_of ys"
  using checksum_append [OF assms(1), of ys] assms(2) pos by (simp add: summed_def checksum_word)

lemma summed_more:
  assumes "length (p @ xs) mod k = 0"
  shows "summed p (xs @ ys) = summed p xs + checksum k ys" "rest_of k (p @ xs @ ys) = rest_of k ys"
  using checksum_append [OF assms, of ys] rest_of_append [OF assms, of ys] by (simp_all add: summed_def)

lemma csum_body_spec:
  assumes p: "length p < k" and n: "n \<le> length bs"
  obtains m fin where "csum_body (a, bs) n (pending p) =
      Some (summed p (take m bs), advance m (a, bs), n - m, pending (rest_of k (p @ take m bs)), fin)"
    "m \<le> n" "m = n \<or> length (p @ take m bs) mod k = 0" "n - m < k" "fin \<longrightarrow> m = n"
proof (cases "p = []")
  case True
  let ?m = "n div k * k"
  have "sum_words (aligned k a) (n div k) (0 :: 'w word) (a, bs) =
      Some (0 + checksum k (take ?m bs), advance ?m (a, bs))"
    using n by (intro sum_words_spec) (auto intro: le_trans [OF div_times_less_eq_dividend])
  moreover have "rest_of k (take ?m bs) = []"
    using n by (simp add: rest_of_def le_trans [OF div_times_less_eq_dividend])
  moreover have "min (length bs) ?m = ?m" using n by (simp add: min_absorb2 le_trans [OF div_times_less_eq_dividend])
  ultimately show thesis
    using True n pos
    by (intro that [of ?m "aligned k a \<and> aligned k n"])
      (auto simp: csum_body_def pending_def summed_def word_of_def aligned_def minus_div_mult_eq_mod)
next
  case False
  let ?j = "k - length p"
  show thesis
  proof (cases "?j \<le> n")
    case True
    let ?n = "n - ?j"
    let ?q = "?n div k"
    let ?m = "?j + ?q * k"
    have j: "length (take ?j bs) = ?j" using True n by simp
    then have temp: "put_at (length p) (take ?j bs) (word_of p :: 'w word) = Some (word_of (p @ take ?j bs))"
      using p by (intro put_at_partial) simp
    have q: "?q * k \<le> length (drop ?j bs)" using n by (auto intro: le_trans [OF div_times_less_eq_dividend])
    have sum: "sum_words d ?q (c :: 'w word) (a + ?j, drop ?j bs) =
        Some (c + checksum k (take (?q * k) (drop ?j bs)), advance (?q * k) (a + ?j, drop ?j bs))"
      if "d \<longrightarrow> aligned k (a + ?j)" for c d
      using q that by (intro sum_words_spec) auto
    have body: "csum_body (a, bs) n (pending p) =
        Some ((word_of (p @ take ?j bs) - word_of p) + checksum k (take (?q * k) (drop ?j bs)),
          advance (?q * k) (a + ?j, drop ?j bs), ?n - ?q * k, (0, 0), False)"
      using True False j n by (simp add: csum_body_def pending_def rd_bytes_def temp advance_def sum Let_def)
    have word: "length (p @ take ?j bs) mod k = 0" using j p by simp
    have m: "take ?m bs = take ?j bs @ take (?q * k) (drop ?j bs)" by (simp add: take_add)
    have sm: "summed p (take ?m bs) = (word_of (p @ take ?j bs) - word_of p) + checksum k (take (?q * k) (drop ?j bs))"
      using summed_more(1) [OF word] j p pos unfolding m by (simp add: summed_def checksum_word)
    have words: "length (p @ take ?m bs) mod k = 0"
      unfolding m using j p q by simp
    then have rest: "rest_of k (p @ take ?m bs) = []"
      using length_rest_of [of k "p @ take ?m bs"] by (simp only: length_0_conv)
    have src: "advance (?q * k) (a + ?j, drop ?j bs) = advance ?m (a, bs)"
      by (simp add: advance_def add.assoc add.commute)
    have len: "?n - ?q * k = n - ?m" "n - ?m = ?n mod k" using minus_div_mult_eq_mod [of ?n k] by simp_all
    show thesis
    proof (rule that [of ?m False])
      show "csum_body (a, bs) n (pending p) =
          Some (summed p (take ?m bs), advance ?m (a, bs), n - ?m, pending (rest_of k (p @ take ?m bs)), False)"
        unfolding body sm src len(1) rest pending_Nil ..
      show "?m \<le> n" using True div_times_less_eq_dividend [of ?n k] by linarith
      show "n - ?m < k" unfolding len(2) using pos by simp
    qed (use words in blast)+
  next
    case no: False
    then have "put_at (length p) (take n bs) (word_of p :: 'w word) = Some (word_of (p @ take n bs))"
      using n by (intro put_at_partial) simp
    with no False n pos show thesis
      by (intro that [of n False])
        (simp_all add: csum_body_def pending_def rd_bytes_def summed_def checksum_word rest_of_short)
  qed
qed

lemma csum_partial_spec:
  assumes p: "length p < k" and n: "n \<le> length bs"
  shows "csum_partial (a, bs) n (pending p) = Some (summed p (take n bs), pending (rest_of k (p @ take n bs)))"
proof -
  obtain m fin where m: "csum_body (a, bs) n (pending p) =
      Some (summed p (take m bs), advance m (a, bs), n - m, pending (rest_of k (p @ take m bs)), fin)"
    "m \<le> n" "m = n \<or> length (p @ take m bs) mod k = 0" "n - m < k" "fin \<longrightarrow> m = n"
    using assms by (rule csum_body_spec)
  show ?thesis
  proof (cases "m = n")
    case True
    with m show ?thesis by (simp add: csum_partial_def csum_tail_def pending_def)
  next
    case False
    let ?ys = "take (n - m) (drop m bs)"
    have w: "length (p @ take m bs) mod k = 0" using m(3) False by simp
    then have "rest_of k (p @ take m bs) = []" using length_rest_of [of k "p @ take m bs"] by simp
    moreover have "take n bs = take m bs @ ?ys" using m(2) by (metis le_add_diff_inverse take_add)
    moreover have "length ?ys = n - m" using n by simp
    ultimately show ?thesis
      using m False summed_words [OF w, of ?ys] summed_more(2) [OF w, of ?ys] put_at_zero [of ?ys]
      by (simp add: csum_partial_def csum_tail_def pending_def advance_def rd_bytes_def rest_of_short word_of_def)
  qed
qed

text \<open>Calls on two pieces do what one call on both does.\<close>

lemma split_rest: "bs = take (length bs div k * k) bs @ rest_of k bs"
  by (simp add: rest_of_def)

lemma length_split: "length (take (length bs div k * k) bs) mod k = 0"
  by (simp add: min_absorb2 div_times_less_eq_dividend)

lemma summed_append: "summed p (xs @ ys) = summed p xs + summed (rest_of k (p @ xs)) ys"
proof -
  let ?w = "take (length (p @ xs) div k * k) (p @ xs)" and ?r = "rest_of k (p @ xs)"
  have "checksum k (p @ xs @ ys) = (checksum k ?w :: 'w word) + checksum k (?r @ ys)"
    using checksum_append [OF length_split, of "p @ xs" "?r @ ys"] split_rest [of "p @ xs"]
    by (metis append.assoc)
  moreover have "checksum k (p @ xs) = (checksum k ?w :: 'w word) + checksum k ?r"
    using checksum_append [OF length_split, of "p @ xs" ?r] split_rest [of "p @ xs"] by simp
  moreover have "checksum k ?r = (word_of ?r :: 'w word)"
    using pos by (intro checksum_word) (simp_all add: length_rest_of less_imp_le)
  ultimately show ?thesis by (simp add: summed_def)
qed

lemma rest_append: "rest_of k (p @ xs @ ys) = rest_of k (rest_of k (p @ xs) @ ys)"
  using rest_of_append [OF length_split, of "p @ xs" "rest_of k (p @ xs) @ ys"] split_rest [of "p @ xs"]
  by (metis append.assoc)

section \<open>Checksums with copying\<close>

definition written :: "byte list \<Rightarrow> dptr \<Rightarrow> dptr" where
  "written bs = (\<lambda>(d, r, out). (d + length bs, r - length bs, out @ bs))"

lemma store_written: "length bs \<le> r \<Longrightarrow> store bs (d, r, out) = Some (written bs (d, r, out))"
  by (simp add: store_def written_def)

lemma copy_words_spec:
  assumes "n * k \<le> length bs" "n * k \<le> r" "rdirect \<Longrightarrow> aligned k a" "wdirect \<Longrightarrow> aligned k d"
  shows "copy_words rdirect wdirect n (c :: 'w word) (a, bs) (d, r, out) =
    Some (c + checksum k (take (n * k) bs), advance (n * k) (a, bs), written (take (n * k) bs) (d, r, out))"
  using assms
proof (induction n arbitrary: c a bs d r out)
  case (Suc n)
  have "aligned k (a + k)" if rdirect using Suc.prems(3) [OF that] by (simp add: aligned_def)
  moreover have "aligned k (d + k)" if wdirect using Suc.prems(4) [OF that] by (simp add: aligned_def)
  ultimately have IH: "copy_words rdirect wdirect n (c + word_of (take k bs) :: 'w word) (a + k, drop k bs)
      (d + k, r - k, out @ take k bs) =
      Some (c + word_of (take k bs) + checksum k (take (n * k) (drop k bs)), advance (n * k) (a + k, drop k bs),
        written (take (n * k) (drop k bs)) (d + k, r - k, out @ take k bs))"
    using Suc.prems by (intro Suc.IH) auto
  have "take (Suc n * k) bs = take k bs @ take (n * k) (drop k bs)" by (simp add: take_add)
  then have "checksum k (take (Suc n * k) bs) = (word_of (take k bs) :: 'w word) + checksum k (take (n * k) (drop k bs))"
    using Suc.prems(1) pos by (simp add: checksum_append checksum_word)
  moreover have "bytes_of (word_of (take k bs) :: 'w word) = take k bs"
    using Suc.prems(1) bytes_of_word [of "take k bs"] by simp
  ultimately show ?case using IH Suc.prems
    by (simp add: rd_word_def wr_word_def store_def advance_def written_def add.commute add.assoc take_add)
qed (simp add: advance_def written_def)

lemma temp_bytes:
  "length (p @ bs) \<le> k \<Longrightarrow> take (length bs) (drop (length p) (bytes_of (word_of (p @ bs) :: 'w word))) = bs"
  by (simp add: bytes_of_word)

lemma bcopy_body_spec:
  assumes p: "length p < k" and n: "n \<le> length bs" "n \<le> r"
  obtains m fin where "bcopy_body (a, bs) (d, r, out) n residue (pending p) =
      Some (summed p (take m bs), advance m (a, bs), written (take m bs) (d, r, out), n - m,
        pending (rest_of k (p @ take m bs)), fin)"
    "m \<le> n" "m = n \<or> length (p @ take m bs) mod k = 0" "n - m < k" "fin \<longrightarrow> m = n \<and> residue = 0"
proof (cases "p = []")
  case True
  let ?m = "n div k * k" and ?f = "aligned k a \<and> aligned k d \<and> aligned k n \<and> residue = 0"
  have m: "?m \<le> n" by (rule div_times_less_eq_dividend)
  have copy: "copy_words (aligned k a) (aligned k d) (n div k) (0 :: 'w word) (a, bs) (d, r, out) =
      Some (0 + checksum k (take ?m bs), advance ?m (a, bs), written (take ?m bs) (d, r, out))"
    using n by (intro copy_words_spec) (auto intro: le_trans [OF m])
  have len: "length (take ?m bs) = ?m" using le_trans [OF m n(1)] by simp
  then have rest: "rest_of k (take ?m bs) = []" by (simp add: rest_of_def)
  show thesis
  proof (rule that [of ?m ?f])
    show "bcopy_body (a, bs) (d, r, out) n residue (pending p) =
        Some (summed p (take ?m bs), advance ?m (a, bs), written (take ?m bs) (d, r, out), n - ?m,
          pending (rest_of k (p @ take ?m bs)), ?f)"
      using True copy rest by (simp add: bcopy_body_def pending_def summed_def word_of_def)
    show "?m = n \<or> length (p @ take ?m bs) mod k = 0" using True len by simp
    show "n - ?m < k" using pos by (simp add: minus_div_mult_eq_mod)
    show "?f \<longrightarrow> ?m = n \<and> residue = 0" using pos by (auto simp: aligned_def)
  qed (rule m)
next
  case False
  let ?j = "k - length p"
  show thesis
  proof (cases "?j \<le> n")
    case True
    let ?n = "n - ?j"
    let ?q = "?n div k"
    let ?m = "?j + ?q * k" and ?dst = "written (take ?j bs) (d, r, out)"
    let ?mode = "copy_mode k a d (a + ?j) (d + ?j)"
    have j: "length (take ?j bs) = ?j" using True n by simp
    then have temp: "put_at (length p) (take ?j bs) (word_of p :: 'w word) = Some (word_of (p @ take ?j bs))"
      using p by (intro put_at_partial) simp
    have dst: "store (take ?j (drop (length p) (bytes_of (word_of (p @ take ?j bs) :: 'w word)))) (d, r, out) = Some ?dst"
      using temp_bytes [of p "take ?j bs"] j p True n by (simp add: store_written)
    have w: "?dst = (d + ?j, r - ?j, out @ take ?j bs)" using j by (simp add: written_def)
    have q: "?q * k \<le> length (drop ?j bs)" "?q * k \<le> r - ?j"
      using n by (auto intro: le_trans [OF div_times_less_eq_dividend])
    have copy: "copy_words (fst ?mode) (snd ?mode) ?q (c :: 'w word) (a + ?j, drop ?j bs) ?dst =
        Some (c + checksum k (take (?q * k) (drop ?j bs)), advance (?q * k) (a + ?j, drop ?j bs),
          written (take (?q * k) (drop ?j bs)) ?dst)" for c
      unfolding w using q by (intro copy_words_spec) (auto simp: copy_mode_def split: if_splits)
    have body: "bcopy_body (a, bs) (d, r, out) n residue (pending p) =
        Some ((word_of (p @ take ?j bs) - word_of p) + checksum k (take (?q * k) (drop ?j bs)),
          advance (?q * k) (a + ?j, drop ?j bs), written (take (?q * k) (drop ?j bs)) ?dst, ?n - ?q * k, (0, 0), False)"
      using True False n copy dst w temp
      by (simp add: bcopy_body_def pending_def rd_bytes_def advance_def Let_def)
    have word: "length (p @ take ?j bs) mod k = 0" using j p by simp
    have m: "take ?m bs = take ?j bs @ take (?q * k) (drop ?j bs)" by (simp add: take_add)
    have sm: "summed p (take ?m bs) = (word_of (p @ take ?j bs) - word_of p) + checksum k (take (?q * k) (drop ?j bs))"
      using summed_more(1) [OF word] j p pos unfolding m by (simp add: summed_def checksum_word)
    have words: "length (p @ take ?m bs) mod k = 0"
      unfolding m using j p q by simp
    then have rest: "rest_of k (p @ take ?m bs) = []"
      using length_rest_of [of k "p @ take ?m bs"] by (simp only: length_0_conv)
    have src: "advance (?q * k) (a + ?j, drop ?j bs) = advance ?m (a, bs)"
      by (simp add: advance_def add.assoc add.commute)
    have out: "written (take (?q * k) (drop ?j bs)) ?dst = written (take ?m bs) (d, r, out)"
      unfolding m by (simp add: written_def add.assoc)
    have len: "?n - ?q * k = n - ?m" "n - ?m = ?n mod k" using minus_div_mult_eq_mod [of ?n k] by simp_all
    show thesis
    proof (rule that [of ?m False])
      show "bcopy_body (a, bs) (d, r, out) n residue (pending p) =
          Some (summed p (take ?m bs), advance ?m (a, bs), written (take ?m bs) (d, r, out), n - ?m,
            pending (rest_of k (p @ take ?m bs)), False)"
        unfolding body sm src len(1) rest pending_Nil out ..
      show "?m \<le> n" using True div_times_less_eq_dividend [of ?n k] by linarith
      show "n - ?m < k" unfolding len(2) using pos by simp
    qed (use words in blast)+
  next
    case no: False
    then have "put_at (length p) (take n bs) (word_of p :: 'w word) = Some (word_of (p @ take n bs))"
      using n by (intro put_at_partial) simp
    moreover have "store (take n (drop (length p) (bytes_of (word_of (p @ take n bs) :: 'w word)))) (d, r, out) =
        Some (written (take n bs) (d, r, out))"
      using temp_bytes [of p "take n bs"] no n by (simp add: store_written)
    ultimately show thesis
      using no False n pos
      by (intro that [of n False])
        (simp_all add: bcopy_body_def pending_def rd_bytes_def summed_def checksum_word rest_of_short)
  qed
qed

lemma bcopy_tail_spec:
  assumes "0 < n" "n \<le> length bs" "n \<le> r" "n < k"
  shows "bcopy_tail c (a, bs) (d, r, out) n (pending []) =
    Some (c + word_of (take n bs), pending (take n bs), written (take n bs) (d, r, out))"
proof -
  have "put_at 0 (take n bs) (0 :: 'w word) = Some (word_of (take n bs))" using assms by (intro put_at_zero) simp
  moreover have "take n (bytes_of (word_of (take n bs) :: 'w word)) = take n bs"
    using temp_bytes [of "[]" "take n bs"] assms by simp
  ultimately show ?thesis
    using assms by (simp add: bcopy_tail_def pending_def rd_bytes_def store_written word_of_def)
qed

lemma sum_residue_spec:
  assumes "R \<le> length xs"
  shows "sum_residue c (a, xs) R (0, 0) = Some (c + checksum k (take R xs), pending (rest_of k (take R xs)))"
proof -
  let ?ys = "take R xs" and ?m = "R div k * k"
  have m: "?m \<le> R" "length ?ys = R" using assms by simp_all
  have words: "sum_words (aligned k a) (R div k) c (a, xs) = Some (c + checksum k (take ?m xs), advance ?m (a, xs))"
    using le_trans [OF m(1) assms] by (intro sum_words_spec)
  have rest: "take (R - ?m) (drop ?m xs) = rest_of k ?ys" using m by (simp add: rest_of_def drop_take)
  have len: "length (rest_of k ?ys) = R - ?m" "length (rest_of k ?ys) < k"
    using m(2) pos by (simp_all add: length_rest_of minus_div_mult_eq_mod)
  have "take ?m ?ys = take ?m xs" using m(1) by (simp add: min_absorb1)
  then have ys: "checksum k ?ys = (checksum k (take ?m xs) :: 'w word) + word_of (rest_of k ?ys)"
    using checksum_append [OF length_split, of ?ys "rest_of k ?ys"] split_rest [of ?ys] len(2) m(2) pos
    by (simp add: checksum_word)
  show ?thesis
  proof (cases "rest_of k ?ys = []")
    case True
    then show ?thesis using len(1) ys words by (simp add: sum_residue_def pending_Nil word_of_def)
  next
    case False
    moreover have "rd_bytes (R - ?m) (advance ?m (a, xs)) = Some (rest_of k ?ys)"
      using assms rest by (simp add: rd_bytes_def advance_def diff_le_mono)
    moreover have "put_at 0 (rest_of k ?ys) (0 :: 'w word) = Some (word_of (rest_of k ?ys))"
      using len(2) by (intro put_at_zero) simp
    moreover have "R - ?m \<noteq> 0" using False len(1) by (metis length_0_conv)
    ultimately show ?thesis
      unfolding sum_residue_def bytes Let_def fst_conv words
      by (simp only: bind.bind_lunit prod.case if_True not_False_eq_True simp_thms ys pending_def len(1) add.assoc)
  qed
qed

lemma bcopy_residue_spec:
  assumes p: "length p < k" "n = 0 \<or> p = []" "n < k" and n: "0 < residue" "n + residue \<le> length bs" "n \<le> r"
  shows "bcopy_residue c (a, bs) (d, r, out) n residue (pending p) =
    Some (c + summed p (take (n + residue) bs), pending (rest_of k (p @ take (n + residue) bs)),
      written (take n bs) (d, r, out))"
proof (cases "residue < k - n - length p")
  case True
  let ?xs = "take (n + residue) bs"
  have xs: "length ?xs = n + residue" "length (p @ ?xs) < k" using n True by simp_all
  then have "put_at (length p) ?xs (word_of p :: 'w word) = Some (word_of (p @ ?xs))"
    by (intro put_at_partial) simp
  moreover have "summed p ?xs = word_of (p @ ?xs) - word_of p" "rest_of k (p @ ?xs) = p @ ?xs"
    using xs(2) pos by (simp_all add: summed_def checksum_word rest_of_short)
  moreover have "\<not> k < n + length p" using True by simp
  ultimately show ?thesis
    using n True by (simp add: bcopy_residue_def pending_def rd_bytes_def store_written sum_residue_def)
next
  case False
  define j where "j = k - length p"
  define R where "R = residue - (j - n)"
  have c: "\<not> residue < j - n" using False by (simp add: j_def)
  have j: "length (take j bs) = j" "n + residue = j + R" "\<not> k < n + length p" "length p + j = k"
    using False p n by (auto simp: j_def R_def)
  have xs: "take (n + residue) bs = take j bs @ take R (drop j bs)" unfolding j(2) by (rule take_add)
  have temp: "put_at (length p) (take j bs) (word_of p :: 'w word) = Some (word_of (p @ take j bs))"
    using j(1,4) by (intro put_at_partial) simp
  have word: "length (p @ take j bs) mod k = 0" using j(1,4) by simp
  have sm: "summed p (take (n + residue) bs) = (word_of (p @ take j bs) - word_of p) + checksum k (take R (drop j bs))"
    using summed_more(1) [OF word] j(1,4) pos unfolding xs by (simp add: summed_def checksum_word)
  have pend: "rest_of k (p @ take (n + residue) bs) = rest_of k (take R (drop j bs))"
    using summed_more(2) [OF word] unfolding xs .
  have "R \<le> length (drop j bs)" using n(2) j(2) by simp
  from sum_residue_spec [OF this] have res: "sum_residue c' (a + j, drop j bs) R (0, 0) =
      Some (c' + checksum k (take R (drop j bs)), pending (rest_of k (take R (drop j bs))))" for c' a .
  have "rd_bytes n (a, bs) = Some (take n bs)" "rd_bytes j (a, bs) = Some (take j bs)"
    "store (take n bs) (d, r, out) = Some (written (take n bs) (d, r, out))"
    "advance j (a, bs) = (a + j, drop j bs)" "k - n - length p = j - n"
    using n j by (simp_all add: rd_bytes_def store_written advance_def j_def)
  with c j(3) show ?thesis
    unfolding sm pend bcopy_residue_def pending_def [of p] bytes prod.case Let_def j_def [symmetric] R_def [symmetric]
    by (simp add: temp res add.assoc)
qed

lemma bcopy_csum_partial_spec:
  assumes p: "length p < k" and n: "max n l \<le> length bs" "n \<le> r"
  shows "bcopy_csum_partial (a, bs) (d, r, out) n l (pending p) =
    Some (summed p (take (max n l) bs), pending (rest_of k (p @ take (max n l) bs)), written (take n bs) (d, r, out))"
proof -
  let ?res = "if n < l then l - n else 0"
  obtain m fin where m: "bcopy_body (a, bs) (d, r, out) n ?res (pending p) =
      Some (summed p (take m bs), advance m (a, bs), written (take m bs) (d, r, out), n - m,
        pending (rest_of k (p @ take m bs)), fin)"
    "m \<le> n" "m = n \<or> length (p @ take m bs) mod k = 0" "n - m < k" "fin \<longrightarrow> m = n \<and> ?res = 0"
    using assms by (auto intro: bcopy_body_spec [of p n bs r a d out ?res])
  have "take n bs = take m bs @ take (n - m) (drop m bs)"
    using m(2) by (metis le_add_diff_inverse take_add)
  then have wr: "written (take (n - m) (drop m bs)) (written (take m bs) (d, r, out)) = written (take n bs) (d, r, out)"
    using n m(2) by (simp add: written_def)
  have dst: "written (take m bs) (d, r, out) = (d + m, r - m, out @ take m bs)"
    using n m(2) by (simp add: written_def)
  consider "m = n" "?res = 0" | "m < n" "?res = 0" | "n < l" "\<not> fin"
    using m(2,5) by (cases "n < l"; cases "m = n") auto
  then show ?thesis
  proof cases
    case 1
    then have "max n l = n" by (simp split: if_splits)
    with 1 show ?thesis using m(1) by (auto simp: bcopy_csum_partial_def)
  next
    case 2
    let ?ys = "take (n - m) (drop m bs)"
    have w: "length (p @ take m bs) mod k = 0" using m(3) 2 by simp
    then have "rest_of k (p @ take m bs) = []" using length_rest_of [of k "p @ take m bs"] by (simp only: length_0_conv)
    moreover have "bcopy_tail c (a + m, drop m bs) (d + m, r - m, out @ take m bs) (n - m) (pending []) =
        Some (c + word_of ?ys, pending ?ys, written ?ys (d + m, r - m, out @ take m bs))" for c
      using 2 n m(4) by (intro bcopy_tail_spec) auto
    moreover have "take n bs = take m bs @ ?ys" using m(2) by (metis le_add_diff_inverse take_add)
    moreover have "length ?ys < k" using m(4) by simp
    moreover have "max n l = n" "\<not> fin" using 2 m(5) by (auto split: if_splits)
    ultimately show ?thesis
      using m(1) 2 wr summed_words [OF w, of ?ys] summed_more(2) [OF w, of ?ys]
      by (simp add: bcopy_csum_partial_def dst advance_def rest_of_short)
  next
    case 3
    let ?p = "rest_of k (p @ take m bs)" and ?zs = "take (n - m + (l - n)) (drop m bs)"
    have "length ?p < k" using pos by (simp add: length_rest_of)
    moreover have "n - m = 0 \<or> ?p = []" using m(3) length_rest_of [of k "p @ take m bs"] by auto
    ultimately have "bcopy_residue c (a + m, drop m bs) (d + m, r - m, out @ take m bs) (n - m) (l - n) (pending ?p) =
        Some (c + summed ?p ?zs, pending (rest_of k (?p @ ?zs)), written (take (n - m) (drop m bs)) (d + m, r - m, out @ take m bs))" for c
      using 3 n m(2,4) by (intro bcopy_residue_spec) auto
    moreover have "take l bs = take m bs @ ?zs"
      using 3 m(2) by (metis le_add_diff_inverse take_add add.assoc less_imp_le)
    moreover have "max n l = l" using 3 by simp
    ultimately show ?thesis
      using m(1) 3 wr summed_append [of p "take m bs" ?zs] rest_append [of p "take m bs" ?zs]
      by (simp add: bcopy_csum_partial_def dst advance_def)
  qed
qed

end

interpretation ulong: byte_word 8 "TYPE(64)"
  by unfold_locales simp

interpretation uint: byte_word 4 "TYPE(32)"
  by unfold_locales simp

section \<open>Checksums in several calls\<close>

text \<open>A sequence of calls on pieces of the data, with the sums added up by the caller.\<close>

fun csum_calls :: "(nat \<times> byte list) list \<Rightarrow> 64 partial \<Rightarrow> 64 word \<Rightarrow> (64 word \<times> 64 partial) option" where
  "csum_calls [] lp acc = Some (acc, lp)"
| "csum_calls ((a, bs) # ps) lp acc =
     do { (csum, lp) \<leftarrow> opal_csum_partial (a, bs) (length bs) lp; csum_calls ps lp (acc + csum) }"

fun uicsum_calls :: "(nat \<times> byte list) list \<Rightarrow> 32 partial \<Rightarrow> 32 word \<Rightarrow> (32 word \<times> 32 partial) option" where
  "uicsum_calls [] lp acc = Some (acc, lp)"
| "uicsum_calls ((a, bs) # ps) lp acc =
     do { (csum, lp) \<leftarrow> opal_uicsum_partial (a, bs) (length bs) lp; uicsum_calls ps lp (acc + csum) }"

lemma csum_calls_spec:
  assumes "length p < 8"
  shows "\<exists>lp. csum_calls ps (ulong.pending p) acc = Some (acc + ulong.summed p (concat (map snd ps)), lp)"
  using assms
proof (induction ps arbitrary: p acc)
  case Nil
  then show ?case by (simp add: ulong.summed_def checksum_word)
next
  case (Cons x ps)
  obtain a bs where x: "x = (a, bs)" by (cases x)
  have r: "length (rest_of 8 (p @ bs)) < 8" by (simp add: length_rest_of)
  have "opal_csum_partial (a, bs) (length bs) (ulong.pending p) =
      Some (ulong.summed p bs, ulong.pending (rest_of 8 (p @ bs)))"
    unfolding opal_csum_partial_def using ulong.csum_partial_spec [OF Cons.prems, of "length bs" bs a] by simp
  with Cons.IH [OF r, of "acc + ulong.summed p bs"] show ?case
    by (simp add: x ulong.summed_append add.assoc)
qed

lemma uicsum_calls_spec:
  assumes "length p < 4"
  shows "\<exists>lp. uicsum_calls ps (uint.pending p) acc = Some (acc + uint.summed p (concat (map snd ps)), lp)"
  using assms
proof (induction ps arbitrary: p acc)
  case Nil
  then show ?case by (simp add: uint.summed_def checksum_word)
next
  case (Cons x ps)
  obtain a bs where x: "x = (a, bs)" by (cases x)
  have r: "length (rest_of 4 (p @ bs)) < 4" by (simp add: length_rest_of)
  have "opal_uicsum_partial (a, bs) (length bs) (uint.pending p) =
      Some (uint.summed p bs, uint.pending (rest_of 4 (p @ bs)))"
    unfolding opal_uicsum_partial_def using uint.csum_partial_spec [OF Cons.prems, of "length bs" bs a] by simp
  with Cons.IH [OF r, of "acc + uint.summed p bs"] show ?case
    by (simp add: x uint.summed_append add.assoc)
qed

text \<open>
  C21: however the data is cut into pieces, and wherever in memory each piece lies, the sums returned by the
  successive calls add up to the sum of the words of the whole data, for both word sizes.
\<close>

theorem csum_pieces:
  "map_option fst (csum_calls ps (0, 0) 0) = Some (checksum 8 (concat (map snd ps))) \<and>
   map_option fst (uicsum_calls ps (0, 0) 0) = Some (checksum 4 (concat (map snd ps)))"
proof
  show "map_option fst (csum_calls ps (0, 0) 0) = Some (checksum 8 (concat (map snd ps)))"
    using csum_calls_spec [of "[]" ps 0] by (auto simp: ulong.pending_Nil ulong.summed_def word_of_def)
  show "map_option fst (uicsum_calls ps (0, 0) 0) = Some (checksum 4 (concat (map snd ps)))"
    using uicsum_calls_spec [of "[]" ps 0] by (auto simp: uint.pending_Nil uint.summed_def word_of_def)
qed

text \<open>
  C22: copying and summing copies the bytes unchanged, and gives the same sum and the same state for the next
  call as summing alone does over the longer of the two lengths.
\<close>

theorem bcopy_csum_same:
  assumes "length p < 8" "max copylen csumlen \<le> length bs" "copylen \<le> room"
  shows "opal_bcopy_csum_partial (a, bs) (d, room, out) copylen csumlen (word_of p, length p) =
    map_option (\<lambda>(csum, lp). (csum, lp, (d + copylen, room - copylen, out @ take copylen bs)))
      (opal_csum_partial (a', bs) (max copylen csumlen) (word_of p, length p))"
proof -
  have "ulong.written (take copylen bs) (d, room, out) = (d + copylen, room - copylen, out @ take copylen bs)"
    using assms(2) by (simp add: ulong.written_def)
  then show ?thesis
    unfolding opal_bcopy_csum_partial_def opal_csum_partial_def ulong.pending_def [symmetric]
      ulong.bcopy_csum_partial_spec [OF assms] ulong.csum_partial_spec [OF assms(1,2)]
    by simp
qed

theorem bcopy_csum_same_witness:
  "opal_bcopy_csum_partial (3, [1, 2, 3, 4, 5, 6, 7, 8, 9, 10, 11]) (16, 10, []) 10 11 (word_of [255], length [255 :: byte]) =
    map_option (\<lambda>(csum, lp). (csum, lp, (16 + 10, 10 - 10, [] @ take 10 [1, 2, 3, 4, 5, 6, 7, 8, 9, 10, 11])))
      (opal_csum_partial (8, [1, 2, 3, 4, 5, 6, 7, 8, 9, 10, 11]) (max 10 11) (word_of [255], length [255 :: byte]))"
  by (rule bcopy_csum_same) simp_all

end
