(* ===== verification/Opal_Crc32.thy ===== *)
theory Opal_Crc32
  imports Opal_Crc_Laws
begin

text \<open>
  The table-driven CRC-32 of \<^verbatim>\<open>opal/util/crc.c\<close> against the shift register that takes one bit of the
  data at a time.
\<close>

unbundle bit_operations_syntax

section \<open>The shift register\<close>

definition crc_bit :: "32 word \<Rightarrow> bool \<Rightarrow> 32 word" where
  "crc_bit c m = (if bit c 31 \<noteq> m then push_bit 1 c XOR CRC_POLYNOMIAL else push_bit 1 c)"

text \<open>The bits of a byte, the most significant one first.\<close>

definition bits_msb :: "byte \<Rightarrow> bool list" where
  "bits_msb b = map (\<lambda>i. bit b (7 - i)) [0..<8]"

definition crc32 :: "32 word \<Rightarrow> byte list \<Rightarrow> 32 word" where
  "crc32 c bs = foldl crc_bit c (concat (map bits_msb bs))"

lemma crc32_append: "crc32 c (xs @ ys) = crc32 (crc32 c xs) ys"
  by (simp add: crc32_def)

section \<open>Shifting is linear\<close>

definition shl :: "32 word \<Rightarrow> 32 word" where
  "shl = push_bit 1"

definition top32 :: "32 word" where
  "top32 = 0x80000000"

lemma bit_shl [simp]: "bit (shl x) i \<longleftrightarrow> 0 < i \<and> i < 32 \<and> bit x (i - 1)"
  unfolding shl_def by (simp only: bit_push_bit_iff) auto

lemma bit_top32 [simp]: "bit top32 i \<longleftrightarrow> i = 31"
proof -
  have "top32 = 2 ^ 31" by (simp add: top32_def)
  then show ?thesis unfolding \<open>top32 = 2 ^ 31\<close> bit_exp_iff by auto
qed

lemma shl_xor: "shl (x XOR y) = shl x XOR shl y"
  by (rule bit_eqI) (auto simp: bit_xor_iff)

lemma shl_push: "shl (push_bit n x) = push_bit (Suc n) x"
  unfolding shl_def push_bit_push_bit by simp

lemma top_bit: "a AND top32 \<noteq> 0 \<longleftrightarrow> bit a 31"
  by (auto simp: bit_eq_iff [of "a AND top32" 0] bit_and_iff)

lemma crc_shift_alt: "crc_shift a = shl a XOR (if bit a 31 then CRC_POLYNOMIAL else 0)"
  unfolding crc_shift_def top32_def [symmetric] top_bit shl_def by (cases "bit a 31") simp_all

lemma crc_shift_xor: "crc_shift (x XOR y) = crc_shift x XOR crc_shift y"
  unfolding crc_shift_alt shl_xor
  by (cases "bit x 31"; cases "bit y 31") (simp_all add: bit_xor_iff xor.assoc xor.commute xor.left_commute)

lemma crc_shifts_xor: "(crc_shift ^^ n) (x XOR y) = (crc_shift ^^ n) x XOR (crc_shift ^^ n) y"
  by (induction n) (simp_all add: crc_shift_xor)

lemma crc_shifts_low:
  assumes "\<And>i. 32 - n \<le> i \<Longrightarrow> i < 32 \<Longrightarrow> \<not> bit x i" "n \<le> 32"
  shows "(crc_shift ^^ n) x = push_bit n x"
  using assms
proof (induction n)
  case (Suc n)
  then have IH: "(crc_shift ^^ n) x = push_bit n x" by (intro Suc.IH) auto
  have "\<not> bit (push_bit n x) 31" using Suc.prems by (auto simp: bit_push_bit_iff)
  then have "crc_shift (push_bit n x) = push_bit (Suc n) x" using shl_push [of n x] by (simp only: crc_shift_alt if_False xor.right_neutral)
  with IH show ?case by (simp only: funpow.simps comp_apply)
qed simp

lemma crc_bit_shift: "crc_bit c m = crc_shift (c XOR (if m then top32 else 0))"
proof -
  have "shl top32 = 0" by (rule bit_eqI) auto
  then show ?thesis
    unfolding crc_bit_def crc_shift_alt shl_xor shl_def [symmetric] by (cases m) (simp_all add: bit_xor_iff shl_def)
qed

text \<open>Bits that enter the register one after the other can enter together.\<close>

fun inject :: "bool list \<Rightarrow> 32 word" where
  "inject [] = 0"
| "inject (m # ms) = (if m then top32 else 0) XOR drop_bit 1 (inject ms)"

lemma bit_inject: "bit (inject ms) i \<longleftrightarrow> i < 32 \<and> 31 - i < length ms \<and> ms ! (31 - i)"
proof (induction ms arbitrary: i)
  case (Cons m ms)
  show ?case
  proof (cases "i < 31")
    case True
    then have "31 - i = Suc (31 - Suc i)" by simp
    with True show ?thesis by (simp add: Cons.IH bit_xor_iff bit_drop_bit_eq)
  next
    case False
    then show ?thesis
      by (cases "i = 31") (auto simp: Cons.IH bit_xor_iff bit_drop_bit_eq)
  qed
qed simp

lemma crc_bits: "length ms \<le> 31 \<Longrightarrow> foldl crc_bit c ms = (crc_shift ^^ length ms) (c XOR inject ms)"
proof (induction ms arbitrary: c)
  case (Cons m ms)
  let ?x = "if m then top32 else 0"
  have "inject ms = shl (drop_bit 1 (inject ms))"
  proof (rule bit_eqI)
    show "bit (inject ms) i \<longleftrightarrow> bit (shl (drop_bit 1 (inject ms))) i" for i
      using Cons.prems by (cases i) (auto simp: bit_drop_bit_eq bit_inject)
  qed
  also have "\<dots> = crc_shift (drop_bit 1 (inject ms))"
    by (simp add: crc_shift_alt bit_drop_bit_eq bit_inject)
  finally have "crc_bit c m XOR inject ms = crc_shift (c XOR inject (m # ms))"
    using crc_shift_xor [of "c XOR ?x" "drop_bit 1 (inject ms)"] by (simp add: crc_bit_shift xor.assoc)
  with Cons show ?case by (simp add: funpow_swap1)
qed simp

section \<open>The table\<close>

definition crc_table :: "32 word list" where
  "crc_table = map crc_entry [0..<256]"

lemma length_bits: "length (bits_msb b) = 8"
  by (simp add: bits_msb_def)

lemma inject_byte: "inject (bits_msb b) = push_bit 24 (ucast b)"
  by (rule bit_eqI) (auto simp: bit_inject bits_msb_def bit_push_bit_iff bit_ucast_iff)

lemma crc_step_bits: "crc_step crc_table c b = foldl crc_bit c (bits_msb b)"
proof -
  define i where "i = (drop_bit 24 c XOR ucast b) AND 0xff"
  have ff: "(0xff :: 32 word) = mask 8" by (simp add: mask_eq_exp_minus_1)
  have i: "i = take_bit 8 (drop_bit 24 c XOR ucast b)" by (simp add: i_def ff take_bit_eq_mask)
  then have "unat i < 256" using take_bit_nat_less_exp [of 8 "unat (drop_bit 24 c XOR ucast b)"]
    by (simp add: unsigned_take_bit_eq del: take_bit_xor)
  then have entry: "crc_table ! unat i = (crc_shift ^^ 8) (push_bit 24 i)"
    by (simp add: crc_table_def crc_entry_def)
  have "c XOR push_bit 24 (ucast b) = push_bit 24 i XOR take_bit 24 c"
    by (rule bit_eqI)
      (auto simp: i bit_xor_iff bit_push_bit_iff bit_take_bit_iff bit_drop_bit_eq bit_ucast_iff)
  then have "foldl crc_bit c (bits_msb b) = (crc_shift ^^ 8) (push_bit 24 i) XOR (crc_shift ^^ 8) (take_bit 24 c)"
    using crc_bits [of "bits_msb b" c] by (simp only: length_bits inject_byte crc_shifts_xor [symmetric])
  also have "(crc_shift ^^ 8) (take_bit 24 c) = push_bit 8 c"
    by (subst crc_shifts_low) (auto simp: bit_take_bit_iff intro!: bit_eqI simp: bit_push_bit_iff)
  finally show ?thesis
    unfolding crc_step_def Let_def i_def [symmetric] entry by (simp only: xor.commute)
qed

lemma crc_steps: "foldl (crc_step crc_table) c bs = crc32 c bs"
  by (induction bs arbitrary: c) (simp_all add: crc32_def crc_step_bits)

section \<open>The functions\<close>

text \<open>The static variables before and after the first call.\<close>

definition crc_ok :: "crc_state \<Rightarrow> bool" where
  "crc_ok st \<longleftrightarrow> fst st \<longrightarrow> snd st = crc_table"

lemma crc_ints_spec:
  assumes "n * 4 \<le> length bs" "aligned 4 a"
  shows "crc_ints crc_table n (a, bs) c = Some (crc32 c (take (n * 4) bs), advance (n * 4) (a, bs))"
  using assms
proof (induction n arbitrary: a bs c)
  case (Suc n)
  have "aligned 4 (a + 4)" using Suc.prems(2) by (simp add: aligned_def)
  moreover have "take (Suc n * 4) bs = take 4 bs @ take (n * 4) (drop 4 bs)" by (simp add: take_add)
  moreover have "bytes_of (word_of (take 4 bs) :: 32 word) = take 4 bs"
    using Suc.prems(1) uint.bytes_of_word [of "take 4 bs"] by simp
  ultimately show ?case
    using Suc.prems Suc.IH [of "drop 4 bs" "a + 4"]
    by (simp add: rd_word_def advance_def crc_steps crc32_append add.commute)
qed (simp add: crc32_def advance_def)

lemma copy_ints_spec:
  assumes "n * 4 \<le> length bs" "n * 4 \<le> r" "aligned 4 a" "aligned 4 d"
  shows "copy_ints crc_table n (a, bs) (d, r, out) c =
    Some (crc32 c (take (n * 4) bs), advance (n * 4) (a, bs), uint.written (take (n * 4) bs) (d, r, out))"
  using assms
proof (induction n arbitrary: a bs c d r out)
  case (Suc n)
  have "aligned 4 (a + 4)" "aligned 4 (d + 4)" using Suc.prems(3,4) by (simp_all add: aligned_def)
  moreover have "take (Suc n * 4) bs = take 4 bs @ take (n * 4) (drop 4 bs)" by (simp add: take_add)
  moreover have "bytes_of (word_of (take 4 bs) :: 32 word) = take 4 bs"
    using Suc.prems(1) uint.bytes_of_word [of "take 4 bs"] by simp
  ultimately show ?case
    using Suc.prems Suc.IH [of "drop 4 bs" "r - 4" "a + 4" "d + 4" "out @ take 4 bs"]
    by (simp add: rd_word_def wr_word_def store_def advance_def uint.written_def crc_steps crc32_append add.commute)
qed (simp add: crc32_def advance_def uint.written_def)

lemma crc_bytes_spec: "n \<le> length bs \<Longrightarrow> crc_bytes crc_table n (a, bs) c = Some (crc32 c (take n bs))"
  by (simp add: crc_bytes_def rd_bytes_def crc_steps)

lemma init_state: "crc_ok st \<Longrightarrow> (if \<not> fst st then opal_initialize_crc_table st else st) = (True, crc_table)"
  by (cases st) (auto simp: crc_ok_def opal_initialize_crc_table_def crc_table_def)

lemma whole_ints: "n div 4 * 4 \<le> length bs" "n mod 4 \<le> length (drop (n div 4 * 4) bs)"
  if "n \<le> length bs"
  using that by (auto intro: le_trans [OF div_times_less_eq_dividend] simp: minus_div_mult_eq_mod [symmetric] diff_le_mono)

lemma take_ints: "take n bs = take (n div 4 * 4) bs @ take (n mod 4) (drop (n div 4 * 4) bs)"
  by (metis div_mult_mod_eq take_add)

lemma uicrc_partial_spec:
  assumes st: "crc_ok st" and n: "n \<le> length bs"
  shows "opal_uicrc_partial st (a, bs) n c = Some (crc32 c (take n bs), (True, crc_table))"
proof (cases "aligned 4 a")
  case True
  have "crc_ints crc_table (n div 4) (a, bs) c = Some (crc32 c (take (n div 4 * 4) bs), advance (n div 4 * 4) (a, bs))"
    using whole_ints(1) [OF n] True by (intro crc_ints_spec) auto
  with True crc_bytes_spec [OF whole_ints(2) [OF n]] show ?thesis
    unfolding opal_uicrc_partial_def init_state [OF st] take_ints [of n bs] crc32_append
    by (simp add: advance_def)
next
  case False
  with n show ?thesis by (simp add: opal_uicrc_partial_def init_state [OF st] crc_bytes_spec)
qed

lemma bcopy_uicrc_partial_spec:
  assumes st: "crc_ok st" and n: "max n l \<le> length bs" "n \<le> r"
  shows "opal_bcopy_uicrc_partial st (a, bs) (d, r, out) n l c =
    Some (crc32 c (take (max n l) bs), uint.written (take n bs) (d, r, out), (True, crc_table))"
proof -
  have nl: "n \<le> length bs" using n(1) by simp
  have bytes: "copy_bytes crc_table k (a, xs) (e, q, out) c =
      Some (crc32 c (take k xs), advance k (a, xs), uint.written (take k xs) (e, q, out))"
    if "k \<le> length xs" "k \<le> q" for k a xs e q out c
    using that by (simp add: copy_bytes_def rd_bytes_def uint.store_written crc_steps)
  have copy: "(if aligned 4 a \<and> aligned 4 d
      then do { (crc, src, dst) \<leftarrow> copy_ints crc_table (n div 4) (a, bs) (d, r, out) c;
                copy_bytes crc_table (n mod 4) src dst crc }
      else copy_bytes crc_table n (a, bs) (d, r, out) c) =
      Some (crc32 c (take n bs), advance n (a, bs), uint.written (take n bs) (d, r, out))"
  proof (cases "aligned 4 a \<and> aligned 4 d")
    case True
    let ?m = "n div 4 * 4"
    have m: "?m \<le> length bs" "?m \<le> r" using nl n(2) by (auto intro: le_trans [OF div_times_less_eq_dividend])
    then have "copy_ints crc_table (n div 4) (a, bs) (d, r, out) c =
        Some (crc32 c (take ?m bs), advance ?m (a, bs), uint.written (take ?m bs) (d, r, out))"
      using True by (intro copy_ints_spec) auto
    moreover have "uint.written (take ?m bs) (d, r, out) = (d + ?m, r - ?m, out @ take ?m bs)"
      using m by (simp add: uint.written_def)
    moreover have "n mod 4 \<le> r - ?m" using n(2) by (simp add: minus_div_mult_eq_mod [symmetric] diff_le_mono)
    moreover have "length (take ?m bs) = ?m" "length (take (n mod 4) (drop ?m bs)) = n mod 4"
      using m(1) whole_ints(2) [OF nl] by simp_all
    ultimately show ?thesis
      using True whole_ints(2) [OF nl] div_mult_mod_eq [of n 4]
      unfolding take_ints [of n bs] crc32_append
      by (simp add: bytes advance_def uint.written_def add.assoc add.commute)
  next
    case False
    then show ?thesis unfolding if_not_P [OF False] by (rule_tac bytes [OF nl n(2)])
  qed
  have res: "take (max n l) bs = take n bs @ take (if n < l then l - n else 0) (drop n bs)"
    using take_add [of n "l - n" bs] by (cases "n < l") (simp_all add: max_def)
  show ?thesis
    unfolding opal_bcopy_uicrc_partial_def init_state [OF st] Let_def snd_conv fst_conv copy res crc32_append
    using n(1) by (cases "n < l") (simp_all add: advance_def crc_bytes_spec)
qed

text \<open>A sequence of calls, each of which goes on with the result of the one before.\<close>

fun crc_calls :: "crc_state \<Rightarrow> (nat \<times> byte list) list \<Rightarrow> 32 word \<Rightarrow> (32 word \<times> crc_state) option" where
  "crc_calls st [] crc = Some (crc, st)"
| "crc_calls st ((a, bs) # ps) crc =
     do { (crc, st) \<leftarrow> opal_uicrc_partial st (a, bs) (length bs) crc; crc_calls st ps crc }"

text \<open>
  C6: the table-driven CRC of the data in any number of pieces at any addresses is the CRC of the whole data
  as the shift register with the polynomial 0x04c11db7 computes it bit by bit, whether or not the table has
  been filled before.
\<close>

theorem crc_pieces:
  assumes "crc_ok st"
  shows "map_option fst (crc_calls st ps crc) = Some (crc32 crc (concat (map snd ps)))"
  using assms
proof (induction ps arbitrary: st crc)
  case (Cons x ps)
  have "crc_ok (True, crc_table)" by (simp add: crc_ok_def)
  with Cons uicrc_partial_spec [OF Cons.prems order_refl] show ?case
    by (cases x) (simp add: crc32_append)
qed (simp add: crc32_def)

theorem crc_pieces_witness:
  "map_option fst (crc_calls (False, replicate 256 0) [(1, [49, 50, 51]), (8, [52, 53])] CRC_INITIAL_REGISTER) =
    Some (crc32 CRC_INITIAL_REGISTER (concat (map snd [(1 :: nat, [49, 50, 51]), (8, [52, 53])])))"
  by (rule crc_pieces) (simp add: crc_ok_def)

text \<open>
  C33: the copying variant copies the bytes unchanged and computes the CRC over the longer of the two
  lengths.
\<close>

theorem bcopy_crc_same:
  assumes "crc_ok st" "max copylen crclen \<le> length bs" "copylen \<le> room"
  shows "opal_bcopy_uicrc_partial st (a, bs) (d, room, out) copylen crclen crc =
    Some (crc32 crc (take (max copylen crclen) bs), (d + copylen, room - copylen, out @ take copylen bs), (True, crc_table))"
  using bcopy_uicrc_partial_spec [OF assms, of a d out crc] assms(2) by (simp add: uint.written_def)

theorem bcopy_crc_same_witness:
  "opal_bcopy_uicrc_partial (False, replicate 256 0) (4, [1, 2, 3, 4, 5, 6]) (8, 5, []) 5 6 0 =
    Some (crc32 0 (take (max 5 6) [1, 2, 3, 4, 5, 6]), (8 + 5, 5 - 5, [] @ take 5 [1, 2, 3, 4, 5, 6]), (True, crc_table))"
  by (rule bcopy_crc_same) (simp_all add: crc_ok_def)

end
