(* ===== verification/Opal_Dss.thy ===== *)
theory Opal_Dss
  imports Opal_Argv
begin

text \<open>
  Data packing, \<^verbatim>\<open>opal/dss\<close>: the buffer (\<^verbatim>\<open>dss_internal_functions.c\<close>), and the
  pack and unpack functions of the integral, string, time and byte-object types
  (\<^verbatim>\<open>dss_pack.c\<close>, \<^verbatim>\<open>dss_unpack.c\<close>, \<^verbatim>\<open>dss_peek.c\<close>).

  A buffer is a block of bytes with two positions.  A byte of the block is \<open>None\<close> until it is written;
  reading such a byte, or outside the block, is undefined.  As everywhere, the outer \<open>None\<close> of a result
  is undefined behaviour.  The sizes kept in a buffer are sizes of objects in memory, with
  \<^verbatim>\<open>bytes_used\<close> at most \<^verbatim>\<open>bytes_allocated\<close>, and are natural numbers; counts that are
  read from a buffer are 32-bit and converted to \<^verbatim>\<open>size_t\<close> as in C.

  Integers are converted to network byte order, so that a number of \<open>k\<close> bytes is stored with its most
  significant byte first.
\<close>

named_theorems dss_simps "packing and unpacking on buffers with known content"

section \<open>Buffers\<close>

datatype buffer_type = NON_DESC | FULLY_DESC

text \<open>
  \<open>base_null\<close> and \<open>ptr_null\<close> say whether \<^verbatim>\<open>base_ptr\<close> and the two positions are NULL.
  A failed \<^verbatim>\<open>realloc\<close> sets only the former, and the positions stay in the old block.
\<close>

record opal_buffer =
  buf_type :: buffer_type
  base_null :: bool
  ptr_null :: bool
  buf_block :: "byte option list"
  pack_ptr :: nat
  unpack_ptr :: nat
  bytes_allocated :: nat
  bytes_used :: nat

definition opal_buffer_construct :: "buffer_type \<Rightarrow> opal_buffer" where
  "opal_buffer_construct t =
     \<lparr>buf_type = t, base_null = True, ptr_null = True, buf_block = [], pack_ptr = 0, unpack_ptr = 0,
      bytes_allocated = 0, bytes_used = 0\<rparr>"

text \<open>
  What the functions depend on besides their arguments: the allocator, the parameters of the layer, and the
  functions of the types that other parts of the program register.
\<close>

record 'x dss_env =
  dss_mem :: allocator
  initial_size :: nat
  threshold_size :: nat
  default_buf_type :: buffer_type
  ext_pack :: "byte \<Rightarrow> ('x list \<Rightarrow> opal_buffer \<Rightarrow> (status \<times> opal_buffer) option) option"
  ext_unpack :: "byte \<Rightarrow> (int \<Rightarrow> opal_buffer \<Rightarrow> (status \<times> 'x list \<times> opal_buffer) option) option"

text \<open>\<^verbatim>\<open>while (to_alloc < required) to_alloc <<= 1;\<close> never ends for 0.\<close>

function double_until :: "nat \<Rightarrow> nat \<Rightarrow> nat option" where
  "double_until required to_alloc =
     (if required \<le> to_alloc then Some to_alloc
      else if to_alloc = 0 then None
      else double_until required (2 * to_alloc))"
  by pat_completeness auto
termination
  by (relation "measure (\<lambda>(required, to_alloc). required - to_alloc)") auto

declare double_until.simps [simp del]

text \<open>The size to allocate: a multiple of the threshold, or doubled while it is below.\<close>

definition extended_size :: "'x dss_env \<Rightarrow> nat \<Rightarrow> nat \<Rightarrow> nat option" where
  "extended_size e required allocated =
     (if threshold_size e \<le> required
      then if threshold_size e = 0 then None
           else Some ((required + threshold_size e - 1) div threshold_size e * threshold_size e)
      else double_until required (if allocated = 0 then initial_size e else allocated))"

text \<open>\<^verbatim>\<open>opal_dss_buffer_extend\<close>; the Boolean result says that the returned position is not NULL.\<close>

definition opal_dss_buffer_extend ::
  "'x dss_env \<Rightarrow> nat \<Rightarrow> opal_buffer \<Rightarrow> (bool \<times> opal_buffer) option" where
  "opal_dss_buffer_extend e bytes_to_add b =
     (if bytes_to_add \<le> bytes_allocated b - bytes_used b
      then Some (\<not> ptr_null b, b)
      else
        do { to_alloc \<leftarrow> extended_size e (bytes_used b + bytes_to_add) (bytes_allocated b);
             if \<not> base_null b
             then if dss_mem e to_alloc
                  then Some (True, b\<lparr>buf_block := take to_alloc (buf_block b)
                                         @ replicate (to_alloc - length (buf_block b)) None,
                                     bytes_allocated := to_alloc\<rparr>)
                  else Some (False, b\<lparr>base_null := True\<rparr>)
             else if dss_mem e to_alloc
                  then Some (True, b\<lparr>base_null := False, ptr_null := False,
                                     buf_block := replicate to_alloc None, pack_ptr := 0, unpack_ptr := 0,
                                     bytes_allocated := to_alloc, bytes_used := 0\<rparr>)
                  else Some (False, b\<lparr>bytes_used := 0\<rparr>) })"

definition opal_dss_too_small :: "opal_buffer \<Rightarrow> int \<Rightarrow> bool" where
  "opal_dss_too_small b bytes_reqd \<longleftrightarrow>
     pack_ptr b < unpack_ptr b \<or> int (pack_ptr b - unpack_ptr b) < bytes_reqd"

text \<open>A count times an element size, as \<^verbatim>\<open>size_t\<close>.\<close>

definition bytes_reqd :: "int \<Rightarrow> int \<Rightarrow> int" where
  "bytes_reqd num_vals elt_size = num_vals * elt_size mod 2 ^ 64"

section \<open>Storing and fetching bytes\<close>

text \<open>Copying to the pack position and advancing it, as every pack function does.\<close>

definition put_bytes :: "byte list \<Rightarrow> opal_buffer \<Rightarrow> opal_buffer option" where
  "put_bytes bs b =
     (if pack_ptr b + length bs \<le> length (buf_block b)
      then Some (b\<lparr>buf_block := take (pack_ptr b) (buf_block b) @ map Some bs
                                @ drop (pack_ptr b + length bs) (buf_block b),
                   pack_ptr := pack_ptr b + length bs, bytes_used := bytes_used b + length bs\<rparr>)
      else None)"

definition pack_bytes :: "'x dss_env \<Rightarrow> byte list \<Rightarrow> opal_buffer \<Rightarrow> (status \<times> opal_buffer) option" where
  "pack_bytes e bs b =
     do { (dst, b) \<leftarrow> opal_dss_buffer_extend e (length bs) b;
          if \<not> dst then Some (ERR_OUT_OF_RESOURCE, b)
          else do { b \<leftarrow> put_bytes bs b; Some (SUCCESS, b) } }"

text \<open>Copying from the unpack position and advancing it.\<close>

definition get_bytes :: "nat \<Rightarrow> opal_buffer \<Rightarrow> (byte list \<times> opal_buffer) option" where
  "get_bytes k b =
     (let bs = take k (drop (unpack_ptr b) (buf_block b))
      in if unpack_ptr b + k \<le> length (buf_block b) \<and> None \<notin> set bs
         then Some (map the bs, b\<lparr>unpack_ptr := unpack_ptr b + k\<rparr>)
         else None)"

text \<open>Network byte order: the digits of a number to the base 256, the most significant one first.\<close>

fun be :: "nat \<Rightarrow> nat \<Rightarrow> byte list" where
  "be 0 n = []"
| "be (Suc k) n = be k (n div 256) @ [of_nat n]"

definition from_be :: "byte list \<Rightarrow> nat" where
  "from_be bs = foldl (\<lambda>n b. n * 256 + unat b) 0 bs"

definition words_at :: "nat \<Rightarrow> nat \<Rightarrow> byte list \<Rightarrow> 'w::len word list" where
  "words_at k n bs = map (\<lambda>i. of_nat (from_be (take k (drop (k * i) bs)))) [0..<n]"

text \<open>\<^verbatim>\<open>if (OPAL_SUCCESS != (ret = ...)) return ret;\<close>\<close>

definition on_success ::
  "(status \<times> opal_buffer) option \<Rightarrow> (opal_buffer \<Rightarrow> (status \<times> opal_buffer) option)
     \<Rightarrow> (status \<times> opal_buffer) option" where
  "on_success r f = do { (ret, b) \<leftarrow> r; if ret \<noteq> SUCCESS then Some (ret, b) else f b }"

section \<open>Types and data\<close>

type_synonym data_type = byte

definition OPAL_UNDEF :: data_type where "OPAL_UNDEF = 0"
definition OPAL_BYTE :: data_type where "OPAL_BYTE = 1"
definition OPAL_BOOL :: data_type where "OPAL_BOOL = 2"
definition OPAL_STRING :: data_type where "OPAL_STRING = 3"
definition OPAL_SIZE :: data_type where "OPAL_SIZE = 4"
definition OPAL_PID :: data_type where "OPAL_PID = 5"
definition OPAL_INT :: data_type where "OPAL_INT = 6"
definition OPAL_INT8 :: data_type where "OPAL_INT8 = 7"
definition OPAL_INT16 :: data_type where "OPAL_INT16 = 8"
definition OPAL_INT32 :: data_type where "OPAL_INT32 = 9"
definition OPAL_INT64 :: data_type where "OPAL_INT64 = 10"
definition OPAL_UINT :: data_type where "OPAL_UINT = 11"
definition OPAL_UINT8 :: data_type where "OPAL_UINT8 = 12"
definition OPAL_UINT16 :: data_type where "OPAL_UINT16 = 13"
definition OPAL_UINT32 :: data_type where "OPAL_UINT32 = 14"
definition OPAL_UINT64 :: data_type where "OPAL_UINT64 = 15"
definition OPAL_FLOAT :: data_type where "OPAL_FLOAT = 16"
definition OPAL_DOUBLE :: data_type where "OPAL_DOUBLE = 17"
definition OPAL_TIMEVAL :: data_type where "OPAL_TIMEVAL = 18"
definition OPAL_TIME :: data_type where "OPAL_TIME = 19"
definition OPAL_BYTE_OBJECT :: data_type where "OPAL_BYTE_OBJECT = 20"
definition OPAL_DATA_TYPE :: data_type where "OPAL_DATA_TYPE = 21"
definition OPAL_NULL :: data_type where "OPAL_NULL = 22"
definition OPAL_VALUE :: data_type where "OPAL_VALUE = 26"
definition OPAL_BUFFER :: data_type where "OPAL_BUFFER = 27"
definition OPAL_PTR :: data_type where "OPAL_PTR = 28"
definition OPAL_NAME :: data_type where "OPAL_NAME = 50"
definition OPAL_JOBID :: data_type where "OPAL_JOBID = 51"
definition OPAL_VPID :: data_type where "OPAL_VPID = 52"

lemmas type_codes = OPAL_UNDEF_def OPAL_BYTE_def OPAL_BOOL_def OPAL_STRING_def OPAL_SIZE_def OPAL_PID_def
  OPAL_INT_def OPAL_INT8_def OPAL_INT16_def OPAL_INT32_def OPAL_INT64_def OPAL_UINT_def OPAL_UINT8_def
  OPAL_UINT16_def OPAL_UINT32_def OPAL_UINT64_def OPAL_FLOAT_def OPAL_DOUBLE_def OPAL_TIMEVAL_def
  OPAL_TIME_def OPAL_BYTE_OBJECT_def OPAL_DATA_TYPE_def OPAL_NULL_def OPAL_VALUE_def OPAL_BUFFER_def
  OPAL_PTR_def OPAL_NAME_def OPAL_JOBID_def OPAL_VPID_def

text \<open>The types that stand for the C types of an LP64 build (\<^verbatim>\<open>dss_internal.h\<close>).\<close>

definition OPAL_DATA_TYPE_T :: data_type where "OPAL_DATA_TYPE_T = OPAL_UINT8"
definition DSS_TYPE_SIZE_T :: data_type where "DSS_TYPE_SIZE_T = OPAL_UINT64"
definition DSS_TYPE_BOOL :: data_type where "DSS_TYPE_BOOL = OPAL_UINT8"
definition DSS_TYPE_INT :: data_type where "DSS_TYPE_INT = OPAL_INT32"
definition DSS_TYPE_PID_T :: data_type where "DSS_TYPE_PID_T = OPAL_UINT32"
definition OPAL_JOBID_T :: data_type where "OPAL_JOBID_T = OPAL_UINT32"
definition OPAL_VPID_T :: data_type where "OPAL_VPID_T = OPAL_UINT32"

text \<open>
  The array a \<^verbatim>\<open>void *\<close> points to, by the type of its elements.  A string is the block of its
  characters with the NUL, or NULL; a byte object is its size and its bytes; a value is its key, its type and
  the contents of the union, as an array.
\<close>

datatype 'x vals =
    U8 "byte list"
  | U16 "16 word list"
  | U32 "32 word list"
  | U64 "64 word list"
  | Strs "byte list option list"
  | Tvs "(64 word \<times> 64 word) list"
  | Bos "(32 word \<times> byte list) list"
  | Names "(32 word \<times> 32 word) list"
  | Bufs "opal_buffer list"
  | Values "(byte list option \<times> data_type \<times> 'x vals) list"
  | Ext "'x list"

section \<open>Packing\<close>

definition opal_dss_pack_null :: "'x dss_env \<Rightarrow> nat \<Rightarrow> opal_buffer \<Rightarrow> (status \<times> opal_buffer) option" where
  "opal_dss_pack_null e num_vals b = pack_bytes e (replicate num_vals 0) b"

definition opal_dss_pack_byte :: "'x dss_env \<Rightarrow> byte list \<Rightarrow> opal_buffer \<Rightarrow> (status \<times> opal_buffer) option" where
  "opal_dss_pack_byte e src b = pack_bytes e src b"

definition opal_dss_pack_int16 ::
  "'x dss_env \<Rightarrow> 16 word list \<Rightarrow> opal_buffer \<Rightarrow> (status \<times> opal_buffer) option" where
  "opal_dss_pack_int16 e src b = pack_bytes e (concat (map (\<lambda>w. be 2 (unat w)) src)) b"

definition opal_dss_pack_int32 ::
  "'x dss_env \<Rightarrow> 32 word list \<Rightarrow> opal_buffer \<Rightarrow> (status \<times> opal_buffer) option" where
  "opal_dss_pack_int32 e src b = pack_bytes e (concat (map (\<lambda>w. be 4 (unat w)) src)) b"

definition opal_dss_pack_int64 ::
  "'x dss_env \<Rightarrow> 64 word list \<Rightarrow> opal_buffer \<Rightarrow> (status \<times> opal_buffer) option" where
  "opal_dss_pack_int64 e src b = pack_bytes e (concat (map (\<lambda>w. be 8 (unat w)) src)) b"

text \<open>\<^verbatim>\<open>strlen\<close>: a block without a NUL is read beyond its end.\<close>

definition strlen :: "byte list \<Rightarrow> nat option" where
  "strlen s = (if 0 \<in> set s then Some (length (takeWhile (\<lambda>c. c \<noteq> 0) s)) else None)"

text \<open>A string whose length does not fit 31 bits is outside what the \<^verbatim>\<open>int32_t\<close> length can say.\<close>

fun opal_dss_pack_string ::
  "'x dss_env \<Rightarrow> byte list option list \<Rightarrow> opal_buffer \<Rightarrow> (status \<times> opal_buffer) option" where
  "opal_dss_pack_string e [] b = Some (SUCCESS, b)"
| "opal_dss_pack_string e (None # ss) b =
     on_success (opal_dss_pack_int32 e [0] b) (opal_dss_pack_string e ss)"
| "opal_dss_pack_string e (Some s # ss) b =
     do { n \<leftarrow> strlen s;
          if n + 1 \<ge> 2 ^ 31 then None
          else on_success (on_success (opal_dss_pack_int32 e [of_nat (n + 1)] b)
                             (opal_dss_pack_byte e (take (n + 1) s)))
                          (opal_dss_pack_string e ss) }"

fun opal_dss_pack_timeval ::
  "'x dss_env \<Rightarrow> (64 word \<times> 64 word) list \<Rightarrow> opal_buffer \<Rightarrow> (status \<times> opal_buffer) option" where
  "opal_dss_pack_timeval e [] b = Some (SUCCESS, b)"
| "opal_dss_pack_timeval e ((tv_sec, tv_usec) # tvs) b =
     on_success (opal_dss_pack_int64 e [tv_sec, tv_usec] b) (opal_dss_pack_timeval e tvs)"

fun opal_dss_pack_time ::
  "'x dss_env \<Rightarrow> 64 word list \<Rightarrow> opal_buffer \<Rightarrow> (status \<times> opal_buffer) option" where
  "opal_dss_pack_time e [] b = Some (SUCCESS, b)"
| "opal_dss_pack_time e (t # ts) b =
     on_success (opal_dss_pack_int64 e [t] b) (opal_dss_pack_time e ts)"

definition pack_sized_bytes ::
  "'x dss_env \<Rightarrow> 32 word \<times> byte list \<Rightarrow> opal_buffer \<Rightarrow> (status \<times> opal_buffer) option" where
  "pack_sized_bytes e = (\<lambda>(n, bytes) b.
     on_success (opal_dss_pack_int32 e [n] b)
       (\<lambda>b. if 0 < sint n
             then if nat (sint n) \<le> length bytes
                  then opal_dss_pack_byte e (take (nat (sint n)) bytes) b else None
             else Some (SUCCESS, b)))"

fun opal_dss_pack_byte_object ::
  "'x dss_env \<Rightarrow> (32 word \<times> byte list) list \<Rightarrow> opal_buffer \<Rightarrow> (status \<times> opal_buffer) option" where
  "opal_dss_pack_byte_object e [] b = Some (SUCCESS, b)"
| "opal_dss_pack_byte_object e (bo # bos) b =
     on_success (pack_sized_bytes e bo b) (opal_dss_pack_byte_object e bos)"

text \<open>The type of the type indicator, \<^verbatim>\<open>OPAL_UINT8\<close>, is registered with the byte functions.\<close>

definition opal_dss_store_data_type ::
  "'x dss_env \<Rightarrow> data_type \<Rightarrow> opal_buffer \<Rightarrow> (status \<times> opal_buffer) option" where
  "opal_dss_store_data_type e t b = opal_dss_pack_byte e [t] b"

text \<open>
  The generic types are packed as the fixed-size type that stands for them, and that type is always stored.
  The functions call \<^verbatim>\<open>opal_dss_pack_buffer\<close> recursively, here the argument \<open>pb\<close>.
\<close>

type_synonym 'x pack_fn = "data_type \<Rightarrow> 'x vals \<Rightarrow> opal_buffer \<Rightarrow> (status \<times> opal_buffer) option"

definition pack_described ::
  "'x dss_env \<Rightarrow> 'x pack_fn \<Rightarrow> data_type \<Rightarrow> 'x vals \<Rightarrow> opal_buffer \<Rightarrow> (status \<times> opal_buffer) option" where
  "pack_described e pb real src b =
     on_success (if buf_type b \<noteq> FULLY_DESC then opal_dss_store_data_type e real b else Some (SUCCESS, b))
       (pb real src)"

definition opal_dss_pack_bool ::
  "'x dss_env \<Rightarrow> 'x pack_fn \<Rightarrow> 'x vals \<Rightarrow> opal_buffer \<Rightarrow> (status \<times> opal_buffer) option" where
  "opal_dss_pack_bool e pb = pack_described e pb DSS_TYPE_BOOL"

definition opal_dss_pack_int ::
  "'x dss_env \<Rightarrow> 'x pack_fn \<Rightarrow> 'x vals \<Rightarrow> opal_buffer \<Rightarrow> (status \<times> opal_buffer) option" where
  "opal_dss_pack_int e pb = pack_described e pb DSS_TYPE_INT"

definition opal_dss_pack_sizet ::
  "'x dss_env \<Rightarrow> 'x pack_fn \<Rightarrow> 'x vals \<Rightarrow> opal_buffer \<Rightarrow> (status \<times> opal_buffer) option" where
  "opal_dss_pack_sizet e pb = pack_described e pb DSS_TYPE_SIZE_T"

definition opal_dss_pack_pid ::
  "'x dss_env \<Rightarrow> 'x pack_fn \<Rightarrow> 'x vals \<Rightarrow> opal_buffer \<Rightarrow> (status \<times> opal_buffer) option" where
  "opal_dss_pack_pid e pb = pack_described e pb DSS_TYPE_PID_T"

definition opal_dss_pack_data_type ::
  "'x pack_fn \<Rightarrow> 'x vals \<Rightarrow> opal_buffer \<Rightarrow> (status \<times> opal_buffer) option" where
  "opal_dss_pack_data_type pb = pb OPAL_DATA_TYPE_T"

definition opal_dss_pack_jobid ::
  "'x pack_fn \<Rightarrow> 'x vals \<Rightarrow> opal_buffer \<Rightarrow> (status \<times> opal_buffer) option" where
  "opal_dss_pack_jobid pb = pb OPAL_JOBID_T"

definition opal_dss_pack_vpid ::
  "'x pack_fn \<Rightarrow> 'x vals \<Rightarrow> opal_buffer \<Rightarrow> (status \<times> opal_buffer) option" where
  "opal_dss_pack_vpid pb = pb OPAL_VPID_T"

text \<open>All job identifiers, then all process numbers.\<close>

definition opal_dss_pack_name ::
  "'x dss_env \<Rightarrow> 'x pack_fn \<Rightarrow> (32 word \<times> 32 word) list \<Rightarrow> opal_buffer \<Rightarrow> (status \<times> opal_buffer) option" where
  "opal_dss_pack_name e pb procs b =
     (if \<not> dss_mem e (4 * length procs) then Some (ERR_OUT_OF_RESOURCE, b)
      else on_success (opal_dss_pack_jobid pb (U32 (map fst procs)) b)
             (\<lambda>b. if \<not> dss_mem e (4 * length procs) then Some (ERR_OUT_OF_RESOURCE, b)
                   else opal_dss_pack_vpid pb (U32 (map snd procs)) b))"

text \<open>The size is that of all packed bytes, also those that have been unpacked.\<close>

fun opal_dss_pack_buffer_contents ::
  "'x dss_env \<Rightarrow> 'x pack_fn \<Rightarrow> opal_buffer list \<Rightarrow> opal_buffer \<Rightarrow> (status \<times> opal_buffer) option" where
  "opal_dss_pack_buffer_contents e pb [] b = Some (SUCCESS, b)"
| "opal_dss_pack_buffer_contents e pb (src # srcs) b =
     on_success (opal_dss_pack_sizet e pb (U64 [of_nat (bytes_used src)]) b)
       (\<lambda>b. on_success
              (if 0 < bytes_used src
               then if base_null src \<or> None \<in> set (take (bytes_used src) (buf_block src)) then None
                    else opal_dss_pack_byte e (map the (take (bytes_used src) (buf_block src))) b
               else Some (SUCCESS, b))
              (opal_dss_pack_buffer_contents e pb srcs))"

section \<open>Values and the table of types\<close>

text \<open>The types of a value that are packed as one element, and the element types of the array types.\<close>

definition scalar_types :: "data_type list" where
  "scalar_types = [OPAL_BOOL, OPAL_BYTE, OPAL_STRING, OPAL_SIZE, OPAL_PID, OPAL_INT, OPAL_INT8, OPAL_INT16,
     OPAL_INT32, OPAL_INT64, OPAL_UINT, OPAL_UINT8, OPAL_UINT16, OPAL_UINT32, OPAL_UINT64, OPAL_FLOAT,
     OPAL_DOUBLE, OPAL_TIMEVAL, OPAL_NAME]"

definition array_types :: "(data_type \<times> data_type) list" where
  "array_types = [(31, OPAL_FLOAT), (32, OPAL_DOUBLE), (33, OPAL_STRING), (34, OPAL_BOOL), (35, OPAL_SIZE),
     (36, OPAL_BYTE), (37, OPAL_INT), (38, OPAL_INT8), (39, OPAL_INT16), (40, OPAL_INT32), (41, OPAL_INT64),
     (42, OPAL_UINT), (43, OPAL_UINT8), (44, OPAL_UINT16), (45, OPAL_UINT32), (46, OPAL_UINT64),
     (48, OPAL_PID), (49, OPAL_TIMEVAL)]"

fun vals_count :: "'x vals \<Rightarrow> nat" where
  "vals_count (U8 xs) = length xs"
| "vals_count (U16 xs) = length xs"
| "vals_count (U32 xs) = length xs"
| "vals_count (U64 xs) = length xs"
| "vals_count (Strs xs) = length xs"
| "vals_count (Tvs xs) = length xs"
| "vals_count (Bos xs) = length xs"
| "vals_count (Names xs) = length xs"
| "vals_count (Bufs xs) = length xs"
| "vals_count (Values xs) = length xs"
| "vals_count (Ext xs) = length xs"

text \<open>The data of a value: a single element, a byte object, an array with its size, or nothing.\<close>

definition pack_data ::
  "'x dss_env \<Rightarrow> 'x pack_fn \<Rightarrow> data_type \<Rightarrow> 'x vals \<Rightarrow> opal_buffer \<Rightarrow> (status \<times> opal_buffer) option" where
  "pack_data e pb t v b =
     (if t \<in> set scalar_types then if vals_count v = 1 then pb t v b else None
      else if t = OPAL_BYTE_OBJECT
      then (case v of Bos [bo] \<Rightarrow> pack_sized_bytes e bo b | _ \<Rightarrow> None)
      else if t = OPAL_PTR then Some (SUCCESS, b)
      else case map_of array_types t of
             Some elt \<Rightarrow> on_success (pb OPAL_INT32 (U32 [of_nat (vals_count v)]) b) (pb elt v)
           | None \<Rightarrow> Some (ERROR, b))"

fun opal_dss_pack_value ::
  "'x dss_env \<Rightarrow> 'x pack_fn \<Rightarrow> (byte list option \<times> data_type \<times> 'x vals) list \<Rightarrow> opal_buffer
     \<Rightarrow> (status \<times> opal_buffer) option" where
  "opal_dss_pack_value e pb [] b = Some (SUCCESS, b)"
| "opal_dss_pack_value e pb ((key, t, v) # vs) b =
     on_success (opal_dss_pack_string e [key] b)
       (\<lambda>b. on_success (opal_dss_pack_data_type pb (U8 [t]) b)
         (\<lambda>b. on_success (pack_data e pb t v b) (opal_dss_pack_value e pb vs)))"

text \<open>The functions registered by \<^verbatim>\<open>opal_dss_open\<close>.\<close>

datatype dss_fn = F_null | F_byte | F_int16 | F_int32 | F_int64 | F_string | F_timeval | F_time
  | F_byte_object | F_bool | F_int | F_sizet | F_pid | F_data_type | F_jobid | F_vpid | F_name
  | F_value | F_buffer

definition opal_dss_types :: "(data_type \<times> dss_fn) list" where
  "opal_dss_types = [(OPAL_NULL, F_null), (OPAL_BYTE, F_byte), (OPAL_BOOL, F_bool), (OPAL_INT, F_int),
     (OPAL_UINT, F_int), (OPAL_INT8, F_byte), (OPAL_UINT8, F_byte), (OPAL_INT16, F_int16),
     (OPAL_UINT16, F_int16), (OPAL_INT32, F_int32), (OPAL_UINT32, F_int32), (OPAL_INT64, F_int64),
     (OPAL_UINT64, F_int64), (OPAL_SIZE, F_sizet), (OPAL_PID, F_pid), (OPAL_STRING, F_string),
     (OPAL_DATA_TYPE, F_data_type), (OPAL_BYTE_OBJECT, F_byte_object), (OPAL_VALUE, F_value),
     (OPAL_BUFFER, F_buffer), (OPAL_TIMEVAL, F_timeval), (OPAL_TIME, F_time), (OPAL_NAME, F_name),
     (OPAL_JOBID, F_jobid), (OPAL_VPID, F_vpid)]"

text \<open>
  Calling a function with data of another type is undefined.
\<close>

definition odti_pack_fn :: "'x dss_env \<Rightarrow> 'x pack_fn \<Rightarrow> dss_fn \<Rightarrow> 'x vals \<Rightarrow> opal_buffer
     \<Rightarrow> (status \<times> opal_buffer) option" where
  "odti_pack_fn e pb f v b =
     (case f of
        F_null \<Rightarrow> opal_dss_pack_null e (vals_count v) b
      | F_byte \<Rightarrow> (case v of U8 xs \<Rightarrow> opal_dss_pack_byte e xs b | _ \<Rightarrow> None)
      | F_int16 \<Rightarrow> (case v of U16 xs \<Rightarrow> opal_dss_pack_int16 e xs b | _ \<Rightarrow> None)
      | F_int32 \<Rightarrow> (case v of U32 xs \<Rightarrow> opal_dss_pack_int32 e xs b | _ \<Rightarrow> None)
      | F_int64 \<Rightarrow> (case v of U64 xs \<Rightarrow> opal_dss_pack_int64 e xs b | _ \<Rightarrow> None)
      | F_string \<Rightarrow> (case v of Strs xs \<Rightarrow> opal_dss_pack_string e xs b | _ \<Rightarrow> None)
      | F_timeval \<Rightarrow> (case v of Tvs xs \<Rightarrow> opal_dss_pack_timeval e xs b | _ \<Rightarrow> None)
      | F_time \<Rightarrow> (case v of U64 xs \<Rightarrow> opal_dss_pack_time e xs b | _ \<Rightarrow> None)
      | F_byte_object \<Rightarrow> (case v of Bos xs \<Rightarrow> opal_dss_pack_byte_object e xs b | _ \<Rightarrow> None)
      | F_bool \<Rightarrow> opal_dss_pack_bool e pb v b
      | F_int \<Rightarrow> opal_dss_pack_int e pb v b
      | F_sizet \<Rightarrow> opal_dss_pack_sizet e pb v b
      | F_pid \<Rightarrow> opal_dss_pack_pid e pb v b
      | F_data_type \<Rightarrow> opal_dss_pack_data_type pb v b
      | F_jobid \<Rightarrow> opal_dss_pack_jobid pb v b
      | F_vpid \<Rightarrow> opal_dss_pack_vpid pb v b
      | F_name \<Rightarrow> (case v of Names xs \<Rightarrow> opal_dss_pack_name e pb xs b | _ \<Rightarrow> None)
      | F_value \<Rightarrow> (case v of Values xs \<Rightarrow> opal_dss_pack_value e pb xs b | _ \<Rightarrow> None)
      | F_buffer \<Rightarrow> (case v of Bufs xs \<Rightarrow> opal_dss_pack_buffer_contents e pb xs b | _ \<Rightarrow> None))"

text \<open>
  \<^verbatim>\<open>opal_dss_pack_buffer\<close>.  The types refer to each other at most three calls deep: a value to a
  name or a generic type, that to a fixed-size type.  The argument \<open>k\<close> bounds the depth.
\<close>

fun dss_pack_buffer :: "nat \<Rightarrow> 'x dss_env \<Rightarrow> 'x pack_fn" where
  "dss_pack_buffer 0 e t v b = None"
| "dss_pack_buffer (Suc k) e t v b =
     on_success (if buf_type b = FULLY_DESC then opal_dss_store_data_type e t b else Some (SUCCESS, b))
       (\<lambda>b. case map_of opal_dss_types t of
               Some f \<Rightarrow> odti_pack_fn e (dss_pack_buffer k e) f v b
             | None \<Rightarrow> (case ext_pack e t of
                           None \<Rightarrow> Some (ERR_PACK_FAILURE, b)
                         | Some g \<Rightarrow> (case v of Ext xs \<Rightarrow> g xs b | _ \<Rightarrow> None)))"

definition opal_dss_pack_buffer :: "'x dss_env \<Rightarrow> 'x pack_fn" where
  "opal_dss_pack_buffer e = dss_pack_buffer 3 e"

definition opal_dss_pack :: "'x dss_env \<Rightarrow> 'x pack_fn" where
  "opal_dss_pack e t v b =
     on_success (if buf_type b = FULLY_DESC then opal_dss_store_data_type e OPAL_INT32 b else Some (SUCCESS, b))
       (\<lambda>b. on_success (opal_dss_pack_int32 e [of_nat (vals_count v)] b) (opal_dss_pack_buffer e t v))"

section \<open>Unpacking\<close>

text \<open>
  An unpack function returns the values it has stored.  When it fails, these are the values stored before
  the failure; anything else in the destination is then unspecified.
\<close>

definition opal_dss_unpack_byte :: "int \<Rightarrow> opal_buffer \<Rightarrow> (status \<times> byte list \<times> opal_buffer) option" where
  "opal_dss_unpack_byte num_vals b =
     (if opal_dss_too_small b (bytes_reqd num_vals 1)
      then Some (ERR_UNPACK_READ_PAST_END_OF_BUFFER, [], b)
      else do { (bs, b) \<leftarrow> get_bytes (nat num_vals) b; Some (SUCCESS, bs, b) })"

definition opal_dss_unpack_null :: "int \<Rightarrow> opal_buffer \<Rightarrow> (status \<times> byte list \<times> opal_buffer) option" where
  "opal_dss_unpack_null = opal_dss_unpack_byte"

definition unpack_words ::
  "nat \<Rightarrow> int \<Rightarrow> opal_buffer \<Rightarrow> (status \<times> 'w::len word list \<times> opal_buffer) option" where
  "unpack_words k num_vals b =
     (if opal_dss_too_small b (bytes_reqd num_vals (int k))
      then Some (ERR_UNPACK_READ_PAST_END_OF_BUFFER, [], b)
      else do { (bs, b) \<leftarrow> get_bytes (k * nat num_vals) b;
                Some (SUCCESS, words_at k (nat num_vals) bs, b) })"

definition opal_dss_unpack_int16 :: "int \<Rightarrow> opal_buffer \<Rightarrow> (status \<times> 16 word list \<times> opal_buffer) option" where
  "opal_dss_unpack_int16 = unpack_words 2"

definition opal_dss_unpack_int32 :: "int \<Rightarrow> opal_buffer \<Rightarrow> (status \<times> 32 word list \<times> opal_buffer) option" where
  "opal_dss_unpack_int32 = unpack_words 4"

definition opal_dss_unpack_int64 :: "int \<Rightarrow> opal_buffer \<Rightarrow> (status \<times> 64 word list \<times> opal_buffer) option" where
  "opal_dss_unpack_int64 = unpack_words 8"

text \<open>\<^verbatim>\<open>malloc\<close> of a size that was converted from \<^verbatim>\<open>int32_t\<close>.\<close>

definition malloc_int :: "'x dss_env \<Rightarrow> int \<Rightarrow> bool" where
  "malloc_int e len = dss_mem e (nat (len mod 2 ^ 64))"

text \<open>The loop over \<open>n\<close> strings.  The length found in the buffer is not checked against anything.\<close>

fun unpack_strings ::
  "'x dss_env \<Rightarrow> nat \<Rightarrow> opal_buffer \<Rightarrow> (status \<times> byte list option list \<times> opal_buffer) option" where
  "unpack_strings e 0 b = Some (SUCCESS, [], b)"
| "unpack_strings e (Suc n) b =
     do { (ret, ws, b) \<leftarrow> opal_dss_unpack_int32 1 b;
          if ret \<noteq> SUCCESS then Some (ret, [], b)
          else
            let len = sint (hd ws) in
            if len = 0
            then do { (ret, ss, b) \<leftarrow> unpack_strings e n b; Some (ret, None # ss, b) }
            else if \<not> malloc_int e len then Some (ERR_OUT_OF_RESOURCE, [None], b)
            else do { (ret, bs, b) \<leftarrow> opal_dss_unpack_byte len b;
                      if ret \<noteq> SUCCESS then Some (ret, [Some bs], b)
                      else do { (ret, ss, b) \<leftarrow> unpack_strings e n b; Some (ret, Some bs # ss, b) } } }"

definition opal_dss_unpack_string ::
  "'x dss_env \<Rightarrow> int \<Rightarrow> opal_buffer \<Rightarrow> (status \<times> byte list option list \<times> opal_buffer) option" where
  "opal_dss_unpack_string e num_vals b = unpack_strings e (nat num_vals) b"

fun unpack_timevals ::
  "nat \<Rightarrow> opal_buffer \<Rightarrow> (status \<times> (64 word \<times> 64 word) list \<times> opal_buffer) option" where
  "unpack_timevals 0 b = Some (SUCCESS, [], b)"
| "unpack_timevals (Suc n) b =
     do { (ret, tmp, b) \<leftarrow> opal_dss_unpack_int64 2 b;
          if ret \<noteq> SUCCESS then Some (ret, [], b)
          else do { (ret, tvs, b) \<leftarrow> unpack_timevals n b;
                    Some (ret, (tmp ! 0, tmp ! 1) # tvs, b) } }"

definition opal_dss_unpack_timeval ::
  "int \<Rightarrow> opal_buffer \<Rightarrow> (status \<times> (64 word \<times> 64 word) list \<times> opal_buffer) option" where
  "opal_dss_unpack_timeval num_vals b =
     (if opal_dss_too_small b (bytes_reqd num_vals 16)
      then Some (ERR_UNPACK_READ_PAST_END_OF_BUFFER, [], b)
      else unpack_timevals (nat num_vals) b)"

fun unpack_times :: "nat \<Rightarrow> opal_buffer \<Rightarrow> (status \<times> 64 word list \<times> opal_buffer) option" where
  "unpack_times 0 b = Some (SUCCESS, [], b)"
| "unpack_times (Suc n) b =
     do { (ret, ui64, b) \<leftarrow> opal_dss_unpack_int64 1 b;
          if ret \<noteq> SUCCESS then Some (ret, [], b)
          else do { (ret, ts, b) \<leftarrow> unpack_times n b; Some (ret, hd ui64 # ts, b) } }"

definition opal_dss_unpack_time :: "int \<Rightarrow> opal_buffer \<Rightarrow> (status \<times> 64 word list \<times> opal_buffer) option" where
  "opal_dss_unpack_time num_vals b =
     (if opal_dss_too_small b (bytes_reqd num_vals 8)
      then Some (ERR_UNPACK_READ_PAST_END_OF_BUFFER, [], b)
      else unpack_times (nat num_vals) b)"

text \<open>The size and the bytes of a byte object; a size of 0 or less leaves the bytes NULL.\<close>

definition unpack_sized_bytes ::
  "'x dss_env \<Rightarrow> opal_buffer \<Rightarrow> (status \<times> (32 word \<times> byte list) \<times> opal_buffer) option" where
  "unpack_sized_bytes e b =
     do { (ret, ws, b) \<leftarrow> opal_dss_unpack_int32 1 b;
          if ret \<noteq> SUCCESS then Some (ret, (0, []), b)
          else if 0 < sint (hd ws)
          then if \<not> malloc_int e (sint (hd ws)) then Some (ERR_OUT_OF_RESOURCE, (hd ws, []), b)
               else do { (ret, bs, b) \<leftarrow> opal_dss_unpack_byte (sint (hd ws)) b;
                         Some (ret, (hd ws, bs), b) }
          else Some (SUCCESS, (hd ws, []), b) }"

fun unpack_byte_objects ::
  "'x dss_env \<Rightarrow> nat \<Rightarrow> opal_buffer \<Rightarrow> (status \<times> (32 word \<times> byte list) list \<times> opal_buffer) option" where
  "unpack_byte_objects e 0 b = Some (SUCCESS, [], b)"
| "unpack_byte_objects e (Suc n) b =
     (if \<not> dss_mem e 16 then Some (ERR_OUT_OF_RESOURCE, [], b)
      else do { (ret, bo, b) \<leftarrow> unpack_sized_bytes e b;
                if ret \<noteq> SUCCESS then Some (ret, [bo], b)
                else do { (ret, bos, b) \<leftarrow> unpack_byte_objects e n b; Some (ret, bo # bos, b) } })"

definition opal_dss_unpack_byte_object ::
  "'x dss_env \<Rightarrow> int \<Rightarrow> opal_buffer \<Rightarrow> (status \<times> (32 word \<times> byte list) list \<times> opal_buffer) option" where
  "opal_dss_unpack_byte_object e num b = unpack_byte_objects e (nat num) b"

definition opal_dss_get_data_type :: "opal_buffer \<Rightarrow> (status \<times> data_type \<times> opal_buffer) option" where
  "opal_dss_get_data_type b =
     do { (ret, ts, b) \<leftarrow> opal_dss_unpack_byte 1 b;
          Some (if ret \<noteq> SUCCESS then (ret, OPAL_UNDEF, b) else (ret, hd ts, b)) }"

text \<open>Peeking unpacks from a copy of the buffer.\<close>

definition at_end :: "opal_buffer \<Rightarrow> bool" where
  "at_end b \<longleftrightarrow> base_null b \<or> bytes_used b \<le> unpack_ptr b"

definition opal_dss_peek_type :: "opal_buffer \<Rightarrow> (status \<times> data_type) option" where
  "opal_dss_peek_type b =
     (if buf_type b \<noteq> FULLY_DESC then Some (ERR_UNKNOWN_DATA_TYPE, OPAL_UNDEF)
      else if at_end b then Some (ERR_UNPACK_READ_PAST_END_OF_BUFFER, OPAL_UNDEF)
      else do { (ret, t, _) \<leftarrow> opal_dss_get_data_type b;
                Some (if ret \<noteq> SUCCESS then (ret, OPAL_UNDEF) else (SUCCESS, t)) })"

definition opal_dss_peek :: "opal_buffer \<Rightarrow> (status \<times> data_type \<times> int) option" where
  "opal_dss_peek b =
     (if at_end b then Some (ERR_UNPACK_READ_PAST_END_OF_BUFFER, OPAL_NULL, 0)
      else if buf_type b \<noteq> FULLY_DESC then Some (ERR_UNKNOWN_DATA_TYPE, OPAL_UNDEF, 0)
      else do { (ret, local_type, b) \<leftarrow> opal_dss_get_data_type b;
                if ret \<noteq> SUCCESS then Some (ret, OPAL_NULL, 0)
                else if local_type \<noteq> OPAL_INT32 then Some (ERR_UNPACK_FAILURE, OPAL_NULL, 0)
                else do { (ret, ns, b) \<leftarrow> opal_dss_unpack_int32 1 b;
                          if ret \<noteq> SUCCESS then Some (ret, OPAL_NULL, 0)
                          else do { (ret, t, b) \<leftarrow> opal_dss_get_data_type b;
                                    Some (if ret \<noteq> SUCCESS then (ret, OPAL_NULL, 0)
                                          else (SUCCESS, t, sint (hd ns))) } } })"

text \<open>The functions that call \<^verbatim>\<open>opal_dss_unpack_buffer\<close> recursively have it as the argument \<open>ub\<close>.\<close>

type_synonym 'x unpack_fn = "data_type \<Rightarrow> int \<Rightarrow> opal_buffer \<Rightarrow> (status \<times> 'x vals \<times> opal_buffer) option"

text \<open>
  A generic type that was packed with another size is unpacked as the type it was packed with, and its
  elements are converted (\<^verbatim>\<open>UNPACK_SIZE_MISMATCH\<close>).
\<close>

definition int_types :: "(data_type \<times> int) list" where
  "int_types = [(OPAL_UINT8, 1), (OPAL_INT8, 1), (OPAL_UINT16, 2), (OPAL_INT16, 2), (OPAL_UINT32, 4),
     (OPAL_INT32, 4), (OPAL_UINT64, 8), (OPAL_INT64, 8)]"

definition elements :: "data_type \<Rightarrow> 'x vals \<Rightarrow> int list" where
  "elements t v =
     (case v of
        U8 xs \<Rightarrow> map (if t = OPAL_INT8 then sint else uint) xs
      | U16 xs \<Rightarrow> map (if t = OPAL_INT16 then sint else uint) xs
      | U32 xs \<Rightarrow> map (if t = OPAL_INT32 then sint else uint) xs
      | U64 xs \<Rightarrow> map (if t = OPAL_INT64 then sint else uint) xs
      | _ \<Rightarrow> [])"

definition unpack_size_mismatch ::
  "'x dss_env \<Rightarrow> 'x unpack_fn \<Rightarrow> (int list \<Rightarrow> 'x vals) \<Rightarrow> data_type \<Rightarrow> int \<Rightarrow> opal_buffer
     \<Rightarrow> (status \<times> 'x vals \<times> opal_buffer) option" where
  "unpack_size_mismatch e ub conv remote_type num_vals b =
     (case map_of int_types remote_type of
        None \<Rightarrow> Some (ERR_NOT_FOUND, conv [], b)
      | Some k \<Rightarrow>
          if 0 < num_vals \<and> \<not> malloc_int e (k * num_vals) then None
          else do { (ret, v, b) \<leftarrow> ub remote_type num_vals b;
                    Some (ret, conv (elements remote_type v), b) })"

definition unpack_described ::
  "'x dss_env \<Rightarrow> 'x unpack_fn \<Rightarrow> data_type \<Rightarrow> (int list \<Rightarrow> 'x vals) \<Rightarrow> int \<Rightarrow> opal_buffer
     \<Rightarrow> (status \<times> 'x vals \<times> opal_buffer) option" where
  "unpack_described e ub real conv num_vals b =
     do { (ret, remote_type, b) \<leftarrow>
            (if buf_type b = FULLY_DESC
             then do { (ret, t) \<leftarrow> opal_dss_peek_type b; Some (ret, t, b) }
             else opal_dss_get_data_type b);
          if ret \<noteq> SUCCESS then Some (ret, conv [], b)
          else if remote_type = real then ub real num_vals b
          else unpack_size_mismatch e ub conv remote_type num_vals b }"

definition opal_dss_unpack_bool ::
  "'x dss_env \<Rightarrow> 'x unpack_fn \<Rightarrow> int \<Rightarrow> opal_buffer \<Rightarrow> (status \<times> 'x vals \<times> opal_buffer) option" where
  "opal_dss_unpack_bool e ub =
     unpack_described e ub DSS_TYPE_BOOL (\<lambda>xs. U8 (map (\<lambda>x. if x \<noteq> 0 then 1 else 0) xs))"

definition opal_dss_unpack_int ::
  "'x dss_env \<Rightarrow> 'x unpack_fn \<Rightarrow> int \<Rightarrow> opal_buffer \<Rightarrow> (status \<times> 'x vals \<times> opal_buffer) option" where
  "opal_dss_unpack_int e ub = unpack_described e ub DSS_TYPE_INT (\<lambda>xs. U32 (map of_int xs))"

definition opal_dss_unpack_sizet ::
  "'x dss_env \<Rightarrow> 'x unpack_fn \<Rightarrow> int \<Rightarrow> opal_buffer \<Rightarrow> (status \<times> 'x vals \<times> opal_buffer) option" where
  "opal_dss_unpack_sizet e ub = unpack_described e ub DSS_TYPE_SIZE_T (\<lambda>xs. U64 (map of_int xs))"

definition opal_dss_unpack_pid ::
  "'x dss_env \<Rightarrow> 'x unpack_fn \<Rightarrow> int \<Rightarrow> opal_buffer \<Rightarrow> (status \<times> 'x vals \<times> opal_buffer) option" where
  "opal_dss_unpack_pid e ub = unpack_described e ub DSS_TYPE_PID_T (\<lambda>xs. U32 (map of_int xs))"

definition opal_dss_unpack_data_type ::
  "'x unpack_fn \<Rightarrow> int \<Rightarrow> opal_buffer \<Rightarrow> (status \<times> 'x vals \<times> opal_buffer) option" where
  "opal_dss_unpack_data_type ub = ub OPAL_DATA_TYPE_T"

definition opal_dss_unpack_jobid ::
  "'x unpack_fn \<Rightarrow> int \<Rightarrow> opal_buffer \<Rightarrow> (status \<times> 'x vals \<times> opal_buffer) option" where
  "opal_dss_unpack_jobid ub = ub OPAL_JOBID_T"

definition opal_dss_unpack_vpid ::
  "'x unpack_fn \<Rightarrow> int \<Rightarrow> opal_buffer \<Rightarrow> (status \<times> 'x vals \<times> opal_buffer) option" where
  "opal_dss_unpack_vpid ub = ub OPAL_VPID_T"

fun u32s :: "'x vals \<Rightarrow> 32 word list" where
  "u32s (U32 xs) = xs"
| "u32s _ = []"

definition opal_dss_unpack_name ::
  "'x dss_env \<Rightarrow> 'x unpack_fn \<Rightarrow> int \<Rightarrow> opal_buffer
     \<Rightarrow> (status \<times> (32 word \<times> 32 word) list \<times> opal_buffer) option" where
  "opal_dss_unpack_name e ub num b =
     (if \<not> malloc_int e (4 * num) then Some (ERR_OUT_OF_RESOURCE, [], b)
      else do { (rc, jobid, b) \<leftarrow> opal_dss_unpack_jobid ub num b;
                if rc \<noteq> SUCCESS then Some (rc, [], b)
                else if \<not> malloc_int e (4 * num) then Some (ERR_OUT_OF_RESOURCE, [], b)
                else do { (rc, vpid, b) \<leftarrow> opal_dss_unpack_vpid ub num b;
                          if rc \<noteq> SUCCESS then Some (rc, [], b)
                          else Some (SUCCESS, zip (u32s jobid) (u32s vpid), b) } })"

text \<open>
  \<^verbatim>\<open>opal_dss_unpack_buffer_contents\<close>: the number of bytes is read as \<^verbatim>\<open>size_t\<close>, the bytes are
  unpacked with the \<^verbatim>\<open>int32_t\<close> it is converted to.
\<close>

definition opal_object_size :: nat where "opal_object_size = 64"

definition contents_buffer :: "buffer_type \<Rightarrow> bool \<Rightarrow> 64 word \<Rightarrow> byte list \<Rightarrow> opal_buffer" where
  "contents_buffer t allocated nbytes bs =
     \<lparr>buf_type = t, base_null = (\<not> allocated), ptr_null = (\<not> allocated),
      buf_block = (if allocated then map Some bs @ replicate (unat nbytes - length bs) None else []),
      pack_ptr = length bs, unpack_ptr = 0, bytes_allocated = unat nbytes, bytes_used = length bs\<rparr>"

fun unpack_buffers ::
  "'x dss_env \<Rightarrow> 'x unpack_fn \<Rightarrow> nat \<Rightarrow> opal_buffer \<Rightarrow> (status \<times> opal_buffer list \<times> opal_buffer) option" where
  "unpack_buffers e ub 0 b = Some (SUCCESS, [], b)"
| "unpack_buffers e ub (Suc n) b =
     (if \<not> dss_mem e opal_object_size then Some (ERR_OUT_OF_RESOURCE, [], b)
      else do { (ret, v, b) \<leftarrow> opal_dss_unpack_sizet e ub 1 b;
                if ret \<noteq> SUCCESS then Some (ret, [], b)
                else
                  let nbytes = (case v of U64 (x # _) \<Rightarrow> x | _ \<Rightarrow> 0);
                      m = sint (ucast nbytes :: 32 word)
                  in do { (ret, bs, b) \<leftarrow>
                            (if 0 < nbytes then opal_dss_unpack_byte m b else Some (SUCCESS, [], b));
                          if bs \<noteq> [] \<and> \<not> dss_mem e (unat nbytes) then None
                          else if ret \<noteq> SUCCESS then Some (ret, [], b)
                          else do { (ret, bufs, b) \<leftarrow> unpack_buffers e ub n b;
                                    Some (ret, contents_buffer (default_buf_type e) (0 < nbytes \<and> dss_mem e (unat nbytes)) nbytes bs # bufs, b) } } })"

definition opal_dss_unpack_buffer_contents ::
  "'x dss_env \<Rightarrow> 'x unpack_fn \<Rightarrow> int \<Rightarrow> opal_buffer \<Rightarrow> (status \<times> opal_buffer list \<times> opal_buffer) option" where
  "opal_dss_unpack_buffer_contents e ub num_vals b = unpack_buffers e ub (nat num_vals) b"

text \<open>
  The data of a value.  The constructor sets the whole union to zero, so the \<^verbatim>\<open>data\<close> pointer of an
  array is NULL when its elements are unpacked: storing an element is undefined.
\<close>

definition unpack_data ::
  "'x dss_env \<Rightarrow> 'x unpack_fn \<Rightarrow> data_type \<Rightarrow> opal_buffer \<Rightarrow> (status \<times> 'x vals \<times> opal_buffer) option" where
  "unpack_data e ub t b =
     (if t \<in> set scalar_types then ub t 1 b
      else if t = OPAL_BYTE_OBJECT
      then do { (ret, bo, b) \<leftarrow> unpack_sized_bytes e b; Some (ret, Bos [bo], b) }
      else case map_of array_types t of
             Some elt \<Rightarrow>
               do { (ret, sz, b) \<leftarrow> ub OPAL_INT32 1 b;
                    if ret \<noteq> SUCCESS then Some (ret, U8 [], b)
                    else do { (ret, v, b) \<leftarrow> ub elt (sint (hd (u32s sz))) b;
                              if 0 < vals_count v then None else Some (ret, v, b) } }
           | None \<Rightarrow> Some (ERROR, U8 [], b))"

fun unpack_values ::
  "'x dss_env \<Rightarrow> 'x unpack_fn \<Rightarrow> nat \<Rightarrow> opal_buffer
     \<Rightarrow> (status \<times> (byte list option \<times> data_type \<times> 'x vals) list \<times> opal_buffer) option" where
  "unpack_values e ub 0 b = Some (SUCCESS, [], b)"
| "unpack_values e ub (Suc n) b =
     (if \<not> dss_mem e opal_object_size then Some (ERR_OUT_OF_RESOURCE, [], b)
      else do { (ret, key, b) \<leftarrow> opal_dss_unpack_string e 1 b;
                if ret \<noteq> SUCCESS then Some (ret, [], b)
                else do { (ret, ts, b) \<leftarrow> opal_dss_unpack_data_type ub 1 b;
                          if ret \<noteq> SUCCESS then Some (ret, [], b)
                          else
                            let t = (case ts of U8 (t # _) \<Rightarrow> t | _ \<Rightarrow> OPAL_UNDEF)
                            in do { (ret, v, b) \<leftarrow> unpack_data e ub t b;
                                    if ret \<noteq> SUCCESS then Some (ret, [], b)
                                    else do { (ret, vs, b) \<leftarrow> unpack_values e ub n b;
                                              Some (ret, (hd key, t, v) # vs, b) } } } })"

definition opal_dss_unpack_value ::
  "'x dss_env \<Rightarrow> 'x unpack_fn \<Rightarrow> int \<Rightarrow> opal_buffer
     \<Rightarrow> (status \<times> (byte list option \<times> data_type \<times> 'x vals) list \<times> opal_buffer) option" where
  "opal_dss_unpack_value e ub num_vals b = unpack_values e ub (nat num_vals) b"

definition stored_as ::
  "('a \<Rightarrow> 'x vals) \<Rightarrow> (status \<times> 'a \<times> opal_buffer) option \<Rightarrow> (status \<times> 'x vals \<times> opal_buffer) option" where
  "stored_as con r = map_option (\<lambda>(ret, xs, b). (ret, con xs, b)) r"

definition odti_unpack_fn ::
  "'x dss_env \<Rightarrow> 'x unpack_fn \<Rightarrow> dss_fn \<Rightarrow> int \<Rightarrow> opal_buffer \<Rightarrow> (status \<times> 'x vals \<times> opal_buffer) option" where
  "odti_unpack_fn e ub f n b =
     (case f of
        F_null \<Rightarrow> stored_as U8 (opal_dss_unpack_null n b)
      | F_byte \<Rightarrow> stored_as U8 (opal_dss_unpack_byte n b)
      | F_int16 \<Rightarrow> stored_as U16 (opal_dss_unpack_int16 n b)
      | F_int32 \<Rightarrow> stored_as U32 (opal_dss_unpack_int32 n b)
      | F_int64 \<Rightarrow> stored_as U64 (opal_dss_unpack_int64 n b)
      | F_string \<Rightarrow> stored_as Strs (opal_dss_unpack_string e n b)
      | F_timeval \<Rightarrow> stored_as Tvs (opal_dss_unpack_timeval n b)
      | F_time \<Rightarrow> stored_as U64 (opal_dss_unpack_time n b)
      | F_byte_object \<Rightarrow> stored_as Bos (opal_dss_unpack_byte_object e n b)
      | F_bool \<Rightarrow> opal_dss_unpack_bool e ub n b
      | F_int \<Rightarrow> opal_dss_unpack_int e ub n b
      | F_sizet \<Rightarrow> opal_dss_unpack_sizet e ub n b
      | F_pid \<Rightarrow> opal_dss_unpack_pid e ub n b
      | F_data_type \<Rightarrow> opal_dss_unpack_data_type ub n b
      | F_jobid \<Rightarrow> opal_dss_unpack_jobid ub n b
      | F_vpid \<Rightarrow> opal_dss_unpack_vpid ub n b
      | F_name \<Rightarrow> stored_as Names (opal_dss_unpack_name e ub n b)
      | F_value \<Rightarrow> stored_as Values (opal_dss_unpack_value e ub n b)
      | F_buffer \<Rightarrow> stored_as Bufs (opal_dss_unpack_buffer_contents e ub n b))"

fun dss_unpack_buffer :: "nat \<Rightarrow> 'x dss_env \<Rightarrow> 'x unpack_fn" where
  "dss_unpack_buffer 0 e t n b = None"
| "dss_unpack_buffer (Suc k) e t n b =
     do { (rc, local_type, b) \<leftarrow>
            (if buf_type b = FULLY_DESC then opal_dss_get_data_type b else Some (SUCCESS, t, b));
          if rc \<noteq> SUCCESS then Some (rc, U8 [], b)
          else if local_type \<noteq> t then Some (ERR_PACK_MISMATCH, U8 [], b)
          else case map_of opal_dss_types t of
                 Some f \<Rightarrow> odti_unpack_fn e (dss_unpack_buffer k e) f n b
               | None \<Rightarrow> (case ext_unpack e t of
                             None \<Rightarrow> Some (ERR_UNPACK_FAILURE, U8 [], b)
                           | Some g \<Rightarrow> stored_as Ext (g n b)) }"

definition opal_dss_unpack_buffer :: "'x dss_env \<Rightarrow> 'x unpack_fn" where
  "opal_dss_unpack_buffer e = dss_unpack_buffer 3 e"

text \<open>\<^verbatim>\<open>opal_dss_unpack\<close>; the result carries \<^verbatim>\<open>*num_vals\<close> and the values.\<close>

definition opal_dss_unpack ::
  "'x dss_env \<Rightarrow> data_type \<Rightarrow> int \<Rightarrow> opal_buffer \<Rightarrow> (status \<times> (int \<times> 'x vals) \<times> opal_buffer) option" where
  "opal_dss_unpack e t num_vals b =
     (if num_vals = 0 then Some (ERR_UNPACK_INADEQUATE_SPACE, (0, U8 []), b)
      else
        do { (rc, local_type, b) \<leftarrow>
               (if buf_type b = FULLY_DESC then opal_dss_get_data_type b else Some (SUCCESS, OPAL_INT32, b));
             if rc \<noteq> SUCCESS then Some (rc, (0, U8 []), b)
             else if local_type \<noteq> OPAL_INT32 then Some (ERR_UNPACK_FAILURE, (0, U8 []), b)
             else
               do { (rc, ns, b) \<leftarrow> opal_dss_unpack_int32 1 b;
                    if rc \<noteq> SUCCESS then Some (rc, (0, U8 []), b)
                    else
                      let local_num = (if num_vals < sint (hd ns) then num_vals else sint (hd ns));
                          ret = (if num_vals < sint (hd ns) then ERR_UNPACK_INADEQUATE_SPACE else SUCCESS)
                      in do { (rc, v, b) \<leftarrow> opal_dss_unpack_buffer e t local_num b;
                              if rc \<noteq> SUCCESS then Some (rc, (0, v), b)
                              else Some (ret, (local_num, v), b) } } })"

end
