(* ===== verification/Opal_Progress_Threads.thy ===== *)
theory Opal_Progress_Threads
  imports C_Strings
begin

text \<open>
  Progress threads, \<^verbatim>\<open>opal/runtime/opal_progress_threads.c\<close>: event bases that are shared by
  name and counted, each with a thread that drives it.

  The list of trackers is \<open>None\<close> until the first call constructs it (\<^verbatim>\<open>inited\<close>).  The event
  library and the system's threads are parameters: what \<^verbatim>\<open>opal_event_base_create\<close> returns, with
  \<open>None\<close> for NULL, and the status of \<^verbatim>\<open>opal_thread_start\<close>.  The outer \<open>None\<close> of a
  result is undefined behaviour.
\<close>

section \<open>Trackers\<close>

record tracker =
  refcount :: int
  trk_name :: string
  trk_base :: nat
  trk_active :: bool

record thread_env =
  new_tracker :: bool
  name_copied :: bool
  base_created :: "nat option"
  thread_started :: status

type_synonym trackers = "tracker list option"

definition shared_thread_name :: string where
  "shared_thread_name = ''OPAL-wide async progress thread''"

definition thread_name :: "string option \<Rightarrow> string" where
  "thread_name name = (case name of None \<Rightarrow> shared_thread_name | Some s \<Rightarrow> s)"

text \<open>The loops stop at the first tracker with the name; \<open>edit\<close> replaces it.\<close>

fun edit :: "string \<Rightarrow> (tracker \<Rightarrow> tracker list) \<Rightarrow> tracker list \<Rightarrow> tracker list" where
  "edit name f [] = []"
| "edit name f (t # ts) = (if name = trk_name t then f t @ ts else t # edit name f ts)"

abbreviation tracked :: "string \<Rightarrow> tracker list \<Rightarrow> tracker option" where
  "tracked name ts \<equiv> find (\<lambda>t. name = trk_name t) ts"

text \<open>
  The destructor deletes the event of the tracker, which \<^verbatim>\<open>opal_event_set\<close> must have set up; a
  tracker that is released before has an event of unspecified content.
\<close>

definition tracker_destructor :: "bool \<Rightarrow> unit option" where
  "tracker_destructor event_set = (if event_set then Some () else None)"

definition stop_progress_engine :: "tracker \<Rightarrow> tracker" where
  "stop_progress_engine trk = trk\<lparr>trk_active := False\<rparr>"

text \<open>The flag is set before the thread is started, and stays set when that fails.\<close>

definition start_progress_engine :: "thread_env \<Rightarrow> tracker \<Rightarrow> status \<times> tracker" where
  "start_progress_engine e trk = (thread_started e, trk\<lparr>trk_active := True\<rparr>)"

definition opal_progress_thread_init ::
  "thread_env \<Rightarrow> string option \<Rightarrow> trackers \<Rightarrow> (nat option \<times> trackers) option" where
  "opal_progress_thread_init e name tracking =
     (let ts = (case tracking of None \<Rightarrow> [] | Some ts \<Rightarrow> ts); name = thread_name name
      in case tracked name ts of
           Some trk \<Rightarrow> Some (Some (trk_base trk), Some (edit name (\<lambda>t. [t\<lparr>refcount := refcount t + 1\<rparr>]) ts))
         | None \<Rightarrow>
             if \<not> new_tracker e then Some (None, Some ts)
             else if \<not> name_copied e
             then map_option (\<lambda>_. (None, Some ts)) (tracker_destructor False)
             else case base_created e of
                    None \<Rightarrow> map_option (\<lambda>_. (None, Some ts)) (tracker_destructor False)
                  | Some base \<Rightarrow>
                      let (rc, trk) = start_progress_engine e
                            \<lparr>refcount = 1, trk_name = name, trk_base = base, trk_active = False\<rparr>
                      in if rc \<noteq> SUCCESS
                         then map_option (\<lambda>_. (None, Some ts)) (tracker_destructor True)
                         else Some (Some base, Some (ts @ [trk])))"

definition opal_progress_thread_finalize :: "string option \<Rightarrow> trackers \<Rightarrow> status \<times> trackers" where
  "opal_progress_thread_finalize name tracking =
     (case tracking of
        None \<Rightarrow> (ERR_NOT_FOUND, None)
      | Some ts \<Rightarrow>
          let name = thread_name name
          in case tracked name ts of
               None \<Rightarrow> (ERR_NOT_FOUND, Some ts)
             | Some trk \<Rightarrow>
                 if 0 < refcount trk - 1
                 then (SUCCESS, Some (edit name (\<lambda>t. [t\<lparr>refcount := refcount t - 1\<rparr>]) ts))
                 else (SUCCESS, Some (edit name (\<lambda>t. []) ts)))"

definition opal_progress_thread_pause :: "string option \<Rightarrow> trackers \<Rightarrow> status \<times> trackers" where
  "opal_progress_thread_pause name tracking =
     (case tracking of
        None \<Rightarrow> (ERR_NOT_FOUND, None)
      | Some ts \<Rightarrow>
          let name = thread_name name
          in case tracked name ts of
               None \<Rightarrow> (ERR_NOT_FOUND, Some ts)
             | Some trk \<Rightarrow>
                 (SUCCESS, Some (if trk_active trk then edit name (\<lambda>t. [stop_progress_engine t]) ts else ts)))"

definition opal_progress_thread_resume :: "thread_env \<Rightarrow> string option \<Rightarrow> trackers \<Rightarrow> status \<times> trackers" where
  "opal_progress_thread_resume e name tracking =
     (case tracking of
        None \<Rightarrow> (ERR_NOT_FOUND, None)
      | Some ts \<Rightarrow>
          let name = thread_name name
          in case tracked name ts of
               None \<Rightarrow> (ERR_NOT_FOUND, Some ts)
             | Some trk \<Rightarrow>
                 if trk_active trk then (ERR_RESOURCE_BUSY, Some ts)
                 else (fst (start_progress_engine e trk),
                       Some (edit name (\<lambda>t. [snd (start_progress_engine e t)]) ts)))"

section \<open>Users of a thread\<close>

text \<open>How often a name is in use, and the invariant of the list.\<close>

definition users :: "trackers \<Rightarrow> string \<Rightarrow> int" where
  "users tracking name =
     (case tracking of
        None \<Rightarrow> 0
      | Some ts \<Rightarrow> (case tracked name ts of None \<Rightarrow> 0 | Some t \<Rightarrow> refcount t))"

definition trackers_ok :: "trackers \<Rightarrow> bool" where
  "trackers_ok tracking \<longleftrightarrow>
     (case tracking of
        None \<Rightarrow> True
      | Some ts \<Rightarrow> distinct (map trk_name ts) \<and> (\<forall>t\<in>set ts. 1 \<le> refcount t))"

lemma tracked_append: "tracked m (us @ ts) = (case tracked m us of None \<Rightarrow> tracked m ts | Some t \<Rightarrow> Some t)"
  by (induction us) auto

lemma tracked_None: "tracked name ts = None \<longleftrightarrow> name \<notin> trk_name ` set ts"
  by (auto simp: find_None_iff)

lemma tracked_in: "tracked name ts = Some t \<Longrightarrow> t \<in> set ts \<and> trk_name t = name"
  by (auto simp: find_Some_iff)

lemma tracked_edit_other:
  "(\<And>t. \<forall>t'\<in>set (f t). trk_name t' = trk_name t) \<Longrightarrow> m \<noteq> name \<Longrightarrow> tracked m (edit name f ts) = tracked m ts"
proof (induction ts)
  case (Cons t ts)
  have "tracked m (f t @ ts) = tracked m ts" if "m \<noteq> trk_name t"
  proof -
    have "m \<notin> trk_name ` set (f t)" using Cons.prems(1) that by auto
    then show ?thesis by (simp add: tracked_append tracked_None [THEN iffD2])
  qed
  with Cons show ?case by auto
qed simp

lemma tracked_edit_same: "tracked name ts = Some t \<Longrightarrow> trk_name (f t) = name \<Longrightarrow> tracked name (edit name (\<lambda>t. [f t]) ts) = Some (f t)"
  by (induction ts) (auto split: if_splits)

lemma names_edit: "(\<And>t. trk_name (f t) = trk_name t) \<Longrightarrow> map trk_name (edit name (\<lambda>t. [f t]) ts) = map trk_name ts"
  by (induction ts) auto

lemma names_removed: "distinct (map trk_name ts) \<Longrightarrow> map trk_name (edit name (\<lambda>t. []) ts) = filter (\<lambda>m. m \<noteq> name) (map trk_name ts)"
proof (induction ts)
  case (Cons t ts)
  have "filter (\<lambda>m. m \<noteq> trk_name t) (map trk_name ts) = map trk_name ts"
    using Cons.prems by (intro filter_True) force
  with Cons show ?case by auto
qed simp

lemma edit_all: "\<forall>t\<in>set ts. P t \<Longrightarrow> (\<And>t. P t \<Longrightarrow> \<forall>u\<in>set (f t). P u) \<Longrightarrow> \<forall>t\<in>set (edit name f ts). P t"
  by (induction ts) auto

lemma users_init:
  assumes ok: "trackers_ok T" and init: "opal_progress_thread_init e name T = Some (r, T')"
  shows "trackers_ok T'" "r = None \<Longrightarrow> users T' = users T"
    "r = Some base \<Longrightarrow> users T' = (users T)(thread_name name := users T (thread_name name) + 1)"
proof -
  let ?n = "thread_name name"
  define ts where "ts = (case T of None \<Rightarrow> [] | Some ts \<Rightarrow> ts)"
  have ts: "users (Some ts) = users T" "distinct (map trk_name ts)" "\<forall>t\<in>set ts. 1 \<le> refcount t"
    using ok by (auto simp: ts_def users_def trackers_ok_def fun_eq_iff split: option.splits)
  have "trackers_ok T' \<and> (r = None \<longrightarrow> users T' = users (Some ts)) \<and>
      (\<forall>base. r = Some base \<longrightarrow> users T' = (users (Some ts))(?n := users (Some ts) ?n + 1))"
  proof (cases "tracked ?n ts")
    case None
    then have new: "?n \<notin> trk_name ` set ts" using tracked_None by blast
    from None init show ?thesis
      unfolding opal_progress_thread_init_def Let_def ts_def [symmetric]
      using ts(2,3) new
      by (auto simp: trackers_ok_def users_def fun_eq_iff tracked_append start_progress_engine_def tracker_destructor_def
          split: if_splits option.splits) (metis tracker.select_convs(1))
  next
    case (Some trk)
    let ?f = "\<lambda>t. t\<lparr>refcount := refcount t + 1\<rparr>"
    from Some init have T': "T' = Some (edit ?n (\<lambda>t. [?f t]) ts)" and r: "r = Some (trk_base trk)"
      unfolding opal_progress_thread_init_def Let_def ts_def [symmetric] by auto
    have "trackers_ok T'"
      using ts(2) edit_all [OF ts(3), of "\<lambda>t. [?f t]" ?n] by (simp add: T' trackers_ok_def names_edit)
    moreover have "users T' m = ((users (Some ts))(?n := users (Some ts) ?n + 1)) m" for m
      using Some tracked_in [OF Some] tracked_edit_same [OF Some, of ?f] tracked_edit_other [of "\<lambda>t. [?f t]" m ?n ts]
      by (auto simp: T' users_def)
    ultimately show ?thesis using r by auto
  qed
  with ts(1) show "trackers_ok T'" "r = None \<Longrightarrow> users T' = users T"
    "r = Some base \<Longrightarrow> users T' = (users T)(?n := users T ?n + 1)" by auto
qed

lemma users_finalize:
  assumes ok: "trackers_ok T" and fin: "opal_progress_thread_finalize name T = (rc, T')"
  shows "trackers_ok T'" "rc = SUCCESS \<longleftrightarrow> 0 < users T (thread_name name)"
    "users T' = (users T)(thread_name name := max 0 (users T (thread_name name) - 1))"
proof -
  let ?n = "thread_name name"
  have "trackers_ok T' \<and> (rc = SUCCESS \<longleftrightarrow> 0 < users T ?n) \<and> users T' = (users T)(?n := max 0 (users T ?n - 1))"
  proof (cases "T = None \<or> tracked ?n (the T) = None")
    case True
    with fin have "T' = T" "rc = ERR_NOT_FOUND" by (auto simp: opal_progress_thread_finalize_def Let_def split: option.splits)
    moreover have "users T ?n = 0" using True by (auto simp: users_def split: option.splits)
    ultimately show ?thesis using ok by (simp add: fun_eq_iff)
  next
    case False
    then obtain ts trk where T: "T = Some ts" and trk: "tracked ?n ts = Some trk" by auto
    from T ok have ts: "distinct (map trk_name ts)" "\<forall>t\<in>set ts. 1 \<le> refcount t" by (auto simp: trackers_ok_def)
    have n: "users T ?n = refcount trk" using T trk by (simp add: users_def)
    have pos: "1 \<le> refcount trk" using ts(2) tracked_in [OF trk] by blast
    show ?thesis
    proof (cases "0 < refcount trk - 1")
      case True
      let ?f = "\<lambda>t. t\<lparr>refcount := refcount t - 1\<rparr>"
      from True T trk fin have T': "T' = Some (edit ?n (\<lambda>t. [?f t]) ts)" and rc: "rc = SUCCESS"
        by (auto simp: opal_progress_thread_finalize_def Let_def)
      have "\<forall>t\<in>set (edit ?n (\<lambda>t. [?f t]) ts). 1 \<le> refcount t"
        using ts trk True
      proof (induction ts)
        case (Cons t ts)
        then show ?case by (auto split: if_splits)
      qed simp
      then have "trackers_ok T'" using ts(1) by (auto simp: T' trackers_ok_def names_edit)
      moreover have "users T' m = ((users T)(?n := max 0 (users T ?n - 1))) m" for m
        using T trk True tracked_in [OF trk] tracked_edit_same [OF trk, of ?f]
          tracked_edit_other [of "\<lambda>t. [?f t]" m ?n ts] by (auto simp: T' users_def)
      ultimately show ?thesis using rc n pos by auto
    next
      case False
      then have T': "T' = Some (edit ?n (\<lambda>t. []) ts)" and rc: "rc = SUCCESS"
        using T trk fin by (auto simp: opal_progress_thread_finalize_def Let_def)
      have gone: "?n \<notin> trk_name ` set (edit ?n (\<lambda>t. []) ts)"
        using arg_cong [where f = set, OF names_removed [OF ts(1), of ?n]] by auto
      have "trackers_ok T'"
        using ts edit_all [OF ts(2), of "\<lambda>t. []" ?n] by (simp add: T' trackers_ok_def names_removed)
      moreover have "users T' m = ((users T)(?n := max 0 (users T ?n - 1))) m" for m
        using T n pos False gone tracked_edit_other [of "\<lambda>t. []" m ?n ts]
        by (auto simp: T' users_def tracked_None [THEN iffD2])
      ultimately show ?thesis using rc n pos by auto
    qed
  qed
  then show "trackers_ok T'" "rc = SUCCESS \<longleftrightarrow> 0 < users T ?n" "users T' = (users T)(?n := max 0 (users T ?n - 1))"
    by auto
qed

section \<open>Counted names\<close>

text \<open>
  What the clients of the threads rely on: a service that counts the users of names.  A client that
  releases names it holds once frees them, and no others.
\<close>

locale counted_names =
  fixes ok :: "'p \<Rightarrow> bool" and uses :: "'p \<Rightarrow> string \<Rightarrow> int" and release :: "string \<Rightarrow> 'p \<Rightarrow> 'p"
  assumes release_ok: "ok p \<Longrightarrow> ok (release n p)"
    and release_uses: "ok p \<Longrightarrow> uses (release n p) = (uses p)(n := max 0 (uses p n - 1))"
begin

lemma release_all:
  assumes "ok p" "distinct ns" "\<forall>n\<in>set ns. uses p n = 1"
  shows "ok (fold release ns p)" "uses (fold release ns p) = (\<lambda>m. if m \<in> set ns then 0 else uses p m)"
proof -
  from assms have "ok (fold release ns p) \<and> uses (fold release ns p) = (\<lambda>m. if m \<in> set ns then 0 else uses p m)"
  proof (induction ns arbitrary: p)
    case (Cons n ns)
    have ok: "ok (release n p)" by (rule release_ok [OF Cons.prems(1)])
    have u: "uses (release n p) = (uses p)(n := 0)" using release_uses [OF Cons.prems(1)] Cons.prems(3) by simp
    have "\<forall>m\<in>set ns. uses (release n p) m = 1" using Cons.prems u by auto
    from Cons.IH [OF ok _ this] Cons.prems(2) u show ?case by auto
  qed simp
  then show "ok (fold release ns p)" "uses (fold release ns p) = (\<lambda>m. if m \<in> set ns then 0 else uses p m)" by auto
qed

end

definition finalized :: "string \<Rightarrow> trackers \<Rightarrow> trackers" where
  "finalized name T = snd (opal_progress_thread_finalize (Some name) T)"

interpretation progress: counted_names trackers_ok users finalized
proof
  fix T n assume T: "trackers_ok T"
  show "trackers_ok (finalized n T)"
    unfolding finalized_def by (rule users_finalize(1) [OF T prod.collapse [symmetric]])
  show "users (finalized n T) = (users T)(n := max 0 (users T n - 1))"
    using users_finalize(3) [OF T prod.collapse [symmetric], of "Some n"] by (simp add: finalized_def thread_name_def)
qed

end
