(* ===== verification/Orcm_Workflow.thy ===== *)
theory Orcm_Workflow
  imports Opal_Dss Opal_Progress_Threads
begin

text \<open>
  Analytics workflows: the table of workflows an aggregator keeps
  (\<^verbatim>\<open>orcm/mca/analytics/base/analytics_base_stubs.c\<close>, \<^verbatim>\<open>analytics_base_select.c\<close>,
  \<^verbatim>\<open>analytics_base_frame.c\<close>), the messages that change it
  (\<^verbatim>\<open>analytics_base_recv.c\<close>), and the side that sends them
  (\<^verbatim>\<open>orcm/util/workflow_util.c\<close>, \<^verbatim>\<open>orcm/tools/octl/workflow.c\<close>).

  A string that arrived in a message is the block of bytes it was stored in, or NULL; nothing says that the
  block has a NUL.  Reading NULL or beyond a block is undefined, the outer \<open>None\<close> of a result.  Who frees a
  string is not part of the model.  The plugins are a parameter, the list of the components with what
  their \<^verbatim>\<open>available\<close> and \<^verbatim>\<open>create_handle\<close> return; the model counts the modules that were
  created and not yet finalized.  \<^verbatim>\<open>asprintf\<close> is taken to succeed.
\<close>

section \<open>Strings in memory\<close>

type_synonym cstr = "byte list option"

fun str_eq :: "byte list \<Rightarrow> byte list \<Rightarrow> bool option" where
  "str_eq (x # xs) (y # ys) = (if x \<noteq> y then Some False else if x = 0 then Some True else str_eq xs ys)"
| "str_eq _ _ = None"

text \<open>\<^verbatim>\<open>0 == strcmp(a, b)\<close> and \<^verbatim>\<open>0 == strncmp(a, b, n)\<close>: reading stops at the first difference.\<close>

definition strcmp_eq :: "cstr \<Rightarrow> cstr \<Rightarrow> bool option" where
  "strcmp_eq a b = do { x \<leftarrow> a; y \<leftarrow> b; str_eq x y }"

fun strn_eq :: "nat \<Rightarrow> byte list \<Rightarrow> byte list \<Rightarrow> bool option" where
  "strn_eq 0 _ _ = Some True"
| "strn_eq (Suc n) (x # xs) (y # ys) = (if x \<noteq> y then Some False else if x = 0 then Some True else strn_eq n xs ys)"
| "strn_eq (Suc n) _ _ = None"

abbreviation lit :: "string \<Rightarrow> cstr" where
  "lit s \<equiv> Some (cstr_bytes s)"

definition strdup :: "'x dss_env \<Rightarrow> cstr \<Rightarrow> cstr option" where
  "strdup e s = do { bs \<leftarrow> s; n \<leftarrow> strlen bs; Some (if dss_mem e (n + 1) then Some (take (n + 1) bs) else None) }"

definition byte_char :: "byte \<Rightarrow> char" where
  "byte_char b = char_of (unat b)"

section \<open>The table\<close>

record workflow_step =
  attributes :: "(cstr \<times> cstr) list"
  analytic :: cstr
  step_id :: int
  step_mod :: "nat option"

record workflow =
  wf_name :: cstr
  workflow_id :: int
  steps :: "workflow_step list"
  wf_base :: "nat option"
  ev_active :: bool

text \<open>
  The state of the framework, the next identifier (a static variable of \<^verbatim>\<open>analytics_base_stubs.c\<close>),
  the progress threads, and the modules that are in use.
\<close>

record analytics_base =
  workflows :: "workflow list"
  store_raw_data :: bool
  store_event_data :: bool
  recv_issued :: bool
  next_id :: int
  tracking :: trackers
  live_mods :: "nat list"
  next_mod :: nat

record analytics_component =
  component_name :: string
  available :: bool
  handle_created :: bool

record 'x analytics_env =
  dss :: "'x dss_env"
  threads :: thread_env
  components :: "analytics_component list"
  new_workflow :: bool
  new_step :: bool
  new_value :: bool
  new_buffer :: bool

definition ANALYTICS_COUNT_DEFAULT :: int where
  "ANALYTICS_COUNT_DEFAULT = 1"

definition WORKFLOW_WILD_CHARACTER :: cstr where
  "WORKFLOW_WILD_CHARACTER = lit ''*''"

text \<open>What an unpack call has stored at its destination: nothing, when the message has no element.\<close>

fun stored_int :: "'x vals \<Rightarrow> int option" where
  "stored_int (U32 (x # _)) = Some (sint x)"
| "stored_int _ = None"

fun stored_byte :: "'x vals \<Rightarrow> byte option" where
  "stored_byte (U8 (x # _)) = Some x"
| "stored_byte _ = None"

fun stored_string :: "cstr \<Rightarrow> 'x vals \<Rightarrow> cstr" where
  "stored_string old (Strs (s # _)) = s"
| "stored_string old _ = old"

section \<open>Selecting the module of a step\<close>

definition MCA_BASE_MAX_COMPONENT_NAME_LEN :: nat where
  "MCA_BASE_MAX_COMPONENT_NAME_LEN = 63"

definition orcm_analytics_base_select_create_handle ::
  "analytics_component \<Rightarrow> workflow_step \<Rightarrow> analytics_base \<Rightarrow> status \<times> workflow_step \<times> analytics_base" where
  "orcm_analytics_base_select_create_handle c st s =
     (if \<not> available c then (ERR_NOT_AVAILABLE, st, s)
      else if \<not> handle_created c then (ERR_OUT_OF_RESOURCE, st\<lparr>step_mod := None\<rparr>, s)
      else (SUCCESS, st\<lparr>step_mod := Some (next_mod s)\<rparr>,
            s\<lparr>live_mods := next_mod s # live_mods s, next_mod := next_mod s + 1\<rparr>))"

fun orcm_analytics_base_select_workflow_step ::
  "analytics_component list \<Rightarrow> workflow_step \<Rightarrow> analytics_base \<Rightarrow> (status \<times> workflow_step \<times> analytics_base) option" where
  "orcm_analytics_base_select_workflow_step [] st s = Some (SUCCESS, st, s)"
| "orcm_analytics_base_select_workflow_step (c # cs) st s =
     do { name \<leftarrow> analytic st;
          same \<leftarrow> strn_eq (MCA_BASE_MAX_COMPONENT_NAME_LEN + 1) (cstr_bytes (component_name c)) name;
          if same
          then let (rc, st, s) = orcm_analytics_base_select_create_handle c st s
               in if rc \<noteq> SUCCESS then Some (rc, st, s) else orcm_analytics_base_select_workflow_step cs st s
          else orcm_analytics_base_select_workflow_step cs st s }"

section \<open>Stopping a workflow\<close>

definition wf_thread :: "int \<Rightarrow> string" where
  "wf_thread i = ''wfid'' @ decimal_int i"

text \<open>A module that is finalized must be in use.\<close>

definition orcm_analytics_stop_wokflow_step :: "workflow_step \<Rightarrow> analytics_base \<Rightarrow> analytics_base option" where
  "orcm_analytics_stop_wokflow_step st s =
     (case step_mod st of
        None \<Rightarrow> Some s
      | Some h \<Rightarrow> if h \<in> set (live_mods s) then Some (s\<lparr>live_mods := remove1 h (live_mods s)\<rparr>) else None)"

definition orcm_analytics_stop_wokflow_thread :: "workflow \<Rightarrow> analytics_base \<Rightarrow> workflow \<times> analytics_base" where
  "orcm_analytics_stop_wokflow_thread w s =
     (if ev_active w
      then (w\<lparr>ev_active := False\<rparr>,
            s\<lparr>tracking := snd (opal_progress_thread_finalize (Some (wf_thread (workflow_id w))) (tracking s))\<rparr>)
      else (w, s))"

fun stop_steps :: "workflow_step list \<Rightarrow> analytics_base \<Rightarrow> analytics_base option" where
  "stop_steps [] s = Some s"
| "stop_steps (st # sts) s = do { s \<leftarrow> orcm_analytics_stop_wokflow_step st s; stop_steps sts s }"

definition orcm_analytics_stop_wokflow :: "workflow \<Rightarrow> analytics_base \<Rightarrow> (workflow \<times> analytics_base) option" where
  "orcm_analytics_stop_wokflow w s =
     do { s \<leftarrow> stop_steps (steps w) s; Some (orcm_analytics_stop_wokflow_thread w s) }"

text \<open>The destructor stops the thread, when there is one, but does not finalize the modules of the steps.\<close>

definition wk_des :: "workflow \<Rightarrow> analytics_base \<Rightarrow> analytics_base" where
  "wk_des w s = (if wf_base w = None then s else snd (orcm_analytics_stop_wokflow_thread w s))"

section \<open>Adding a workflow\<close>

definition orcm_analytics_base_append_attributes ::
  "'x analytics_env \<Rightarrow> (cstr \<times> cstr) list \<Rightarrow> cstr \<Rightarrow> cstr \<Rightarrow> status \<times> (cstr \<times> cstr) list" where
  "orcm_analytics_base_append_attributes e attr_list key val =
     (if \<not> new_value e then (ERR_OUT_OF_RESOURCE, attr_list) else (SUCCESS, attr_list @ [(key, val)]))"

text \<open>
  The loop over the attributes, with what \<^verbatim>\<open>attribute_key\<close>, \<^verbatim>\<open>attribute_value\<close> and
  \<^verbatim>\<open>cnt\<close> hold from the turn before.
\<close>

fun parse_attributes ::
  "'x analytics_env \<Rightarrow> nat \<Rightarrow> cstr \<Rightarrow> cstr \<Rightarrow> int \<Rightarrow> (cstr \<times> cstr) list \<Rightarrow> opal_buffer
     \<Rightarrow> (status \<times> (cstr \<times> cstr) list \<times> opal_buffer) option" where
  "parse_attributes e 0 key val cnt attrs b = Some (SUCCESS, attrs, b)"
| "parse_attributes e (Suc n) key val cnt attrs b =
     do { (rc, cv, b) \<leftarrow> opal_dss_unpack (dss e) OPAL_STRING cnt b;
          if rc \<noteq> SUCCESS then Some (ERROR, attrs, b)
          else
            do { let key = stored_string key (snd cv);
                 (rc, cv, b) \<leftarrow> opal_dss_unpack (dss e) OPAL_STRING (fst cv) b;
                 if rc \<noteq> SUCCESS then Some (ERROR, attrs, b)
                 else
                   let val = stored_string val (snd cv);
                       (rc, attrs) = orcm_analytics_base_append_attributes e attrs key val
                   in if rc \<noteq> SUCCESS then Some (rc, attrs, b)
                      else parse_attributes e n key val (fst cv) attrs b } }"

definition orcm_analytics_base_parse_attributes ::
  "'x analytics_env \<Rightarrow> int \<Rightarrow> (cstr \<times> cstr) list \<Rightarrow> opal_buffer
     \<Rightarrow> (status \<times> (cstr \<times> cstr) list \<times> opal_buffer) option" where
  "orcm_analytics_base_parse_attributes e num_attributes attr_list b =
     parse_attributes e (nat num_attributes) None None ANALYTICS_COUNT_DEFAULT attr_list b"

definition orcm_analytics_base_add_event_base ::
  "'x analytics_env \<Rightarrow> string \<Rightarrow> workflow \<Rightarrow> analytics_base \<Rightarrow> (status \<times> workflow \<times> analytics_base) option" where
  "orcm_analytics_base_add_event_base e name w s =
     do { (base, T) \<leftarrow> opal_progress_thread_init (threads e) (Some name) (tracking s);
          Some (case base of
                  None \<Rightarrow> (ERR_OUT_OF_RESOURCE, w\<lparr>wf_base := None, ev_active := False\<rparr>, s\<lparr>tracking := T\<rparr>)
                | Some _ \<Rightarrow> (SUCCESS, w\<lparr>wf_base := base, ev_active := True\<rparr>, s\<lparr>tracking := T\<rparr>)) }"

definition orcm_analytics_base_add_new_workflow_event_base ::
  "'x analytics_env \<Rightarrow> workflow \<Rightarrow> analytics_base \<Rightarrow> (status \<times> workflow \<times> analytics_base) option" where
  "orcm_analytics_base_add_new_workflow_event_base e w s =
     orcm_analytics_base_add_event_base e (wf_thread (workflow_id w)) w s"

text \<open>One step.  A step that fails is released, but not the module that was created for it.\<close>

definition orcm_analytics_base_workflow_step_add ::
  "'x analytics_env \<Rightarrow> int \<Rightarrow> workflow \<times> analytics_base \<Rightarrow> opal_buffer
     \<Rightarrow> (status \<times> (workflow \<times> analytics_base) \<times> opal_buffer) option" where
  "orcm_analytics_base_workflow_step_add e step ws b =
     (if \<not> new_step e then Some (ERR_OUT_OF_RESOURCE, ws, b)
      else
        do { (rc, cv, b) \<leftarrow> opal_dss_unpack (dss e) OPAL_INT ANALYTICS_COUNT_DEFAULT b;
             if rc \<noteq> SUCCESS then Some (rc, ws, b)
             else
               do { let num = stored_int (snd cv);
                    (rc, cv, b) \<leftarrow> opal_dss_unpack (dss e) OPAL_STRING (fst cv) b;
                    if rc \<noteq> SUCCESS then Some (rc, ws, b)
                    else
                      do { num_attributes \<leftarrow> num;
                           let name = stored_string None (snd cv);
                           (rc, attrs, b) \<leftarrow> orcm_analytics_base_parse_attributes e num_attributes [] b;
                           if rc \<noteq> SUCCESS then Some (rc, ws, b)
                           else
                             do { (rc, st, s) \<leftarrow> orcm_analytics_base_select_workflow_step (components e)
                                    \<lparr>attributes = attrs, analytic = name, step_id = step, step_mod = None\<rparr> (snd ws);
                                  if rc \<noteq> SUCCESS then Some (ERROR, (fst ws, s), b)
                                  else Some (SUCCESS, ((fst ws)\<lparr>steps := steps (fst ws) @ [st]\<rparr>, s), b) } } } })"

definition orcm_analytics_base_workflow_object_init ::
  "'x analytics_env \<Rightarrow> cstr \<Rightarrow> analytics_base \<Rightarrow> (workflow option \<times> analytics_base) option" where
  "orcm_analytics_base_workflow_object_init e name s =
     (if \<not> new_workflow e then Some (None, s)
      else do { i \<leftarrow> add_int (next_id s) 1;
                Some (Some \<lparr>wf_name = name, workflow_id = next_id s, steps = [], wf_base = None, ev_active = False\<rparr>,
                      s\<lparr>next_id := i\<rparr>) })"

fun add_steps ::
  "'x analytics_env \<Rightarrow> int \<Rightarrow> nat \<Rightarrow> workflow \<times> analytics_base \<Rightarrow> opal_buffer
     \<Rightarrow> (status \<times> (workflow \<times> analytics_base) \<times> opal_buffer) option" where
  "add_steps e step 0 ws b = Some (SUCCESS, ws, b)"
| "add_steps e step (Suc n) ws b =
     do { (rc, ws, b) \<leftarrow> orcm_analytics_base_workflow_step_add e step ws b;
          if rc \<noteq> SUCCESS then Some (rc, ws, b) else add_steps e (step + 1) n ws b }"

text \<open>The result carries \<^verbatim>\<open>*wfid\<close>, when it was written, and the state.\<close>

definition orcm_analytics_base_workflow_add ::
  "'x analytics_env \<Rightarrow> analytics_base \<Rightarrow> opal_buffer \<Rightarrow> (status \<times> (int option \<times> analytics_base) \<times> opal_buffer) option" where
  "orcm_analytics_base_workflow_add e s b =
     do { (rc, cv, b) \<leftarrow> opal_dss_unpack (dss e) OPAL_INT ANALYTICS_COUNT_DEFAULT b;
          if rc \<noteq> SUCCESS then Some (rc, (None, s), b)
          else
            do { let num = stored_int (snd cv);
                 (rc, cv, b) \<leftarrow> opal_dss_unpack (dss e) OPAL_STRING (fst cv) b;
                 if rc \<noteq> SUCCESS then Some (rc, (None, s), b)
                 else
                   do { (w, s) \<leftarrow> orcm_analytics_base_workflow_object_init e (stored_string None (snd cv)) s;
                        case w of
                          None \<Rightarrow> Some (ERROR, (None, s), b)
                        | Some w \<Rightarrow>
                            do { let wfid = Some (workflow_id w);
                                 (rc, w, s) \<leftarrow> orcm_analytics_base_add_new_workflow_event_base e w s;
                                 if rc \<noteq> SUCCESS then Some (rc, (wfid, wk_des w s), b)
                                 else
                                   do { num_steps \<leftarrow> num;
                                        (rc, ws, b) \<leftarrow> add_steps e 0 (nat num_steps) (w, s) b;
                                        if rc \<noteq> SUCCESS then Some (rc, (wfid, wk_des (fst ws) (snd ws)), b)
                                        else Some (SUCCESS,
                                               (wfid, (snd ws)\<lparr>workflows := workflows (snd ws) @ [fst ws]\<rparr>), b) } } } } }"

section \<open>Removing and listing workflows\<close>

text \<open>
  The number of the identifier: only its last character is looked at, and the one before the string when it
  is empty.
\<close>

definition workflow_num_id :: "cstr \<Rightarrow> int option" where
  "workflow_num_id i =
     do { wild \<leftarrow> strcmp_eq i WORKFLOW_WILD_CHARACTER;
          if wild then Some (-1)
          else do { bs \<leftarrow> i; n \<leftarrow> strlen bs;
                    if n = 0 then None
                    else if isdigit (byte_char (bs ! (n - 1)))
                    then Some (to_int (fst (strtol (map byte_char (take n bs)))))
                    else Some (-1) } }"

definition remove_selects :: "cstr \<Rightarrow> cstr \<Rightarrow> int \<Rightarrow> workflow \<Rightarrow> bool option" where
  "remove_selects name i num w =
     do { wild \<leftarrow> strcmp_eq name WORKFLOW_WILD_CHARACTER;
          if wild then Some True
          else do { same \<leftarrow> strcmp_eq name (wf_name w);
                    if \<not> same then Some False
                    else if num = workflow_id w then Some True
                    else strcmp_eq i WORKFLOW_WILD_CHARACTER } }"

text \<open>The loop over the list; the result says whether one was deleted, and has those that are kept.\<close>

fun remove_workflows ::
  "cstr \<Rightarrow> cstr \<Rightarrow> int \<Rightarrow> workflow list \<Rightarrow> analytics_base \<Rightarrow> (bool \<times> workflow list \<times> analytics_base) option" where
  "remove_workflows name i num [] s = Some (False, [], s)"
| "remove_workflows name i num (w # ws) s =
     do { hit \<leftarrow> remove_selects name i num w;
          if hit
          then do { (w, s) \<leftarrow> orcm_analytics_stop_wokflow w s;
                    (deleted, kept, s) \<leftarrow> remove_workflows name i num ws (wk_des w s);
                    Some (True, kept, s) }
          else do { (deleted, kept, s) \<leftarrow> remove_workflows name i num ws s;
                    Some (deleted, w # kept, s) } }"

definition orcm_analytics_base_workflow_remove ::
  "'x analytics_env \<Rightarrow> analytics_base \<Rightarrow> opal_buffer \<Rightarrow> (status \<times> analytics_base \<times> opal_buffer) option" where
  "orcm_analytics_base_workflow_remove e s b =
     do { (rc, cv, b) \<leftarrow> opal_dss_unpack (dss e) OPAL_STRING ANALYTICS_COUNT_DEFAULT b;
          if rc \<noteq> SUCCESS then Some (rc, s, b)
          else
            do { let name = stored_string None (snd cv);
                 (rc, cv, b) \<leftarrow> opal_dss_unpack (dss e) OPAL_STRING (fst cv) b;
                 if rc \<noteq> SUCCESS then Some (rc, s, b)
                 else
                   do { let i = stored_string None (snd cv);
                        num \<leftarrow> workflow_num_id i;
                        (deleted, kept, s) \<leftarrow> remove_workflows name i num (workflows s) s;
                        Some (if deleted then SUCCESS else ERROR, s\<lparr>workflows := kept\<rparr>, b) } } }"

definition orcm_analytics_base_recv_pack_int ::
  "'x analytics_env \<Rightarrow> int \<Rightarrow> opal_buffer \<Rightarrow> (status \<times> opal_buffer) option" where
  "orcm_analytics_base_recv_pack_int e val b =
     do { (rc, b) \<leftarrow> opal_dss_pack (dss e) OPAL_INT (U32 [word_of_int val]) b;
          Some (if rc \<noteq> SUCCESS then ERROR else SUCCESS, b) }"

fun orcm_analytics_base_workflow_list_append_info ::
  "'x analytics_env \<Rightarrow> workflow list \<Rightarrow> opal_buffer \<Rightarrow> (status \<times> opal_buffer) option" where
  "orcm_analytics_base_workflow_list_append_info e [] b = Some (SUCCESS, b)"
| "orcm_analytics_base_workflow_list_append_info e (w # ws) b =
     on_success (orcm_analytics_base_recv_pack_int e (workflow_id w) b)
       (\<lambda>b. do { name \<leftarrow> strdup (dss e) (wf_name w);
                  if name = None then Some (ERR_OUT_OF_RESOURCE, b)
                  else on_success (opal_dss_pack (dss e) OPAL_STRING (Strs [name]) b)
                         (orcm_analytics_base_workflow_list_append_info e ws) })"

definition orcm_analytics_base_workflow_list ::
  "'x analytics_env \<Rightarrow> analytics_base \<Rightarrow> opal_buffer \<Rightarrow> (status \<times> opal_buffer) option" where
  "orcm_analytics_base_workflow_list e s b =
     on_success (orcm_analytics_base_recv_pack_int e (int (length (workflows s))) b)
       (\<lambda>b. if 0 < length (workflows s) then orcm_analytics_base_workflow_list_append_info e (workflows s) b
             else Some (SUCCESS, b))"

section \<open>Receiving commands\<close>

definition orcm_analytics_base_control_storage :: "byte \<Rightarrow> analytics_base \<Rightarrow> status \<times> analytics_base" where
  "orcm_analytics_base_control_storage storage_command s =
     (if storage_command = 0 then (SUCCESS, s\<lparr>store_raw_data := False, store_event_data := False\<rparr>)
      else if storage_command = 1 then (SUCCESS, s\<lparr>store_raw_data := True\<rparr>)
      else if storage_command = 2 then (SUCCESS, s\<lparr>store_event_data := True\<rparr>)
      else if storage_command = 3 then (SUCCESS, s\<lparr>store_raw_data := True, store_event_data := True\<rparr>)
      else (ERROR, s))"

definition ORCM_ANALYTICS_WORKFLOW_ADD :: byte where "ORCM_ANALYTICS_WORKFLOW_ADD = 1"
definition ORCM_ANALYTICS_WORKFLOW_REMOVE :: byte where "ORCM_ANALYTICS_WORKFLOW_REMOVE = 2"
definition ORCM_ANALYTICS_WORKFLOW_LIST :: byte where "ORCM_ANALYTICS_WORKFLOW_LIST = 3"
definition ORCM_ANALYTICS_SENSOR_STORAGE_POLICY :: byte where "ORCM_ANALYTICS_SENSOR_STORAGE_POLICY = 4"

text \<open>A failed unpack gives \<^verbatim>\<open>ORCM_ERROR\<close> as \<^verbatim>\<open>uint8_t\<close>.\<close>

definition orcm_analytics_base_recv_unpack_uint8_t ::
  "'x analytics_env \<Rightarrow> opal_buffer \<Rightarrow> (byte \<times> opal_buffer) option" where
  "orcm_analytics_base_recv_unpack_uint8_t e b =
     do { (rc, cv, b) \<leftarrow> opal_dss_unpack (dss e) OPAL_UINT8 ANALYTICS_COUNT_DEFAULT b;
          if rc \<noteq> SUCCESS then Some (word_of_int (status_code ERROR), b)
          else do { c \<leftarrow> stored_byte (snd cv); Some (c, b) } }"

text \<open>The answer ends with the status; it is sent even when that could not be packed.\<close>

definition orcm_analytics_base_recv_send_answer ::
  "'x analytics_env \<Rightarrow> status \<Rightarrow> opal_buffer \<Rightarrow> opal_buffer option" where
  "orcm_analytics_base_recv_send_answer e rc ans =
     do { (ret, ans) \<leftarrow> orcm_analytics_base_recv_pack_int e (status_code rc) ans; Some ans }"

text \<open>The whole handler: the new state, and the answer unless there is no memory for one.\<close>

definition orcm_analytics_base_recv ::
  "'x analytics_env \<Rightarrow> analytics_base \<Rightarrow> opal_buffer \<Rightarrow> (analytics_base \<times> opal_buffer option) option" where
  "orcm_analytics_base_recv e s b =
     (if \<not> new_buffer e then Some (s, None)
      else
        do { let ans = opal_buffer_construct (default_buf_type (dss e));
             (command, b) \<leftarrow> orcm_analytics_base_recv_unpack_uint8_t e b;
             (ret, s, ans) \<leftarrow>
               (if command = ORCM_ANALYTICS_WORKFLOW_ADD
                then do { (ret, (i, s), b) \<leftarrow> orcm_analytics_base_workflow_add e s b;
                          if ret = SUCCESS
                          then do { i \<leftarrow> i;
                                    (ret, ans) \<leftarrow> orcm_analytics_base_recv_pack_int e i ans;
                                    Some (ret, s, ans) }
                          else Some (ret, s, ans) }
                else if command = ORCM_ANALYTICS_WORKFLOW_REMOVE
                then do { (ret, s, b) \<leftarrow> orcm_analytics_base_workflow_remove e s b; Some (ret, s, ans) }
                else if command = ORCM_ANALYTICS_WORKFLOW_LIST
                then do { (ret, ans) \<leftarrow> orcm_analytics_base_workflow_list e s ans; Some (ret, s, ans) }
                else if command = ORCM_ANALYTICS_SENSOR_STORAGE_POLICY
                then do { (storage_command, b) \<leftarrow> orcm_analytics_base_recv_unpack_uint8_t e b;
                          let (ret, s) = orcm_analytics_base_control_storage storage_command s in
                          Some (ret, s, ans) }
                else Some (ERR_BAD_PARAM, s, ans));
             ans \<leftarrow> orcm_analytics_base_recv_send_answer e ret ans;
             Some (s, Some ans) })"

section \<open>Describing a workflow\<close>

text \<open>
  The lists the parser returns for a file: an item is a string with a key, a list with a key, possibly NULL,
  or something else.
\<close>

datatype value_item = String_item string string | Ptr_item string "value_item list option" | Other_item string

definition pack_string :: "'x dss_env \<Rightarrow> string \<Rightarrow> opal_buffer \<Rightarrow> (status \<times> opal_buffer) option" where
  "pack_string e str b = opal_dss_pack e OPAL_STRING (Strs [lit str]) b"

definition orcm_util_workflow_add_check_filter_step :: "string \<Rightarrow> string \<Rightarrow> bool \<Rightarrow> status \<times> bool" where
  "orcm_util_workflow_add_check_filter_step key val is_filter_first_step =
     (if \<not> is_filter_first_step \<and> key = ''step''
      then if val = ''filter'' then (SUCCESS, True) else (ERR_BAD_PARAM, is_filter_first_step)
      else (SUCCESS, is_filter_first_step))"

definition orcm_util_workflow_add_check_name_key ::
  "'x dss_env \<Rightarrow> string \<Rightarrow> string \<Rightarrow> bool \<Rightarrow> opal_buffer \<Rightarrow> (status \<times> bool \<times> opal_buffer) option" where
  "orcm_util_workflow_add_check_name_key e list_head_key key is_name_first_key b =
     (if \<not> is_name_first_key \<and> key \<noteq> ''name'' then Some (ERR_BAD_PARAM, is_name_first_key, b)
      else if key \<noteq> ''name''
      then if list_head_key = ''workflow'' then Some (ERR_BAD_PARAM, True, b)
           else do { (rc, b) \<leftarrow> pack_string e key b; Some (rc, True, b) }
      else Some (SUCCESS, True, b))"

definition orcm_util_workflow_add_extract_string_type ::
  "'x dss_env \<Rightarrow> string \<Rightarrow> string \<Rightarrow> string \<Rightarrow> bool \<times> bool \<Rightarrow> opal_buffer
     \<Rightarrow> (status \<times> (bool \<times> bool) \<times> opal_buffer) option" where
  "orcm_util_workflow_add_extract_string_type e key val list_head_key flags b =
     do { (rc, name_first, b) \<leftarrow> orcm_util_workflow_add_check_name_key e list_head_key key (fst flags) b;
          if rc \<noteq> SUCCESS then Some (rc, (name_first, snd flags), b)
          else
            let (rc, filter_first) = orcm_util_workflow_add_check_filter_step list_head_key val (snd flags)
            in if rc \<noteq> SUCCESS then Some (rc, (name_first, filter_first), b)
               else do { (rc, b) \<leftarrow> pack_string e val b; Some (rc, (name_first, filter_first), b) } }"

text \<open>The recursion over nested lists, and its loop, whose \<open>rc\<close> is the result for an empty list.\<close>

function orcm_util_workflow_add_extract_workflow_info ::
    "'x dss_env \<Rightarrow> value_item list option \<Rightarrow> string \<Rightarrow> bool \<Rightarrow> opal_buffer \<Rightarrow> (status \<times> bool \<times> opal_buffer) option"
  and extract_items ::
    "'x dss_env \<Rightarrow> value_item list \<Rightarrow> string \<Rightarrow> bool \<times> bool \<Rightarrow> status \<Rightarrow> opal_buffer \<Rightarrow> (status \<times> bool \<times> opal_buffer) option"
  where
  "orcm_util_workflow_add_extract_workflow_info e None list_head_key filter_first b =
     Some (ERR_BAD_PARAM, filter_first, b)"
| "orcm_util_workflow_add_extract_workflow_info e (Some items) list_head_key filter_first b =
     do { (rc, b) \<leftarrow> opal_dss_pack e OPAL_INT (U32 [word_of_int (int (length items) - 1)]) b;
          if rc \<noteq> SUCCESS then Some (rc, filter_first, b)
          else extract_items e items list_head_key (False, filter_first) ERR_BAD_PARAM b }"
| "extract_items e [] list_head_key flags rc b = Some (rc, snd flags, b)"
| "extract_items e (String_item key val # items) list_head_key flags rc b =
     do { (rc, flags, b) \<leftarrow> orcm_util_workflow_add_extract_string_type e key val list_head_key flags b;
          if rc \<noteq> SUCCESS then Some (rc, snd flags, b) else extract_items e items list_head_key flags rc b }"
| "extract_items e (Ptr_item key ptr # items) list_head_key flags rc b =
     (if \<not> fst flags then Some (ERR_BAD_PARAM, snd flags, b)
      else if key = ''step''
      then do { (rc, filter_first, b) \<leftarrow> orcm_util_workflow_add_extract_workflow_info e ptr key (snd flags) b;
                if rc \<noteq> SUCCESS then Some (rc, filter_first, b)
                else extract_items e items list_head_key (fst flags, filter_first) rc b }
      else Some (ERR_BAD_PARAM, snd flags, b))"
| "extract_items e (Other_item key # items) list_head_key flags rc b = Some (ERR_BAD_PARAM, snd flags, b)"
  by pat_completeness auto
termination
  by (relation "measure (\<lambda>x. case x of
        Inl (e, items, k, f, b) \<Rightarrow> 2 * size_option (size_list size) items
      | Inr (e, items, k, f, rc, b) \<Rightarrow> 2 * size_list size items + 1)") auto

section \<open>Opening and closing the framework\<close>

text \<open>The static function of \<^verbatim>\<open>analytics_base_frame.c\<close>; the one of the tool is below.\<close>

definition workflow_add_process_single_workflow ::
  "'x analytics_env \<Rightarrow> value_item list option \<Rightarrow> string \<Rightarrow> analytics_base \<Rightarrow> (status \<times> analytics_base) option" where
  "workflow_add_process_single_workflow e result_list list_head_key s =
     (if \<not> new_buffer e then Some (ERR_OUT_OF_RESOURCE, s)
      else
        do { (rc, filter_first, b) \<leftarrow> orcm_util_workflow_add_extract_workflow_info (dss e) result_list list_head_key False
               (opal_buffer_construct (default_buf_type (dss e)));
             if rc \<noteq> SUCCESS \<or> \<not> filter_first then Some (rc, s)
             else do { (rc, (i, s), b) \<leftarrow> orcm_analytics_base_workflow_add e s b; Some (rc, s) } })"

fun process_workflows ::
  "'x analytics_env \<Rightarrow> value_item list \<Rightarrow> status \<Rightarrow> analytics_base \<Rightarrow> (status \<times> analytics_base) option" where
  "process_workflows e [] rc s = Some (rc, s)"
| "process_workflows e (String_item key val # items) rc s = process_workflows e items rc s"
| "process_workflows e (Ptr_item key ptr # items) rc s =
     (if key = ''workflow''
      then do { (rc, s) \<leftarrow> workflow_add_process_single_workflow e ptr key s; process_workflows e items rc s }
      else process_workflows e items rc s)"
| "process_workflows e (Other_item key # items) rc s = Some (ERROR, s)"

definition workflow_add_process_workflows ::
  "'x analytics_env \<Rightarrow> value_item list option \<Rightarrow> analytics_base \<Rightarrow> (status \<times> analytics_base) option" where
  "workflow_add_process_workflows e result_list s =
     (case result_list of None \<Rightarrow> Some (ERROR, s) | Some items \<Rightarrow> process_workflows e items SUCCESS s)"

text \<open>The sections named \<^verbatim>\<open>workflows\<close> of the file, given as the parser returns them.\<close>

fun load_workflows :: "'x analytics_env \<Rightarrow> value_item list \<Rightarrow> analytics_base \<Rightarrow> analytics_base option" where
  "load_workflows e [] s = Some s"
| "load_workflows e (Ptr_item key ptr # items) s =
     (if key = ''workflows''
      then do { (rc, s) \<leftarrow> workflow_add_process_workflows e ptr s; load_workflows e items s }
      else load_workflows e items s)"
| "load_workflows e (_ # items) s = load_workflows e items s"

definition orcm_analytics_base_load_default_workflows ::
  "'x analytics_env \<Rightarrow> value_item list option \<Rightarrow> analytics_base \<Rightarrow> analytics_base option" where
  "orcm_analytics_base_load_default_workflows e file s =
     (case file of None \<Rightarrow> Some s | Some items \<Rightarrow> load_workflows e items s)"

definition orcm_analytics_base_comm_start :: "analytics_base \<Rightarrow> status \<times> analytics_base" where
  "orcm_analytics_base_comm_start s =
     (if recv_issued s then (SUCCESS, s) else (SUCCESS, s\<lparr>recv_issued := True\<rparr>))"

definition orcm_analytics_base_comm_stop :: "analytics_base \<Rightarrow> status \<times> analytics_base" where
  "orcm_analytics_base_comm_stop s =
     (if \<not> recv_issued s then (SUCCESS, s) else (SUCCESS, s\<lparr>recv_issued := False\<rparr>))"

definition orcm_analytics_base_open ::
  "'x analytics_env \<Rightarrow> status \<Rightarrow> value_item list option \<Rightarrow> analytics_base \<Rightarrow> (status \<times> analytics_base) option" where
  "orcm_analytics_base_open e components_open file s =
     (let s = s\<lparr>workflows := []\<rparr>
      in if components_open \<noteq> SUCCESS then Some (components_open, s)
         else let (rc, s) = orcm_analytics_base_comm_start s
              in if rc \<noteq> SUCCESS then Some (rc, s)
                 else do { s \<leftarrow> orcm_analytics_base_load_default_workflows e file s; Some (rc, s) })"

text \<open>Closing stops the workflows one after the other and then releases them with the list.\<close>

fun stop_workflows :: "workflow list \<Rightarrow> analytics_base \<Rightarrow> (workflow list \<times> analytics_base) option" where
  "stop_workflows [] s = Some ([], s)"
| "stop_workflows (w # ws) s =
     do { (w, s) \<leftarrow> orcm_analytics_stop_wokflow w s;
          (ws, s) \<leftarrow> stop_workflows ws s;
          Some (w # ws, s) }"

definition orcm_analytics_base_close :: "status \<Rightarrow> analytics_base \<Rightarrow> (status \<times> analytics_base) option" where
  "orcm_analytics_base_close components_close s =
     do { (ws, s) \<leftarrow> stop_workflows (workflows s) s;
          let s = snd (orcm_analytics_base_comm_stop s);
          Some (components_close, (fold wk_des ws s)\<lparr>workflows := []\<rparr>) }"

section \<open>The control tool\<close>

text \<open>The message that adds a workflow; \<open>None\<close> in the second place when nothing is sent.\<close>

definition octl_workflow_add_process_single_workflow ::
  "'x analytics_env \<Rightarrow> value_item list option \<Rightarrow> string \<Rightarrow> (status \<times> opal_buffer option) option" where
  "octl_workflow_add_process_single_workflow e result_list list_head_key =
     (if \<not> new_buffer e then Some (ERR_OUT_OF_RESOURCE, None)
      else
        do { (rc, b) \<leftarrow> opal_dss_pack (dss e) OPAL_UINT8 (U8 [ORCM_ANALYTICS_WORKFLOW_ADD])
               (opal_buffer_construct (default_buf_type (dss e)));
             if rc \<noteq> SUCCESS then Some (rc, None)
             else
               do { (rc, filter_first, b) \<leftarrow>
                      orcm_util_workflow_add_extract_workflow_info (dss e) result_list list_head_key False b;
                    if rc \<noteq> SUCCESS \<or> \<not> filter_first then Some (rc, None)
                    else Some (SUCCESS, Some b) } })"

text \<open>Reading the answer: the value returned, and the identifier that is reported.\<close>

definition workflow_add_unpack_buffer ::
  "'x analytics_env \<Rightarrow> opal_buffer \<Rightarrow> (int \<times> int option) option" where
  "workflow_add_unpack_buffer e b =
     do { (rc, cv, b) \<leftarrow> opal_dss_unpack (dss e) OPAL_INT 1 b;
          if rc \<noteq> SUCCESS then Some (status_code rc, None)
          else do { i \<leftarrow> stored_int (snd cv);
                    if i < 0 then Some (i, None) else Some (status_code SUCCESS, Some i) } }"

definition workflow_remove_pack_buffer ::
  "'x analytics_env \<Rightarrow> string \<Rightarrow> string \<Rightarrow> opal_buffer \<Rightarrow> (status \<times> opal_buffer) option" where
  "workflow_remove_pack_buffer e name i b =
     on_success (opal_dss_pack (dss e) OPAL_UINT8 (U8 [ORCM_ANALYTICS_WORKFLOW_REMOVE]) b)
       (\<lambda>b. on_success (pack_string (dss e) name b) (pack_string (dss e) i))"

text \<open>The Boolean says that the tool reports a deletion.\<close>

definition workflow_remove_unpack_buffer :: "'x analytics_env \<Rightarrow> opal_buffer \<Rightarrow> (status \<times> bool) option" where
  "workflow_remove_unpack_buffer e b =
     do { (rc, cv, b) \<leftarrow> opal_dss_unpack (dss e) OPAL_INT 1 b;
          if rc \<noteq> SUCCESS then Some (rc, False)
          else do { result \<leftarrow> stored_int (snd cv); Some (SUCCESS, 0 \<le> result) } }"

definition workflow_list_pack_buffer :: "'x analytics_env \<Rightarrow> opal_buffer \<Rightarrow> (status \<times> opal_buffer) option" where
  "workflow_list_pack_buffer e b = opal_dss_pack (dss e) OPAL_UINT8 (U8 [ORCM_ANALYTICS_WORKFLOW_LIST]) b"

text \<open>The workflows that are reported, each with its name and identifier.\<close>

fun list_entries ::
  "'x analytics_env \<Rightarrow> nat \<Rightarrow> int option \<Rightarrow> int \<Rightarrow> (cstr \<times> int) list \<Rightarrow> opal_buffer
     \<Rightarrow> (status \<times> (cstr \<times> int) list \<times> opal_buffer) option" where
  "list_entries e 0 i n out b = Some (SUCCESS, out, b)"
| "list_entries e (Suc k) i n out b =
     do { (rc, cv, b) \<leftarrow> opal_dss_unpack (dss e) OPAL_INT n b;
          if rc \<noteq> SUCCESS then Some (rc, out, b)
          else
            do { let i = (case stored_int (snd cv) of None \<Rightarrow> i | Some i \<Rightarrow> Some i);
                 (rc, cv, b) \<leftarrow> opal_dss_unpack (dss e) OPAL_STRING (fst cv) b;
                 if rc \<noteq> SUCCESS then Some (rc, out, b)
                 else do { j \<leftarrow> i;
                           list_entries e k i (fst cv) (out @ [(stored_string None (snd cv), j)]) b } } }"

definition workflow_list_unpack_buffer ::
  "'x analytics_env \<Rightarrow> opal_buffer \<Rightarrow> (status \<times> (cstr \<times> int) list \<times> opal_buffer) option" where
  "workflow_list_unpack_buffer e b =
     do { (rc, cv, b) \<leftarrow> opal_dss_unpack (dss e) OPAL_INT 1 b;
          if rc \<noteq> SUCCESS then Some (rc, [], b)
          else do { workflow_count \<leftarrow> stored_int (snd cv);
                    list_entries e (nat workflow_count) None (fst cv) [] b } }"

section \<open>Times and names of computations\<close>

text \<open>
  \<^verbatim>\<open>(double)tv_usec / 10E6\<close> compared with one half: the quotient is rounded to the nearest double,
  so that it is at least 0.5 exactly when the dividend is at least five million.
\<close>

definition orcm_analytics_base_timeval_to_uint64 :: "int \<Rightarrow> int \<Rightarrow> 64 word" where
  "orcm_analytics_base_timeval_to_uint64 tv_sec tv_usec =
     (if 10 ^ 7 \<le> 2 * tv_usec then word_of_int tv_sec + 1 else word_of_int tv_sec)"

definition orcm_analytics_base_get_compute_type :: "string option \<Rightarrow> int" where
  "orcm_analytics_base_get_compute_type compute_type =
     (case compute_type of
        None \<Rightarrow> -1
      | Some t \<Rightarrow>
          if strncmp_eq t ''average'' (length ''average'' + 1) then 0
          else if strncmp_eq t ''min'' (length ''min'' + 1) then 1
          else if strncmp_eq t ''max'' (length ''max'' + 1) then 2
          else if strncmp_eq t ''sd'' (length ''sd'' + 1) then 3
          else -1)"

definition orcm_analytics_base_set_compute_type :: "int \<Rightarrow> string" where
  "orcm_analytics_base_set_compute_type compute_type_id =
     (if compute_type_id = 0 then ''average''
      else if compute_type_id = 1 then ''min''
      else if compute_type_id = 2 then ''max''
      else if compute_type_id = 3 then ''sd''
      else ''unknow'')"

end
