(* ===== verification/Opal_Dss_Laws.thy ===== *)
theory Opal_Dss_Laws
  imports Opal_Dss
begin

text \<open>
  Laws of the data packing layer: what a buffer holds, that packing appends to it and never fails while
  memory lasts, that unpacking gives back what was packed, and that unpacking never leaves the packed part
  of a buffer, whatever its bytes are.
\<close>

section \<open>Byte order\<close>

lemma length_be [simp]: "length (be k n) = k"
  by (induction k arbitrary: n) auto

lemma from_be_snoc: "from_be (bs @ [b]) = from_be bs * 256 + unat b"
  by (simp add: from_be_def)

lemma from_be_be: "from_be (be k n) = n mod 256 ^ k"
proof (induction k arbitrary: n)
  case (Suc k)
  have "unat (of_nat n :: byte) = n mod 256" by (simp add: unat_of_nat)
  with Suc [of "n div 256"] show ?case
    by (simp add: from_be_snoc mod_mult2_eq)
qed (simp add: from_be_def)

abbreviation enc_words :: "nat \<Rightarrow> 'w::len word list \<Rightarrow> byte list" where
  "enc_words k ws \<equiv> concat (map (\<lambda>w. be k (unat w)) ws)"

lemma length_enc_words: "length (enc_words k ws) = k * length ws"
  by (induction ws) auto

lemma chunk_concat:
  assumes "i < length ws" "\<And>w. length (f w) = k"
  shows "take k (drop (k * i) (concat (map f ws))) = f (ws ! i)"
  using assms(1)
proof (induction ws arbitrary: i)
  case (Cons w ws)
  then show ?case by (cases i) (simp_all add: assms(2))
qed simp

lemma words_at_enc:
  fixes ws :: "'w::len word list"
  assumes "LENGTH('w) = 8 * k"
  shows "words_at k (length ws) (enc_words k ws) = ws"
proof (rule nth_equalityI)
  show "length (words_at k (length ws) (enc_words k ws)) = length ws" by (simp add: words_at_def)
  fix i assume "i < length (words_at k (length ws) (enc_words k ws))"
  then have i: "i < length ws" by (simp add: words_at_def)
  have "unat (ws ! i) < 256 ^ k"
    using unsigned_less [of "ws ! i"] by (simp add: assms power_mult)
  with i show "words_at k (length ws) (enc_words k ws) ! i = ws ! i"
    by (simp add: words_at_def chunk_concat from_be_be)
qed

section \<open>What a buffer holds\<close>

definition buf_holds :: "opal_buffer \<Rightarrow> byte list \<Rightarrow> nat \<Rightarrow> bool" where
  "buf_holds b D u \<longleftrightarrow> (base_null b \<longleftrightarrow> ptr_null b) \<and> (base_null b \<longrightarrow> D = [] \<and> bytes_allocated b = 0) \<and>
     length (buf_block b) = bytes_allocated b \<and> bytes_used b = length D \<and> pack_ptr b = length D \<and>
     unpack_ptr b = u \<and> u \<le> length D \<and> length D \<le> bytes_allocated b \<and>
     take (length D) (buf_block b) = map Some D"

definition env_ok :: "'x dss_env \<Rightarrow> bool" where
  "env_ok e \<longleftrightarrow> dss_mem e = always \<and> 0 < initial_size e \<and> 0 < threshold_size e"

lemma double_until_bound: "0 < a \<Longrightarrow> \<exists>n. double_until r a = Some n \<and> r \<le> n \<and> n < max (a + 1) (2 * r)"
proof (induction r a rule: double_until.induct)
  case (1 r a)
  show ?case
  proof (cases "r \<le> a")
    case True
    then show ?thesis by (subst double_until.simps) simp
  next
    case False
    with 1 obtain n where "double_until r (2 * a) = Some n" "r \<le> n" "n < max (2 * a + 1) (2 * r)" by auto
    with False 1(2) show ?thesis by (subst double_until.simps) auto
  qed
qed

lemma round_up_threshold:
  fixes r t :: nat
  assumes "0 < t"
  shows "r \<le> (r + t - 1) div t * t" "(r + t - 1) div t * t < r + t"
proof -
  have "r + t - 1 = (r + t - 1) div t * t + (r + t - 1) mod t" by simp
  moreover have "(r + t - 1) mod t < t" using assms by simp
  ultimately show "r \<le> (r + t - 1) div t * t" "(r + t - 1) div t * t < r + t" using assms by linarith+
qed

lemma extended_size_bound:
  assumes "env_ok e"
  shows "\<exists>n. extended_size e r a = Some n \<and> r \<le> n \<and>
    n < max (max (initial_size e) a + 1) (max (2 * r) (r + threshold_size e))"
proof (cases "threshold_size e \<le> r")
  case True
  with assms show ?thesis
    using round_up_threshold [of "threshold_size e" r] by (auto simp: extended_size_def env_ok_def)
next
  case False
  have "0 < (if a = 0 then initial_size e else a)" using assms by (simp add: env_ok_def)
  from double_until_bound [OF this, of r]
  obtain n where "double_until r (if a = 0 then initial_size e else a) = Some n" "r \<le> n"
      "n < max ((if a = 0 then initial_size e else a) + 1) (2 * r)" by blast
  with False show ?thesis by (auto simp: extended_size_def split: if_splits)
qed

lemma extend_holds:
  assumes e: "env_ok e" and b: "buf_holds b D u" and n: "0 < n \<or> \<not> ptr_null b"
  shows "\<exists>b'. opal_dss_buffer_extend e n b = Some (True, b') \<and> buf_holds b' D u \<and>
    length D + n \<le> bytes_allocated b' \<and> \<not> ptr_null b' \<and> buf_type b' = buf_type b"
proof (cases "n \<le> bytes_allocated b - bytes_used b")
  case True
  with b n show ?thesis
    by (auto simp: opal_dss_buffer_extend_def buf_holds_def)
next
  case False
  obtain a where a: "extended_size e (bytes_used b + n) (bytes_allocated b) = Some a" "bytes_used b + n \<le> a"
    using extended_size_bound [OF e] by blast
  show ?thesis
  proof (cases "base_null b")
    case True
    then have "D = []" "u = 0" "bytes_used b = 0" using b by (auto simp: buf_holds_def)
    with True False a e show ?thesis
      by (simp add: opal_dss_buffer_extend_def env_ok_def buf_holds_def always_def)
  next
    case base: False
    have "take (length D) (take a (buf_block b) @ replicate (a - length (buf_block b)) None) = map Some D"
      using b a(2) by (auto simp: buf_holds_def min_def)
    with base False a e b show ?thesis
      by (auto simp: opal_dss_buffer_extend_def env_ok_def buf_holds_def always_def)
  qed
qed

lemma pack_bytes_holds:
  assumes e: "env_ok e" and b: "buf_holds b D u" and n: "bs \<noteq> [] \<or> \<not> ptr_null b"
  shows "\<exists>b'. pack_bytes e bs b = Some (SUCCESS, b') \<and> buf_holds b' (D @ bs) u \<and> \<not> ptr_null b' \<and>
    buf_type b' = buf_type b"
proof -
  obtain b' where b': "opal_dss_buffer_extend e (length bs) b = Some (True, b')" "buf_holds b' D u"
      "length D + length bs \<le> bytes_allocated b'" "\<not> ptr_null b'" "buf_type b' = buf_type b"
    using extend_holds [OF e b, of "length bs"] n by auto
  then have "put_bytes bs b' = Some (b'\<lparr>buf_block := map Some D @ map Some bs @ drop (length D + length bs) (buf_block b'),
      pack_ptr := length D + length bs, bytes_used := length D + length bs\<rparr>)"
    by (simp add: put_bytes_def buf_holds_def)
  with b' show ?thesis
    by (auto simp: pack_bytes_def buf_holds_def)
qed

section \<open>Appending\<close>

text \<open>\<open>appends f bs ty\<close>: on every buffer of type \<open>ty\<close> that has memory, \<open>f\<close> succeeds and appends \<open>bs\<close>.\<close>

definition appends :: "(opal_buffer \<Rightarrow> (status \<times> opal_buffer) option) \<Rightarrow> byte list \<Rightarrow> buffer_type \<Rightarrow> bool" where
  "appends f bs ty \<longleftrightarrow>
     (\<forall>b D u. buf_holds b D u \<longrightarrow> \<not> ptr_null b \<longrightarrow> buf_type b = ty \<longrightarrow>
        (\<exists>b'. f b = Some (SUCCESS, b') \<and> buf_holds b' (D @ bs) u \<and> \<not> ptr_null b' \<and> buf_type b' = ty))"

lemma appendsD:
  assumes "appends f bs ty" "buf_holds b D u" "\<not> ptr_null b" "buf_type b = ty"
  obtains b' where "f b = Some (SUCCESS, b')" "buf_holds b' (D @ bs) u" "\<not> ptr_null b'" "buf_type b' = ty"
  using assms unfolding appends_def by blast

lemma appends_bytes: "env_ok e \<Longrightarrow> appends (pack_bytes e bs) bs ty"
  unfolding appends_def using pack_bytes_holds by blast

lemma appends_none: "appends (\<lambda>b. Some (SUCCESS, b)) [] ty"
  by (simp add: appends_def)

lemma appends_seq:
  assumes "appends f xs ty" "appends g ys ty"
  shows "appends (\<lambda>b. on_success (f b) g) (xs @ ys) ty"
  unfolding appends_def
proof (intro allI impI)
  fix b D u assume b: "buf_holds b D u" "\<not> ptr_null b" "buf_type b = ty"
  obtain b1 where 1: "f b = Some (SUCCESS, b1)" "buf_holds b1 (D @ xs) u" "\<not> ptr_null b1" "buf_type b1 = ty"
    by (rule appendsD [OF assms(1) b])
  obtain b2 where "g b1 = Some (SUCCESS, b2)" "buf_holds b2 ((D @ xs) @ ys) u" "\<not> ptr_null b2" "buf_type b2 = ty"
    by (rule appendsD [OF assms(2) 1(2-4)])
  with 1(1) show "\<exists>b'. on_success (f b) g = Some (SUCCESS, b') \<and> buf_holds b' (D @ xs @ ys) u \<and>
      \<not> ptr_null b' \<and> buf_type b' = ty"
    by (simp add: on_success_def)
qed

lemma appends_cong: "(\<And>b. buf_type b = ty \<Longrightarrow> f b = g b) \<Longrightarrow> appends g bs ty \<Longrightarrow> appends f bs ty"
  by (simp add: appends_def)

lemma appends_eq: "appends f bs ty \<Longrightarrow> bs = bs' \<Longrightarrow> appends f bs' ty"
  by simp

section \<open>Fetching\<close>

text \<open>
  \<open>fetches f bs x ty\<close>: on every buffer of type \<open>ty\<close> whose unread bytes begin with \<open>bs\<close>, \<open>f\<close> succeeds, returns
  \<open>x\<close> and advances over \<open>bs\<close>.
\<close>

definition fetches ::
  "(opal_buffer \<Rightarrow> (status \<times> 'a \<times> opal_buffer) option) \<Rightarrow> byte list \<Rightarrow> 'a \<Rightarrow> buffer_type \<Rightarrow> bool" where
  "fetches f bs x ty \<longleftrightarrow>
     (\<forall>b D u rest. buf_holds b D u \<longrightarrow> buf_type b = ty \<longrightarrow> drop u D = bs @ rest \<longrightarrow>
        f b = Some (SUCCESS, x, b\<lparr>unpack_ptr := u + length bs\<rparr>))"

lemma advance_holds:
  assumes "buf_holds b D u" "drop u D = bs @ rest"
  shows "buf_holds (b\<lparr>unpack_ptr := u + length bs\<rparr>) D (u + length bs)" "drop (u + length bs) D = rest"
proof -
  have "length (drop u D) = length bs + length rest" using assms(2) by simp
  then show "buf_holds (b\<lparr>unpack_ptr := u + length bs\<rparr>) D (u + length bs)"
    using assms(1) by (auto simp: buf_holds_def)
  have "drop (u + length bs) D = drop (length bs) (drop u D)" by (simp add: add.commute)
  then show "drop (u + length bs) D = rest" using assms(2) by simp
qed

lemma fetchesD:
  assumes "fetches f bs x ty" "buf_holds b D u" "buf_type b = ty" "drop u D = bs @ rest"
  shows "f b = Some (SUCCESS, x, b\<lparr>unpack_ptr := u + length bs\<rparr>)"
  using assms unfolding fetches_def by blast

lemma fetches_bind:
  assumes "fetches f xs x ty" "fetches (g x) ys y ty"
  shows "fetches (\<lambda>b. do { (ret, x, b) \<leftarrow> f b; if ret \<noteq> SUCCESS then h ret x b else g x b }) (xs @ ys) y ty"
  unfolding fetches_def
proof (intro allI impI)
  fix b D u rest assume b: "buf_holds b D u" "buf_type b = ty" "drop u D = (xs @ ys) @ rest"
  have d: "drop u D = xs @ ys @ rest" using b(3) by simp
  let ?b1 = "b\<lparr>unpack_ptr := u + length xs\<rparr>"
  have "f b = Some (SUCCESS, x, ?b1)" by (rule fetchesD [OF assms(1) b(1,2) d])
  moreover have "g x ?b1 = Some (SUCCESS, y, ?b1\<lparr>unpack_ptr := u + length xs + length ys\<rparr>)"
    by (rule fetchesD [OF assms(2) advance_holds(1) [OF b(1) d] _ advance_holds(2) [OF b(1) d]])
      (use b(2) in simp)
  ultimately show "do { (ret, x, b) \<leftarrow> f b; if ret \<noteq> SUCCESS then h ret x b else g x b }
      = Some (SUCCESS, y, b\<lparr>unpack_ptr := u + length (xs @ ys)\<rparr>)"
    by (simp add: add.assoc)
qed

lemma fetches_return: "fetches (\<lambda>b. Some (SUCCESS, x, b)) [] x ty"
  by (auto simp: fetches_def buf_holds_def)

lemma fetches_map:
  assumes "fetches f bs x ty"
  shows "fetches (\<lambda>b. do { (ret, x, b) \<leftarrow> f b; Some (ret, c x, b) }) bs (c x) ty"
  using assms by (simp add: fetches_def)

lemma fetches_cong: "(\<And>b. buf_type b = ty \<Longrightarrow> f b = g b) \<Longrightarrow> fetches g bs x ty \<Longrightarrow> fetches f bs x ty"
  by (simp add: fetches_def)

lemma get_bytes_holds:
  assumes "buf_holds b D u" "drop u D = bs @ rest"
  shows "get_bytes (length bs) b = Some (bs, b\<lparr>unpack_ptr := u + length bs\<rparr>)"
proof -
  have len: "u + length bs \<le> length D"
    using arg_cong [OF assms(2), of length] assms(1) by (auto simp: buf_holds_def)
  have "take (length bs) (drop u (buf_block b)) = take (length bs) (drop u (take (length D) (buf_block b)))"
    using len by (simp add: take_drop min_def)
  also have "\<dots> = map Some bs"
    using assms by (simp add: buf_holds_def drop_map take_map)
  finally show ?thesis
    using assms(1) len by (simp add: get_bytes_def Let_def buf_holds_def)
qed

lemma not_too_small:
  assumes "buf_holds b D u" "drop u D = bs @ rest" "n \<le> int (length bs)"
  shows "\<not> opal_dss_too_small b n"
  using arg_cong [OF assms(2), of length] assms(1,3) by (auto simp: opal_dss_too_small_def buf_holds_def)

lemma fetches_byte:
  assumes "length bs < 2 ^ 31" "n = int (length bs)"
  shows "fetches (opal_dss_unpack_byte n) bs bs ty"
  unfolding fetches_def
proof (intro allI impI)
  fix b D u rest assume b: "buf_holds b D u" "drop u D = bs @ rest"
  have "bytes_reqd (int (length bs)) 1 \<le> int (length bs)" using assms(1) by (simp add: bytes_reqd_def)
  with not_too_small [OF b] get_bytes_holds [OF b] assms(2)
  show "opal_dss_unpack_byte n b = Some (SUCCESS, bs, b\<lparr>unpack_ptr := u + length bs\<rparr>)"
    by (simp add: opal_dss_unpack_byte_def)
qed

lemma fetches_words:
  fixes ws :: "'w::len word list"
  assumes "LENGTH('w) = 8 * k" "length ws < 2 ^ 31" "k \<le> 8" "n = int (length ws)"
  shows "fetches (unpack_words k n) (enc_words k ws) ws ty"
  unfolding fetches_def
proof (intro allI impI)
  fix b D u rest assume b: "buf_holds b D u" "drop u D = enc_words k ws @ rest"
  have "bytes_reqd (int (length ws)) (int k) \<le> int (length (enc_words k ws))"
    by (simp add: bytes_reqd_def length_enc_words mult.commute zmod_le_nonneg_dividend)
  with not_too_small [OF b] have "\<not> opal_dss_too_small b (bytes_reqd n (int k))" using assms(4) by simp
  moreover have "get_bytes (k * length ws) b = Some (enc_words k ws, b\<lparr>unpack_ptr := u + length (enc_words k ws)\<rparr>)"
    using get_bytes_holds [OF b] by (simp add: length_enc_words)
  ultimately show "unpack_words k n b = Some (SUCCESS, ws, b\<lparr>unpack_ptr := u + length (enc_words k ws)\<rparr>)"
    using assms(4) by (simp add: unpack_words_def words_at_enc [OF assms(1)])
qed

section \<open>Packing and unpacking the fixed types\<close>

lemma sint_of_nat32: "n < 2 ^ 31 \<Longrightarrow> sint (of_nat n :: 32 word) = int n"
  by (simp add: signed_of_nat signed_take_bit_int_eq_self)

lemma unat_of_nat32: "n < 2 ^ 31 \<Longrightarrow> unat (of_nat n :: 32 word) = n"
  by (simp add: unat_of_nat)

lemma appends_int32: "env_ok e \<Longrightarrow> appends (opal_dss_pack_int32 e ws) (enc_words 4 ws) ty"
  unfolding opal_dss_pack_int32_def by (rule appends_bytes)

lemma fetches_int32: "length ws < 2 ^ 31 \<Longrightarrow> n = int (length ws) \<Longrightarrow> fetches (opal_dss_unpack_int32 n) (enc_words 4 ws) ws ty"
  unfolding opal_dss_unpack_int32_def by (rule fetches_words) auto

lemma fetches_int64: "length ws < 2 ^ 31 \<Longrightarrow> n = int (length ws) \<Longrightarrow> fetches (opal_dss_unpack_int64 n) (enc_words 8 ws) ws ty"
  unfolding opal_dss_unpack_int64_def by (rule fetches_words) auto

definition proper_string :: "byte list \<Rightarrow> bool" where
  "proper_string s \<longleftrightarrow> s \<noteq> [] \<and> last s = 0 \<and> 0 \<notin> set (butlast s) \<and> length s < 2 ^ 31"

lemma strlen_proper: "proper_string s \<Longrightarrow> strlen s = Some (length s - 1)"
proof -
  assume s: "proper_string s"
  then have "s = butlast s @ [0]" by (metis append_butlast_last_id proper_string_def)
  then obtain t where t: "s = t @ [0]" "0 \<notin> set t" using s by (auto simp: proper_string_def)
  then have "takeWhile (\<lambda>c. c \<noteq> 0) s = t" by (simp add: takeWhile_append)
  with t show ?thesis by (simp add: strlen_def)
qed

fun enc_string :: "byte list option \<Rightarrow> byte list" where
  "enc_string None = enc_words 4 [0 :: 32 word]"
| "enc_string (Some s) = enc_words 4 [of_nat (length s) :: 32 word] @ s"

abbreviation proper_strings :: "byte list option list \<Rightarrow> bool" where
  "proper_strings ss \<equiv> \<forall>s\<in>set ss. case s of None \<Rightarrow> True | Some s \<Rightarrow> proper_string s"

lemma appends_string:
  assumes "env_ok e" "proper_strings ss"
  shows "appends (opal_dss_pack_string e ss) (concat (map enc_string ss)) ty"
  using assms(2)
proof (induction ss)
  case Nil
  then show ?case by (simp add: appends_def)
next
  case (Cons s ss)
  then have IH: "appends (opal_dss_pack_string e ss) (concat (map enc_string ss)) ty" by simp
  show ?case
  proof (cases s)
    case None
    have "appends (\<lambda>b. on_success (opal_dss_pack_int32 e [0] b) (opal_dss_pack_string e ss))
        (enc_words 4 [0 :: 32 word] @ concat (map enc_string ss)) ty"
      by (rule appends_seq [OF appends_int32 [OF assms(1)] IH])
    with None show ?thesis by (simp add: appends_def)
  next
    case (Some t)
    then have t: "proper_string t" using Cons.prems by simp
    have "appends (\<lambda>b. on_success (on_success (opal_dss_pack_int32 e [of_nat (length t)] b) (opal_dss_pack_byte e t))
        (opal_dss_pack_string e ss))
        ((enc_words 4 [of_nat (length t) :: 32 word] @ t) @ concat (map enc_string ss)) ty"
      unfolding opal_dss_pack_byte_def
      by (intro appends_seq appends_int32 appends_bytes assms(1) IH)
    moreover obtain m where m: "length t = Suc m" using t by (cases t) (auto simp: proper_string_def)
    ultimately show ?thesis
      using Some strlen_proper [OF t] t by (simp add: proper_string_def appends_def del: of_nat_Suc)
  qed
qed

lemma fetches_string:
  assumes "env_ok e" "proper_strings ss"
  shows "fetches (unpack_strings e (length ss)) (concat (map enc_string ss)) ss ty"
  using assms(2)
proof (induction ss)
  case Nil
  then show ?case by (simp add: fetches_return)
next
  case (Cons s ss)
  then have IH: "fetches (unpack_strings e (length ss)) (concat (map enc_string ss)) ss ty" by simp
  have len: "length (s # ss) = Suc (length ss)" by simp
  have mem: "malloc_int e n" for n using assms(1) by (simp add: malloc_int_def env_ok_def always_def)
  show ?case
  proof (cases s)
    case None
    then have enc: "concat (map enc_string (s # ss)) = enc_words 4 [0 :: 32 word] @ concat (map enc_string ss)" by simp
    show ?thesis
      unfolding enc len unpack_strings.simps
      by (rule fetches_bind [OF fetches_int32]) (simp_all add: None fetches_map [OF IH, of "(#) None"])
  next
    case (Some t)
    then have t: "proper_string t" using Cons.prems by simp
    then have l: "sint (of_nat (length t) :: 32 word) = int (length t)" "t \<noteq> []" "length t < 2 ^ 31"
      by (auto simp: sint_of_nat32 proper_string_def)
    have rest: "fetches (\<lambda>b. do { (ret, bs, b) \<leftarrow> opal_dss_unpack_byte (int (length t)) b;
                      if ret \<noteq> SUCCESS then Some (ret, [Some bs], b)
                      else do { (ret, ss, b) \<leftarrow> unpack_strings e (length ss) b; Some (ret, Some bs # ss, b) } })
        (t @ concat (map enc_string ss)) (Some t # ss) ty"
      by (rule fetches_bind [OF fetches_byte]) (use l in \<open>simp_all add: fetches_map [OF IH, of "(#) (Some t)"]\<close>)
    have enc: "concat (map enc_string (s # ss))
        = enc_words 4 [of_nat (length t) :: 32 word] @ t @ concat (map enc_string ss)" by (simp add: Some)
    show ?thesis
      unfolding enc len unpack_strings.simps
      by (rule fetches_bind [OF fetches_int32]) (use rest in \<open>simp_all add: Some l mem\<close>)
  qed
qed

definition enc_timeval :: "64 word \<times> 64 word \<Rightarrow> byte list" where
  "enc_timeval tv = enc_words 8 [fst tv, snd tv]"

lemma appends_timeval:
  assumes "env_ok e"
  shows "appends (opal_dss_pack_timeval e tvs) (concat (map enc_timeval tvs)) ty"
proof (induction tvs)
  case (Cons tv tvs)
  obtain s u where tv: "tv = (s, u)" by (cases tv)
  have "appends (\<lambda>b. on_success (opal_dss_pack_int64 e [s, u] b) (opal_dss_pack_timeval e tvs))
      (enc_words 8 [s, u] @ concat (map enc_timeval tvs)) ty"
    unfolding opal_dss_pack_int64_def by (intro appends_seq appends_bytes assms Cons)
  then show ?case by (simp add: tv appends_def enc_timeval_def [of "(s, u)"])
qed (simp add: appends_def)

lemma fetches_timevals: "fetches (unpack_timevals (length tvs)) (concat (map enc_timeval tvs)) tvs ty"
proof (induction tvs)
  case (Cons tv tvs)
  have enc: "concat (map enc_timeval (tv # tvs)) = enc_words 8 [fst tv, snd tv] @ concat (map enc_timeval tvs)"
    by (simp add: enc_timeval_def)
  have len: "length (tv # tvs) = Suc (length tvs)" by simp
  show ?case
    unfolding enc len unpack_timevals.simps
    by (rule fetches_bind [OF fetches_int64]) (simp_all add: fetches_map [OF Cons, of "(#) tv"])
qed (simp add: fetches_return)

lemma length_enc_timevals: "length (concat (map enc_timeval tvs)) = 16 * length tvs"
  by (induction tvs) (auto simp: enc_timeval_def)

lemma fetches_guarded:
  assumes "fetches f bs x ty" "m \<le> int (length bs)"
  shows "fetches (\<lambda>b. if opal_dss_too_small b m then h b else f b) bs x ty"
  unfolding fetches_def
proof (intro allI impI)
  fix b D u rest assume b: "buf_holds b D u" "buf_type b = ty" "drop u D = bs @ rest"
  show "(if opal_dss_too_small b m then h b else f b) = Some (SUCCESS, x, b\<lparr>unpack_ptr := u + length bs\<rparr>)"
    using not_too_small [OF b(1,3) assms(2)] fetchesD [OF assms(1) b] by simp
qed

lemma fetches_timeval:
  assumes "length tvs < 2 ^ 31" "n = int (length tvs)"
  shows "fetches (opal_dss_unpack_timeval n) (concat (map enc_timeval tvs)) tvs ty"
proof -
  have "bytes_reqd (int (length tvs)) 16 \<le> int (length (concat (map enc_timeval tvs)))"
    unfolding length_enc_timevals using assms(1) by (simp add: bytes_reqd_def)
  from fetches_guarded [OF fetches_timevals this] show ?thesis
    unfolding opal_dss_unpack_timeval_def assms(2) nat_int by simp
qed

lemma appends_time:
  assumes "env_ok e"
  shows "appends (opal_dss_pack_time e ts) (enc_words 8 ts) ty"
proof (induction ts)
  case (Cons t ts)
  have "appends (\<lambda>b. on_success (opal_dss_pack_int64 e [t] b) (opal_dss_pack_time e ts))
      (enc_words 8 [t] @ enc_words 8 ts) ty"
    unfolding opal_dss_pack_int64_def by (intro appends_seq appends_bytes assms Cons)
  then show ?case by (simp add: appends_def)
qed (simp add: appends_def)

lemma fetches_times: "fetches (unpack_times (length ts)) (enc_words 8 ts) ts ty"
proof (induction ts)
  case (Cons t ts)
  have enc: "enc_words 8 (t # ts) = enc_words 8 [t] @ enc_words 8 ts" by simp
  have len: "length (t # ts) = Suc (length ts)" by simp
  show ?case
    unfolding enc len unpack_times.simps
    by (rule fetches_bind [OF fetches_int64]) (simp_all add: fetches_map [OF Cons, of "(#) t"])
qed (simp add: fetches_return)

lemma fetches_time:
  assumes "length ts < 2 ^ 31" "n = int (length ts)"
  shows "fetches (opal_dss_unpack_time n) (enc_words 8 ts) ts ty"
proof -
  have "bytes_reqd (int (length ts)) 8 \<le> int (length (enc_words 8 ts))"
    unfolding length_enc_words using assms(1) by (simp add: bytes_reqd_def)
  from fetches_guarded [OF fetches_times this] show ?thesis
    unfolding opal_dss_unpack_time_def assms(2) nat_int by simp
qed

definition proper_object :: "32 word \<times> byte list \<Rightarrow> bool" where
  "proper_object bo \<longleftrightarrow> length (snd bo) < 2 ^ 31 \<and> fst bo = of_nat (length (snd bo))"

definition enc_object :: "32 word \<times> byte list \<Rightarrow> byte list" where
  "enc_object bo = enc_words 4 [fst bo] @ snd bo"

lemma appends_sized:
  assumes "env_ok e" "proper_object bo"
  shows "appends (pack_sized_bytes e bo) (enc_object bo) ty"
proof -
  have sz: "sint (fst bo) = int (length (snd bo))" using assms(2) by (simp add: proper_object_def sint_of_nat32)
  have "appends (\<lambda>b. on_success (opal_dss_pack_int32 e [fst bo] b)
      (\<lambda>b. if 0 < sint (fst bo) then if nat (sint (fst bo)) \<le> length (snd bo)
           then opal_dss_pack_byte e (take (nat (sint (fst bo))) (snd bo)) b else None
         else Some (SUCCESS, b))) (enc_words 4 [fst bo] @ snd bo) ty"
  proof (rule appends_seq [OF appends_int32 [OF assms(1)]])
    show "appends (\<lambda>b. if 0 < sint (fst bo) then if nat (sint (fst bo)) \<le> length (snd bo)
           then opal_dss_pack_byte e (take (nat (sint (fst bo))) (snd bo)) b else None
         else Some (SUCCESS, b)) (snd bo) ty"
      using appends_bytes [OF assms(1), of "snd bo" ty] sz
      by (cases "snd bo = []") (auto simp: opal_dss_pack_byte_def appends_none)
  qed
  then show ?thesis by (simp add: pack_sized_bytes_def enc_object_def split_def)
qed

lemma fetches_sized:
  assumes "env_ok e" "proper_object bo"
  shows "fetches (unpack_sized_bytes e) (enc_object bo) bo ty"
proof -
  obtain n bs where bo: "bo = (n, bs)" by (cases bo)
  have sz: "sint n = int (length bs)" "length bs < 2 ^ 31"
    using assms(2) bo by (auto simp: proper_object_def sint_of_nat32)
  have mem: "malloc_int e n" for n using assms(1) by (simp add: malloc_int_def env_ok_def always_def)
  have "fetches (\<lambda>b. if 0 < sint n
      then do { (ret, bs, b) \<leftarrow> opal_dss_unpack_byte (sint n) b; Some (ret, (n, bs), b) }
      else Some (SUCCESS, (n, []), b)) bs (n, bs) ty"
  proof (cases "bs = []")
    case True
    then show ?thesis using sz(1) fetches_return [of "(n, [])" ty] by simp
  next
    case False
    then show ?thesis
      using fetches_map [OF fetches_byte [OF sz(2) refl], of "Pair n"] sz(1) by simp
  qed
  then show ?thesis
    unfolding unpack_sized_bytes_def enc_object_def bo fst_conv snd_conv
    by (intro fetches_bind [OF fetches_int32]) (simp_all add: mem cong: if_cong)
qed

lemma appends_byte_object:
  assumes "env_ok e" "\<forall>bo\<in>set bos. proper_object bo"
  shows "appends (opal_dss_pack_byte_object e bos) (concat (map enc_object bos)) ty"
  using assms(2)
proof (induction bos)
  case (Cons bo bos)
  then have "appends (\<lambda>b. on_success (pack_sized_bytes e bo b) (opal_dss_pack_byte_object e bos))
      (enc_object bo @ concat (map enc_object bos)) ty"
    by (intro appends_seq appends_sized assms(1)) auto
  then show ?case by (simp add: appends_def)
qed (simp add: appends_def)

lemma fetches_byte_objects:
  assumes "env_ok e" "\<forall>bo\<in>set bos. proper_object bo"
  shows "fetches (unpack_byte_objects e (length bos)) (concat (map enc_object bos)) bos ty"
  using assms(2)
proof (induction bos)
  case (Cons bo bos)
  then have IH: "fetches (unpack_byte_objects e (length bos)) (concat (map enc_object bos)) bos ty" by simp
  have enc: "concat (map enc_object (bo # bos)) = enc_object bo @ concat (map enc_object bos)" by simp
  have len: "length (bo # bos) = Suc (length bos)" by simp
  have "fetches (\<lambda>b. do { (ret, bo, b) \<leftarrow> unpack_sized_bytes e b;
      if ret \<noteq> SUCCESS then Some (ret, [bo], b)
      else do { (ret, bos, b) \<leftarrow> unpack_byte_objects e (length bos) b; Some (ret, bo # bos, b) } })
      (enc_object bo @ concat (map enc_object bos)) (bo # bos) ty"
    by (rule fetches_bind [OF fetches_sized])
      (use assms(1) Cons.prems in \<open>simp_all add: fetches_map [OF IH, of "(#) bo"]\<close>)
  with assms(1) show ?case
    unfolding enc len unpack_byte_objects.simps by (simp add: env_ok_def always_def)
qed (auto simp: fetches_def buf_holds_def)

section \<open>Packing and unpacking any type\<close>

definition fixed_ok :: "dss_fn \<Rightarrow> 'x vals \<Rightarrow> bool" where
  "fixed_ok f v \<longleftrightarrow> vals_count v < 2 ^ 31 \<and>
     (case v of
        U8 _ \<Rightarrow> f = F_byte
      | U16 _ \<Rightarrow> f = F_int16
      | U32 _ \<Rightarrow> f = F_int32
      | U64 _ \<Rightarrow> f = F_int64 \<or> f = F_time
      | Strs ss \<Rightarrow> f = F_string \<and> proper_strings ss
      | Tvs _ \<Rightarrow> f = F_timeval
      | Bos bos \<Rightarrow> f = F_byte_object \<and> (\<forall>bo\<in>set bos. proper_object bo)
      | _ \<Rightarrow> False)"

lemma fetches_stored:
  assumes "fetches f bs x ty"
  shows "fetches (\<lambda>b. stored_as con (f b)) bs (con x) ty"
  using assms by (simp add: fetches_def stored_as_def)

lemma odti_pack_fns:
  "odti_pack_fn e pb F_byte (U8 xs) = pack_bytes e xs"
  "odti_pack_fn e pb F_int16 (U16 x16) = pack_bytes e (enc_words 2 x16)"
  "odti_pack_fn e pb F_int32 (U32 x32) = pack_bytes e (enc_words 4 x32)"
  "odti_pack_fn e pb F_int64 (U64 x64) = pack_bytes e (enc_words 8 x64)"
  "odti_pack_fn e pb F_time (U64 x64) = opal_dss_pack_time e x64"
  "odti_pack_fn e pb F_string (Strs ss) = opal_dss_pack_string e ss"
  "odti_pack_fn e pb F_timeval (Tvs tvs) = opal_dss_pack_timeval e tvs"
  "odti_pack_fn e pb F_byte_object (Bos bos) = opal_dss_pack_byte_object e bos"
  "odti_pack_fn e pb F_bool v = pack_described e pb OPAL_UINT8 v"
  "odti_pack_fn e pb F_int v = pack_described e pb OPAL_INT32 v"
  "odti_pack_fn e pb F_sizet v = pack_described e pb OPAL_UINT64 v"
  "odti_pack_fn e pb F_pid v = pack_described e pb OPAL_UINT32 v"
  "odti_pack_fn e pb F_data_type v = pb OPAL_UINT8 v"
  "odti_pack_fn e pb F_jobid v = pb OPAL_UINT32 v"
  "odti_pack_fn e pb F_vpid v = pb OPAL_UINT32 v"
  "odti_pack_fn e pb F_name (Names ns) = opal_dss_pack_name e pb ns"
  "odti_pack_fn e pb F_value (Values vs) = opal_dss_pack_value e pb vs"
  by (simp_all add: odti_pack_fn_def fun_eq_iff opal_dss_pack_byte_def opal_dss_pack_int16_def
      opal_dss_pack_int32_def opal_dss_pack_int64_def opal_dss_pack_bool_def opal_dss_pack_int_def
      opal_dss_pack_sizet_def opal_dss_pack_pid_def opal_dss_pack_data_type_def opal_dss_pack_jobid_def
      opal_dss_pack_vpid_def DSS_TYPE_BOOL_def DSS_TYPE_INT_def DSS_TYPE_SIZE_T_def DSS_TYPE_PID_T_def
      OPAL_DATA_TYPE_T_def OPAL_JOBID_T_def OPAL_VPID_T_def)

lemma odti_unpack_fns:
  "odti_unpack_fn e ub F_null n = (\<lambda>b. stored_as U8 (opal_dss_unpack_byte n b))"
  "odti_unpack_fn e ub F_byte n = (\<lambda>b. stored_as U8 (opal_dss_unpack_byte n b))"
  "odti_unpack_fn e ub F_int16 n = (\<lambda>b. stored_as U16 (unpack_words 2 n b))"
  "odti_unpack_fn e ub F_int32 n = (\<lambda>b. stored_as U32 (unpack_words 4 n b))"
  "odti_unpack_fn e ub F_int64 n = (\<lambda>b. stored_as U64 (unpack_words 8 n b))"
  "odti_unpack_fn e ub F_time n = (\<lambda>b. stored_as U64 (opal_dss_unpack_time n b))"
  "odti_unpack_fn e ub F_string n = (\<lambda>b. stored_as Strs (unpack_strings e (nat n) b))"
  "odti_unpack_fn e ub F_timeval n = (\<lambda>b. stored_as Tvs (opal_dss_unpack_timeval n b))"
  "odti_unpack_fn e ub F_byte_object n = (\<lambda>b. stored_as Bos (unpack_byte_objects e (nat n) b))"
  "odti_unpack_fn e ub F_bool n
     = unpack_described e ub OPAL_UINT8 (\<lambda>xs. U8 (map (\<lambda>x. if x \<noteq> 0 then 1 else 0) xs)) n"
  "odti_unpack_fn e ub F_int n = unpack_described e ub OPAL_INT32 (\<lambda>xs. U32 (map of_int xs)) n"
  "odti_unpack_fn e ub F_sizet n = unpack_described e ub OPAL_UINT64 (\<lambda>xs. U64 (map of_int xs)) n"
  "odti_unpack_fn e ub F_pid n = unpack_described e ub OPAL_UINT32 (\<lambda>xs. U32 (map of_int xs)) n"
  "odti_unpack_fn e ub F_data_type n = ub OPAL_UINT8 n"
  "odti_unpack_fn e ub F_jobid n = ub OPAL_UINT32 n"
  "odti_unpack_fn e ub F_vpid n = ub OPAL_UINT32 n"
  "odti_unpack_fn e ub F_name n = (\<lambda>b. stored_as Names (opal_dss_unpack_name e ub n b))"
  "odti_unpack_fn e ub F_value n = (\<lambda>b. stored_as Values (unpack_values e ub (nat n) b))"
  "odti_unpack_fn e ub F_buffer n = (\<lambda>b. stored_as Bufs (unpack_buffers e ub (nat n) b))"
  by (simp_all add: odti_unpack_fn_def fun_eq_iff opal_dss_unpack_null_def opal_dss_unpack_int16_def
      opal_dss_unpack_int32_def opal_dss_unpack_int64_def opal_dss_unpack_bool_def opal_dss_unpack_int_def
      opal_dss_unpack_sizet_def opal_dss_unpack_pid_def opal_dss_unpack_data_type_def opal_dss_unpack_jobid_def
      opal_dss_unpack_vpid_def opal_dss_unpack_string_def opal_dss_unpack_byte_object_def
      opal_dss_unpack_value_def opal_dss_unpack_buffer_contents_def
      DSS_TYPE_BOOL_def DSS_TYPE_INT_def DSS_TYPE_SIZE_T_def DSS_TYPE_PID_T_def
      OPAL_DATA_TYPE_T_def OPAL_JOBID_T_def OPAL_VPID_T_def)

lemmas odti_fns = odti_pack_fns odti_unpack_fns

lemma fixed_codec:
  assumes e: "env_ok e" and ok: "fixed_ok f v"
  shows "\<exists>bs. \<forall>ty pb ub. appends (odti_pack_fn e pb f v) bs ty \<and>
    fetches (odti_unpack_fn e ub f (int (vals_count v))) bs v ty"
proof (cases v)
  case (U8 xs)
  with ok show ?thesis
    by (auto simp: fixed_ok_def odti_fns intro!: exI [of _ xs] appends_bytes e fetches_stored fetches_byte)
next
  case (U16 xs)
  with ok show ?thesis
    by (auto simp: fixed_ok_def odti_fns
        intro!: exI [of _ "enc_words 2 xs"] appends_bytes e fetches_stored fetches_words)
next
  case (U32 xs)
  with ok show ?thesis
    by (auto simp: fixed_ok_def odti_fns
        intro!: exI [of _ "enc_words 4 xs"] appends_bytes e fetches_stored fetches_words)
next
  case (U64 xs)
  with ok show ?thesis
    by (auto simp: fixed_ok_def odti_fns intro!: exI [of _ "enc_words 8 xs"] appends_bytes appends_time e
        fetches_stored fetches_words fetches_time)
next
  case (Strs ss)
  with ok show ?thesis
    by (auto simp: fixed_ok_def odti_fns
        intro!: exI [of _ "concat (map enc_string ss)"] appends_string e fetches_stored fetches_string)
next
  case (Tvs tvs)
  with ok show ?thesis
    by (auto simp: fixed_ok_def odti_fns
        intro!: exI [of _ "concat (map enc_timeval tvs)"] appends_timeval e fetches_stored fetches_timeval)
next
  case (Bos bos)
  with ok show ?thesis
    by (auto simp: fixed_ok_def odti_fns
        intro!: exI [of _ "concat (map enc_object bos)"] appends_byte_object e fetches_stored fetches_byte_objects)
qed (use ok in \<open>auto simp: fixed_ok_def\<close>)

definition type_prefix :: "buffer_type \<Rightarrow> data_type \<Rightarrow> byte list" where
  "type_prefix ty t = (if ty = FULLY_DESC then [t] else [])"

lemma appends_prefix:
  assumes "env_ok e"
  shows "appends (\<lambda>b. if buf_type b = FULLY_DESC then opal_dss_store_data_type e t b else Some (SUCCESS, b))
    (type_prefix ty t) ty"
proof (cases "ty = FULLY_DESC")
  case True
  have "appends (pack_bytes e [t]) [t] ty" by (rule appends_bytes [OF assms])
  with True show ?thesis
    by (simp add: appends_def type_prefix_def opal_dss_store_data_type_def opal_dss_pack_byte_def)
next
  case False
  then show ?thesis by (auto simp: type_prefix_def appends_def)
qed

lemma fetches_data_type: "fetches opal_dss_get_data_type [t] t ty"
proof -
  have "fetches (\<lambda>b. do { (ret, ts, b) \<leftarrow> opal_dss_unpack_byte 1 b;
      if ret \<noteq> SUCCESS then Some (ret, OPAL_UNDEF, b) else Some (SUCCESS, hd ts, b) }) ([t] @ []) t ty"
    by (rule fetches_bind [OF fetches_byte]) (simp_all add: fetches_return)
  moreover have "opal_dss_get_data_type = (\<lambda>b. do { (ret, ts, b) \<leftarrow> opal_dss_unpack_byte 1 b;
      if ret \<noteq> SUCCESS then Some (ret, OPAL_UNDEF, b) else Some (SUCCESS, hd ts, b) })"
    by (rule ext) (case_tac "opal_dss_unpack_byte 1 b", auto simp: opal_dss_get_data_type_def)
  ultimately show ?thesis by simp
qed

lemma buffer_codec:
  assumes e: "env_ok e" and t: "map_of opal_dss_types t = Some f"
    and a: "appends (odti_pack_fn e (dss_pack_buffer k e) f v) bs ty"
    and f: "fetches (odti_unpack_fn e (dss_unpack_buffer k e) f n) bs v ty"
  shows "appends (dss_pack_buffer (Suc k) e t v) (type_prefix ty t @ bs) ty"
    and "fetches (dss_unpack_buffer (Suc k) e t n) (type_prefix ty t @ bs) v ty"
proof -
  have "dss_pack_buffer (Suc k) e t v = (\<lambda>b. on_success
      (if buf_type b = FULLY_DESC then opal_dss_store_data_type e t b else Some (SUCCESS, b))
      (odti_pack_fn e (dss_pack_buffer k e) f v))"
    by (auto simp: t fun_eq_iff)
  with appends_seq [OF appends_prefix [OF e] a] show "appends (dss_pack_buffer (Suc k) e t v) (type_prefix ty t @ bs) ty"
    by simp
  show "fetches (dss_unpack_buffer (Suc k) e t n) (type_prefix ty t @ bs) v ty"
  proof (cases "ty = FULLY_DESC")
    case True
    have "fetches (\<lambda>b. do { (rc, l, b) \<leftarrow> opal_dss_get_data_type b;
        if rc \<noteq> SUCCESS then Some (rc, U8 [], b)
        else if l \<noteq> t then Some (ERR_PACK_MISMATCH, U8 [], b)
             else odti_unpack_fn e (dss_unpack_buffer k e) f n b }) ([t] @ bs) v ty"
      by (rule fetches_bind [OF fetches_data_type]) (simp add: f)
    moreover have "type_prefix ty t = [t]" by (simp add: type_prefix_def True)
    ultimately show ?thesis by (simp add: True t fetches_def cong: if_cong)
  next
    case False
    with f show ?thesis by (auto simp: type_prefix_def t intro: fetches_cong)
  qed
qed

declare dss_pack_buffer.simps [simp del] dss_unpack_buffer.simps [simp del]

lemma fixed_buffer_codec:
  assumes "env_ok e" "map_of opal_dss_types t = Some f" "fixed_ok f v"
  shows "\<exists>bs. \<forall>ty k. appends (dss_pack_buffer (Suc k) e t v) (type_prefix ty t @ bs) ty \<and>
    fetches (dss_unpack_buffer (Suc k) e t (int (vals_count v))) (type_prefix ty t @ bs) v ty"
proof -
  obtain bs where "\<forall>ty pb ub. appends (odti_pack_fn e pb f v) bs ty \<and>
      fetches (odti_unpack_fn e ub f (int (vals_count v))) bs v ty"
    using fixed_codec [OF assms(1,3)] by blast
  then show ?thesis using buffer_codec [OF assms(1,2)] by blast
qed

lemma peek_type_holds:
  assumes "buf_holds b D u" "buf_type b = FULLY_DESC" "drop u D = t # rest"
  shows "opal_dss_peek_type b = Some (SUCCESS, t)"
proof -
  have "\<not> at_end b"
    using assms(1) arg_cong [OF assms(3), of length] by (auto simp: at_end_def buf_holds_def)
  moreover have "opal_dss_get_data_type b = Some (SUCCESS, t, b\<lparr>unpack_ptr := u + length [t]\<rparr>)"
    by (rule fetchesD [OF fetches_data_type assms(1) refl]) (simp add: assms(3))
  ultimately show ?thesis using assms(2) by (simp add: opal_dss_peek_type_def)
qed

lemma described_codec:
  assumes e: "env_ok e"
    and a: "appends (pb real v) (type_prefix ty real @ bs) ty"
    and f: "fetches (ub real n) (type_prefix ty real @ bs) v ty"
  shows "appends (pack_described e pb real v) (real # bs) ty"
    and "fetches (unpack_described e ub real conv n) (real # bs) v ty"
proof -
  show "appends (pack_described e pb real v) (real # bs) ty"
  proof (cases "ty = FULLY_DESC")
    case True
    with a show ?thesis
      by (auto simp: type_prefix_def pack_described_def on_success_def intro: appends_cong)
  next
    case False
    have "appends (\<lambda>b. on_success (opal_dss_store_data_type e real b) (pb real v)) ([real] @ bs) ty"
      unfolding opal_dss_store_data_type_def opal_dss_pack_byte_def
      by (rule appends_seq [OF appends_bytes [OF e]]) (use a False in \<open>simp add: type_prefix_def\<close>)
    with False show ?thesis by (auto simp: pack_described_def intro: appends_cong)
  qed
  show "fetches (unpack_described e ub real conv n) (real # bs) v ty"
  proof (cases "ty = FULLY_DESC")
    case True
    show ?thesis
      unfolding fetches_def
    proof (intro allI impI)
      fix b D u rest assume b: "buf_holds b D u" "buf_type b = ty" "drop u D = (real # bs) @ rest"
      have "opal_dss_peek_type b = Some (SUCCESS, real)"
        by (rule peek_type_holds [OF b(1)]) (use b(2,3) True in auto)
      moreover have "ub real n b = Some (SUCCESS, v, b\<lparr>unpack_ptr := u + length (real # bs)\<rparr>)"
        by (rule fetchesD [OF f [unfolded type_prefix_def] b(1,2), of rest, unfolded if_P [OF True] append_Cons append_Nil])
          (use b(3) in simp)
      ultimately show "unpack_described e ub real conv n b = Some (SUCCESS, v, b\<lparr>unpack_ptr := u + length (real # bs)\<rparr>)"
        using b(2) True by (simp add: unpack_described_def)
    qed
  next
    case False
    have "fetches (\<lambda>b. do { (ret, t, b) \<leftarrow> opal_dss_get_data_type b;
        if ret \<noteq> SUCCESS then Some (ret, conv [], b)
        else if t = real then ub real n b else unpack_size_mismatch e ub conv t n b }) ([real] @ bs) v ty"
      by (rule fetches_bind [OF fetches_data_type]) (use f False in \<open>simp add: type_prefix_def\<close>)
    with False show ?thesis by (auto simp: unpack_described_def intro: fetches_cong)
  qed
qed

text \<open>The fixed-size type that a generic type is packed as.\<close>

definition sys_ok :: "dss_fn \<Rightarrow> 'x vals \<Rightarrow> bool" where
  "sys_ok f v \<longleftrightarrow> fixed_ok f v \<or>
     f \<in> {F_bool, F_data_type} \<and> fixed_ok F_byte v \<or>
     f \<in> {F_int, F_pid, F_jobid, F_vpid} \<and> fixed_ok F_int32 v \<or>
     f = F_sizet \<and> fixed_ok F_int64 v"

lemma type_table [simp]:
  "map_of opal_dss_types OPAL_UINT8 = Some F_byte"
  "map_of opal_dss_types OPAL_UINT32 = Some F_int32"
  "map_of opal_dss_types OPAL_INT32 = Some F_int32"
  "map_of opal_dss_types OPAL_UINT64 = Some F_int64"
  by (simp_all add: opal_dss_types_def type_codes)

lemma sys_codec:
  assumes e: "env_ok e" and ok: "sys_ok f v"
  shows "\<exists>bs. \<forall>k. appends (odti_pack_fn e (dss_pack_buffer (Suc k) e) f v) bs ty \<and>
    fetches (odti_unpack_fn e (dss_unpack_buffer (Suc k) e) f (int (vals_count v))) bs v ty"
proof -
  consider "fixed_ok f v" | "f = F_bool" "fixed_ok F_byte v" | "f = F_data_type" "fixed_ok F_byte v"
    | "f = F_int" "fixed_ok F_int32 v" | "f = F_pid" "fixed_ok F_int32 v"
    | "f = F_jobid \<or> f = F_vpid" "fixed_ok F_int32 v" | "f = F_sizet" "fixed_ok F_int64 v"
    using ok by (auto simp: sys_ok_def)
  then show ?thesis
  proof cases
    case 1
    then show ?thesis using fixed_codec [OF e] by blast
  next
    case 2
    then show ?thesis
      unfolding 2(1) odti_fns using fixed_buffer_codec [OF e type_table(1) 2(2)] described_codec [OF e] by metis
  next
    case 3
    then show ?thesis
      unfolding 3(1) odti_fns using fixed_buffer_codec [OF e type_table(1) 3(2)] by blast
  next
    case 4
    then show ?thesis
      unfolding 4(1) odti_fns using fixed_buffer_codec [OF e type_table(3) 4(2)] described_codec [OF e] by metis
  next
    case 5
    then show ?thesis
      unfolding 5(1) odti_fns using fixed_buffer_codec [OF e type_table(2) 5(2)] described_codec [OF e] by metis
  next
    case 6
    have "odti_pack_fn e pb f v = pb OPAL_UINT32 v" "odti_unpack_fn e ub f n = ub OPAL_UINT32 n" for pb ub n
      using 6(1) by (auto simp: odti_fns)
    with fixed_buffer_codec [OF e type_table(2) 6(2)] show ?thesis by metis
  next
    case 7
    then show ?thesis
      unfolding 7(1) odti_fns using fixed_buffer_codec [OF e type_table(4) 7(2)] described_codec [OF e] by metis
  qed
qed

lemma sys_buffer_codec:
  assumes "env_ok e" "map_of opal_dss_types t = Some f" "sys_ok f v"
  shows "\<exists>bs. \<forall>k. appends (dss_pack_buffer (Suc (Suc k)) e t v) bs ty \<and>
    fetches (dss_unpack_buffer (Suc (Suc k)) e t (int (vals_count v))) bs v ty"
proof -
  obtain bs where "\<forall>k. appends (odti_pack_fn e (dss_pack_buffer (Suc k) e) f v) bs ty \<and>
      fetches (odti_unpack_fn e (dss_unpack_buffer (Suc k) e) f (int (vals_count v))) bs v ty"
    using sys_codec [OF assms(1,3)] by blast
  then show ?thesis using buffer_codec [OF assms(1,2)] by blast
qed

lemma name_codec:
  assumes e: "env_ok e" and ns: "length ns < 2 ^ 31"
  shows "\<exists>bs. \<forall>k. appends (odti_pack_fn e (dss_pack_buffer (Suc k) e) F_name (Names ns)) bs ty \<and>
    fetches (odti_unpack_fn e (dss_unpack_buffer (Suc k) e) F_name (int (length ns))) bs (Names ns :: 'x vals) ty"
proof -
  have mem: "dss_mem e m" "malloc_int e n" for m n using e by (simp_all add: malloc_int_def env_ok_def always_def)
  have ok: "fixed_ok F_int32 (U32 (map fst ns) :: 'x vals)" "fixed_ok F_int32 (U32 (map snd ns) :: 'x vals)"
    using ns by (simp_all add: fixed_ok_def)
  obtain js where js: "\<forall>k. appends (dss_pack_buffer (Suc k) e OPAL_UINT32 (U32 (map fst ns))) js ty \<and>
      fetches (dss_unpack_buffer (Suc k) e OPAL_UINT32 (int (length ns))) js (U32 (map fst ns) :: 'x vals) ty"
    using fixed_buffer_codec [OF e type_table(2) ok(1)] by fastforce
  obtain vs where vs: "\<forall>k. appends (dss_pack_buffer (Suc k) e OPAL_UINT32 (U32 (map snd ns))) vs ty \<and>
      fetches (dss_unpack_buffer (Suc k) e OPAL_UINT32 (int (length ns))) vs (U32 (map snd ns) :: 'x vals) ty"
    using fixed_buffer_codec [OF e type_table(2) ok(2)] by fastforce
  show ?thesis
  proof (intro exI [of _ "js @ vs"] allI conjI)
    fix k
    let ?pb = "dss_pack_buffer (Suc k) e" and ?ub = "dss_unpack_buffer (Suc k) e"
    have "appends (\<lambda>b. on_success (?pb OPAL_UINT32 (U32 (map fst ns)) b) (?pb OPAL_UINT32 (U32 (map snd ns)))) (js @ vs) ty"
      using js vs by (intro appends_seq) blast+
    then show "appends (odti_pack_fn e ?pb F_name (Names ns)) (js @ vs) ty"
      by (simp add: odti_fns opal_dss_pack_name_def mem opal_dss_pack_jobid_def opal_dss_pack_vpid_def
          OPAL_JOBID_T_def OPAL_VPID_T_def appends_def)
    note fj = js [rule_format, THEN conjunct2, of k] and fv = vs [rule_format, THEN conjunct2, of k]
    have fin: "fetches (\<lambda>b. do { (rc, vpid, b) \<leftarrow> ?ub OPAL_UINT32 (int (length ns)) b;
        if rc \<noteq> SUCCESS then Some (rc, [], b)
        else Some (SUCCESS, zip (u32s (U32 (map fst ns))) (u32s vpid), b) }) (vs @ []) ns ty"
      by (rule fetches_bind [OF fv]) (simp add: zip_map_fst_snd fetches_return)
    have "fetches (\<lambda>b. do { (rc, jobid, b) \<leftarrow> ?ub OPAL_UINT32 (int (length ns)) b;
        if rc \<noteq> SUCCESS then Some (rc, [], b)
        else do { (rc, vpid, b) \<leftarrow> ?ub OPAL_UINT32 (int (length ns)) b;
                  if rc \<noteq> SUCCESS then Some (rc, [], b)
                  else Some (SUCCESS, zip (u32s jobid) (u32s vpid), b) } }) (js @ vs @ []) ns ty"
      by (rule fetches_bind [OF fj]) (rule fin)
    from fetches_stored [OF this, of Names]
    show "fetches (odti_unpack_fn e ?ub F_name (int (length ns))) (js @ vs) (Names ns :: 'x vals) ty"
      by (simp add: odti_fns opal_dss_unpack_name_def mem opal_dss_unpack_jobid_def opal_dss_unpack_vpid_def
          OPAL_JOBID_T_def OPAL_VPID_T_def cong: if_cong)
  qed
qed

section \<open>Values\<close>

definition scalar_ok :: "data_type \<Rightarrow> 'x vals \<Rightarrow> bool" where
  "scalar_ok t v \<longleftrightarrow> t \<in> set scalar_types \<and> vals_count v = 1 \<and>
     (case map_of opal_dss_types t of
        Some f \<Rightarrow> sys_ok f v \<or> f = F_name \<and> (case v of Names _ \<Rightarrow> True | _ \<Rightarrow> False)
      | None \<Rightarrow> False)"

definition value_ok :: "byte list option \<times> data_type \<times> 'x vals \<Rightarrow> bool" where
  "value_ok = (\<lambda>(key, t, v). (case key of None \<Rightarrow> True | Some s \<Rightarrow> proper_string s) \<and>
     (scalar_ok t v \<or>
      t = OPAL_BYTE_OBJECT \<and> (case v of Bos [bo] \<Rightarrow> proper_object bo | _ \<Rightarrow> False)))"

lemma data_codec:
  assumes e: "env_ok e" and ok: "value_ok (key, t, v)"
  shows "\<exists>bs. appends (pack_data e (dss_pack_buffer (Suc (Suc k)) e) t v) bs ty \<and>
    fetches (unpack_data e (dss_unpack_buffer (Suc (Suc k)) e) t) bs v ty"
proof (cases "scalar_ok t v")
  case True
  then obtain f where t: "t \<in> set scalar_types" "vals_count v = 1" "map_of opal_dss_types t = Some f"
      "sys_ok f v \<or> f = F_name \<and> (\<exists>ns. v = Names ns)"
    by (auto simp: scalar_ok_def split: option.splits vals.splits)
  have "pack_data e pb t v = pb t v" "unpack_data e ub t = ub t 1" for pb ub
    using t(1,2) by (simp_all add: fun_eq_iff pack_data_def unpack_data_def)
  moreover have "\<exists>bs. appends (dss_pack_buffer (Suc (Suc k)) e t v) bs ty \<and>
      fetches (dss_unpack_buffer (Suc (Suc k)) e t (int (vals_count v))) bs v ty"
    using t(4)
  proof (elim disjE conjE exE)
    assume "sys_ok f v"
    then show ?thesis using sys_buffer_codec [OF e t(3)] by blast
  next
    fix ns assume n: "f = F_name" "v = Names ns"
    with t(2) have "length ns < 2 ^ 31" by simp
    from name_codec [OF e this] obtain bs where
      "appends (odti_pack_fn e (dss_pack_buffer (Suc k) e) f v) bs ty"
      "fetches (odti_unpack_fn e (dss_unpack_buffer (Suc k) e) f (int (vals_count v))) bs v ty"
      unfolding n by fastforce
    from buffer_codec [OF e t(3) this] show ?thesis by blast
  qed
  ultimately show ?thesis using t(2) by simp
next
  case False
  then obtain bo where bo: "t = OPAL_BYTE_OBJECT" "v = Bos [bo]" "proper_object bo"
    using ok by (auto simp: value_ok_def split: vals.splits list.splits)
  have "OPAL_BYTE_OBJECT \<notin> set scalar_types" by (simp add: scalar_types_def type_codes)
  with bo have "pack_data e pb t v = pack_sized_bytes e bo"
      "unpack_data e ub t = (\<lambda>b. do { (ret, bo, b) \<leftarrow> unpack_sized_bytes e b; Some (ret, Bos [bo], b) })" for pb ub
    by (simp_all add: fun_eq_iff pack_data_def unpack_data_def)
  with bo(2) appends_sized [OF e bo(3)] fetches_map [OF fetches_sized [OF e bo(3)], of "\<lambda>bo. Bos [bo]"]
  show ?thesis by (intro exI [of _ "enc_object bo"]) simp
qed

lemma values_codec:
  assumes e: "env_ok e" and ok: "\<forall>x\<in>set vs. value_ok x"
  shows "\<exists>bs. appends (opal_dss_pack_value e (dss_pack_buffer (Suc (Suc k)) e) vs) bs ty \<and>
    fetches (unpack_values e (dss_unpack_buffer (Suc (Suc k)) e) (length vs)) bs vs ty"
  using ok
proof (induction vs)
  case Nil
  show ?case
    by (intro exI [of _ "[]"]) (auto simp: appends_def fetches_def buf_holds_def)
next
  case (Cons x vs)
  let ?pb = "dss_pack_buffer (Suc (Suc k)) e" and ?ub = "dss_unpack_buffer (Suc (Suc k)) e"
  obtain key t v where x: "x = (key, t, v)" by (cases x)
  obtain rs where rs: "appends (opal_dss_pack_value e ?pb vs) rs ty"
      "fetches (unpack_values e ?ub (length vs)) rs vs ty"
    using Cons by auto
  obtain ds where ds: "appends (pack_data e ?pb t v) ds ty" "fetches (unpack_data e ?ub t) ds v ty"
    using data_codec [OF e, of key t v k ty] Cons.prems x by auto
  have "fixed_ok F_byte (U8 [t] :: 'a vals)" by (simp add: fixed_ok_def)
  from fixed_buffer_codec [OF e type_table(1) this]
  obtain ts where ts: "appends (?pb OPAL_UINT8 (U8 [t])) ts ty" "fetches (?ub OPAL_UINT8 1) ts (U8 [t]) ty"
    by fastforce
  have key: "proper_strings [key]" using Cons.prems x by (auto simp: value_ok_def)
  have ks: "appends (opal_dss_pack_string e [key]) (enc_string key) ty"
      "fetches (opal_dss_unpack_string e 1) (enc_string key) [key] ty"
  proof -
    have "opal_dss_unpack_string e 1 = unpack_strings e (length [key])"
      by (simp add: fun_eq_iff opal_dss_unpack_string_def)
    then show "appends (opal_dss_pack_string e [key]) (enc_string key) ty"
        "fetches (opal_dss_unpack_string e 1) (enc_string key) [key] ty"
      using appends_string [OF e key, of ty] fetches_string [OF e key, of ty] by auto
  qed
  have "appends (opal_dss_pack_value e ?pb (x # vs)) (enc_string key @ ts @ ds @ rs) ty"
    unfolding x opal_dss_pack_value.simps opal_dss_pack_data_type_def OPAL_DATA_TYPE_T_def
    by (intro appends_seq ks(1) ts(1) ds(1) rs(1))
  moreover have "fetches (\<lambda>b. do { (ret, key, b) \<leftarrow> opal_dss_unpack_string e 1 b;
      if ret \<noteq> SUCCESS then Some (ret, [], b)
      else do { (ret, ts, b) \<leftarrow> ?ub OPAL_UINT8 1 b;
                if ret \<noteq> SUCCESS then Some (ret, [], b)
                else let t = (case ts of U8 (t # _) \<Rightarrow> t | _ \<Rightarrow> OPAL_UNDEF)
                     in do { (ret, v, b) \<leftarrow> unpack_data e ?ub t b;
                             if ret \<noteq> SUCCESS then Some (ret, [], b)
                             else do { (ret, vs, b) \<leftarrow> unpack_values e ?ub (length vs) b;
                                       Some (ret, (hd key, t, v) # vs, b) } } } })
      (enc_string key @ ts @ ds @ rs) ((key, t, v) # vs) ty"
  proof (rule fetches_bind [OF ks(2)], rule fetches_bind [OF ts(2)])
    show "fetches (\<lambda>b. let t = (case U8 [t] of U8 (t # _) \<Rightarrow> t | _ \<Rightarrow> OPAL_UNDEF)
                     in do { (ret, v, b) \<leftarrow> unpack_data e ?ub t b;
                             if ret \<noteq> SUCCESS then Some (ret, [], b)
                             else do { (ret, vs, b) \<leftarrow> unpack_values e ?ub (length vs) b;
                                       Some (ret, (hd [key], t, v) # vs, b) } }) (ds @ rs) ((key, t, v) # vs) ty"
      unfolding Let_def vals.case list.case list.sel
      by (rule fetches_bind [OF ds(2)]) (rule fetches_map [OF rs(2)])
  qed
  then have "fetches (unpack_values e ?ub (length (x # vs))) (enc_string key @ ts @ ds @ rs) (x # vs) ty"
    unfolding x
    by (rule fetches_cong [rotated])
      (use e in \<open>simp add: opal_dss_unpack_data_type_def OPAL_DATA_TYPE_T_def env_ok_def always_def cong: if_cong\<close>)
  ultimately show ?case by blast
qed

section \<open>Whole messages\<close>

definition packable :: "data_type \<Rightarrow> 'x vals \<Rightarrow> bool" where
  "packable t v \<longleftrightarrow> vals_count v < 2 ^ 31 \<and>
     (case map_of opal_dss_types t of
        Some f \<Rightarrow> sys_ok f v \<or>
          f = F_name \<and> (case v of Names _ \<Rightarrow> True | _ \<Rightarrow> False) \<or>
          f = F_value \<and> (case v of Values vs \<Rightarrow> \<forall>x\<in>set vs. value_ok x | _ \<Rightarrow> False)
      | None \<Rightarrow> False)"

lemma pack_buffer_codec:
  assumes e: "env_ok e" and ok: "packable t v"
  shows "\<exists>bs. appends (opal_dss_pack_buffer e t v) (type_prefix ty t @ bs) ty \<and>
    fetches (opal_dss_unpack_buffer e t (int (vals_count v))) (type_prefix ty t @ bs) v ty"
proof -
  obtain f where f: "map_of opal_dss_types t = Some f" using ok by (auto simp: packable_def split: option.splits)
  consider "sys_ok f v" | ns where "f = F_name" "v = Names ns" "length ns < 2 ^ 31"
    | vs where "f = F_value" "v = Values vs" "\<forall>x\<in>set vs. value_ok x"
    using ok f by (auto simp: packable_def split: option.splits vals.splits)
  then have "\<exists>bs. appends (odti_pack_fn e (dss_pack_buffer (Suc (Suc 0)) e) f v) bs ty \<and>
      fetches (odti_unpack_fn e (dss_unpack_buffer (Suc (Suc 0)) e) f (int (vals_count v))) bs v ty"
  proof cases
    case 1
    then show ?thesis using sys_codec [OF e] by blast
  next
    case 2
    from name_codec [OF e 2(3)] show ?thesis unfolding 2(1,2) by fastforce
  next
    case 3
    from values_codec [OF e 3(3), of 0 ty] fetches_stored [where con = Values] show ?thesis
      unfolding 3(1,2) odti_fns vals_count.simps nat_int by blast
  qed
  with buffer_codec [OF e f, of "Suc (Suc 0)" v _ ty] show ?thesis
    unfolding opal_dss_pack_buffer_def opal_dss_unpack_buffer_def numeral_3_eq_3 by blast
qed

lemma unpack_fetches:
  assumes ok: "vals_count v < 2 ^ 31" and f: "fetches (opal_dss_unpack_buffer e t (int (vals_count v))) cs v ty"
    and cap: "0 < cap" "int (vals_count v) \<le> cap"
  shows "fetches (opal_dss_unpack e t cap)
    (type_prefix ty OPAL_INT32 @ enc_words 4 [of_nat (vals_count v) :: 32 word] @ cs) (int (vals_count v), v) ty"
proof -
  let ?n = "int (vals_count v)" and ?cnt = "enc_words 4 [of_nat (vals_count v) :: 32 word]"
  have n: "sint (of_nat (vals_count v) :: 32 word) = ?n" using ok by (simp add: sint_of_nat32)
  have fin: "fetches (\<lambda>b. do { (rc, v, b) \<leftarrow> opal_dss_unpack_buffer e t ?n b;
      if rc \<noteq> SUCCESS then Some (rc, (0, v), b) else Some (SUCCESS, (?n, v), b) }) (cs @ []) (?n, v) ty"
    by (rule fetches_bind [OF f]) (rule fetches_return)
  have tail: "fetches (\<lambda>b. do { (rc, ns, b) \<leftarrow> opal_dss_unpack_int32 1 b;
      if rc \<noteq> SUCCESS then Some (rc, (0, U8 []), b)
      else let local_num = (if cap < sint (hd ns) then cap else sint (hd ns));
               ret = (if cap < sint (hd ns) then ERR_UNPACK_INADEQUATE_SPACE else SUCCESS)
           in do { (rc, v, b) \<leftarrow> opal_dss_unpack_buffer e t local_num b;
                   if rc \<noteq> SUCCESS then Some (rc, (0, v), b) else Some (ret, (local_num, v), b) } })
      (?cnt @ cs) (?n, v) ty"
    by (rule fetches_bind [OF fetches_int32]) (use fin n cap in \<open>simp_all add: Let_def cong: if_cong\<close>)
  have "fetches (\<lambda>b. if buf_type b = FULLY_DESC then opal_dss_get_data_type b else Some (SUCCESS, OPAL_INT32, b))
        (type_prefix ty OPAL_INT32) OPAL_INT32 ty"
    using fetches_data_type [of OPAL_INT32 ty] by (auto simp: type_prefix_def fetches_def buf_holds_def)
  then have "fetches (\<lambda>b. do { (rc, l, b) \<leftarrow>
        (if buf_type b = FULLY_DESC then opal_dss_get_data_type b else Some (SUCCESS, OPAL_INT32, b));
      if rc \<noteq> SUCCESS then Some (rc, (0, U8 []), b)
      else if l \<noteq> OPAL_INT32 then Some (ERR_UNPACK_FAILURE, (0, U8 []), b)
      else do { (rc, ns, b) \<leftarrow> opal_dss_unpack_int32 1 b;
                if rc \<noteq> SUCCESS then Some (rc, (0, U8 []), b)
                else let local_num = (if cap < sint (hd ns) then cap else sint (hd ns));
                         ret = (if cap < sint (hd ns) then ERR_UNPACK_INADEQUATE_SPACE else SUCCESS)
                     in do { (rc, v, b) \<leftarrow> opal_dss_unpack_buffer e t local_num b;
                             if rc \<noteq> SUCCESS then Some (rc, (0, v), b)
                             else Some (ret, (local_num, v), b) } } })
      (type_prefix ty OPAL_INT32 @ ?cnt @ cs) (?n, v) ty"
    by (rule fetches_bind) (use tail in simp)
  with cap(1) show ?thesis
    by (rule_tac fetches_cong) (simp_all add: opal_dss_unpack_def)
qed

text \<open>The bytes before the data of a message.\<close>

definition message_head :: "buffer_type \<Rightarrow> data_type \<Rightarrow> nat \<Rightarrow> byte list" where
  "message_head ty t n = type_prefix ty OPAL_INT32 @ enc_words 4 [of_nat n :: 32 word] @ type_prefix ty t"

text \<open>Packing into a buffer that may have no memory yet.\<close>

lemma pack_correct:
  assumes e: "env_ok e" and ok: "packable t v" and b: "buf_holds b D u" "buf_type b = ty"
  shows "\<exists>bs b'. opal_dss_pack e t v b = Some (SUCCESS, b') \<and> buf_holds b' (D @ bs) u \<and> buf_type b' = ty \<and>
    take (length (message_head ty t (vals_count v))) bs = message_head ty t (vals_count v) \<and>
    (\<forall>cap. 0 < cap \<longrightarrow> int (vals_count v) \<le> cap \<longrightarrow> fetches (opal_dss_unpack e t cap) bs (int (vals_count v), v) ty)"
proof -
  obtain ds where "appends (opal_dss_pack_buffer e t v) (type_prefix ty t @ ds) ty"
      "fetches (opal_dss_unpack_buffer e t (int (vals_count v))) (type_prefix ty t @ ds) v ty"
    using pack_buffer_codec [OF e ok] by blast
  moreover define cs where "cs = type_prefix ty t @ ds"
  ultimately have cs: "appends (opal_dss_pack_buffer e t v) cs ty"
      "fetches (opal_dss_unpack_buffer e t (int (vals_count v))) cs v ty" by simp_all
  let ?cnt = "enc_words 4 [of_nat (vals_count v) :: 32 word]"
  have ne: "?cnt \<noteq> []" using length_be [of 4 "unat (of_nat (vals_count v) :: 32 word)"] by (auto simp del: length_be)
  obtain b1 where 1: "(if buf_type b = FULLY_DESC then opal_dss_store_data_type e OPAL_INT32 b else Some (SUCCESS, b))
      = Some (SUCCESS, b1)" "buf_holds b1 (D @ type_prefix ty OPAL_INT32) u" "buf_type b1 = ty"
  proof (cases ty)
    case NON_DESC
    with b show ?thesis by (intro that [of b]) (simp_all add: type_prefix_def)
  next
    case FULLY_DESC
    have "[OPAL_INT32] \<noteq> []" by simp
    from pack_bytes_holds [OF e b(1) disjI1 [OF this]] obtain c where
      "pack_bytes e [OPAL_INT32] b = Some (SUCCESS, c)" "buf_holds c (D @ [OPAL_INT32]) u" "buf_type c = ty"
      using b(2) by auto
    with b FULLY_DESC show ?thesis
      by (intro that [of c]) (simp_all add: type_prefix_def opal_dss_store_data_type_def opal_dss_pack_byte_def)
  qed
  obtain b2 where 2: "opal_dss_pack_int32 e [of_nat (vals_count v)] b1 = Some (SUCCESS, b2)"
      "buf_holds b2 ((D @ type_prefix ty OPAL_INT32) @ ?cnt) u" "\<not> ptr_null b2" "buf_type b2 = ty"
    using pack_bytes_holds [OF e 1(2), of ?cnt] 1(3) ne unfolding opal_dss_pack_int32_def by metis
  obtain b3 where 3: "opal_dss_pack_buffer e t v b2 = Some (SUCCESS, b3)"
      "buf_holds b3 (((D @ type_prefix ty OPAL_INT32) @ ?cnt) @ cs) u" "buf_type b3 = ty"
    by (rule appendsD [OF cs(1) 2(2-4)])
  have "opal_dss_pack e t v b = Some (SUCCESS, b3)"
    unfolding opal_dss_pack_def 1(1) by (simp add: on_success_def 2(1) 3(1))
  moreover have "vals_count v < 2 ^ 31" using ok by (simp add: packable_def)
  ultimately show ?thesis
    using 3(2,3) unpack_fetches [OF _ cs(2)]
    by (intro exI [of _ "type_prefix ty OPAL_INT32 @ ?cnt @ cs"] exI [of _ b3]) (simp add: message_head_def cs_def)
qed

section \<open>Sequences of messages\<close>

text \<open>Packing a list of arrays, and unpacking with a list of types and capacities.\<close>

fun pack_all :: "'x dss_env \<Rightarrow> (data_type \<times> 'x vals) list \<Rightarrow> opal_buffer \<Rightarrow> (status \<times> opal_buffer) option" where
  "pack_all e [] b = Some (SUCCESS, b)"
| "pack_all e ((t, v) # ms) b = on_success (opal_dss_pack e t v b) (pack_all e ms)"

fun unpack_all ::
  "'x dss_env \<Rightarrow> (data_type \<times> int) list \<Rightarrow> opal_buffer \<Rightarrow> ((status \<times> int \<times> 'x vals) list \<times> opal_buffer) option" where
  "unpack_all e [] b = Some ([], b)"
| "unpack_all e ((t, cap) # ts) b =
     do { (rc, nv, b) \<leftarrow> opal_dss_unpack e t cap b;
          (rs, b) \<leftarrow> unpack_all e ts b;
          Some ((rc, nv) # rs, b) }"

lemma pack_all_correct:
  assumes e: "env_ok e" and "\<forall>(t, v)\<in>set ms. packable t v" and "buf_holds b D u" "buf_type b = ty"
  shows "\<exists>bs b'. pack_all e ms b = Some (SUCCESS, b') \<and> buf_holds b' (D @ bs) u \<and> buf_type b' = ty \<and>
    (\<forall>c E w rest caps. buf_holds c E w \<longrightarrow> buf_type c = ty \<longrightarrow> drop w E = bs @ rest \<longrightarrow>
       list_all2 (\<lambda>(t, v) cap. 0 < cap \<and> int (vals_count v) \<le> cap) ms caps \<longrightarrow>
       unpack_all e (zip (map fst ms) caps) c =
         Some (map (\<lambda>(t, v). (SUCCESS, int (vals_count v), v)) ms, c\<lparr>unpack_ptr := w + length bs\<rparr>))"
  using assms(2-)
proof (induction ms arbitrary: b D)
  case Nil
  then show ?case by (intro exI [of _ "[]"] exI [of _ b]) (auto simp: buf_holds_def)
next
  case (Cons m ms)
  obtain t v where m: "m = (t, v)" by (cases m)
  with Cons.prems have tv: "packable t v" and ms: "\<forall>(t, v)\<in>set ms. packable t v" by auto
  obtain as b1 where 1: "opal_dss_pack e t v b = Some (SUCCESS, b1)" "buf_holds b1 (D @ as) u" "buf_type b1 = ty"
      "\<And>cap. 0 < cap \<Longrightarrow> int (vals_count v) \<le> cap \<Longrightarrow> fetches (opal_dss_unpack e t cap) as (int (vals_count v), v) ty"
    using pack_correct [OF e tv Cons.prems(2,3)] by blast
  obtain bs b2 where 2: "pack_all e ms b1 = Some (SUCCESS, b2)" "buf_holds b2 ((D @ as) @ bs) u" "buf_type b2 = ty"
      "\<And>c E w rest caps. buf_holds c E w \<Longrightarrow> buf_type c = ty \<Longrightarrow> drop w E = bs @ rest \<Longrightarrow>
         list_all2 (\<lambda>(t, v) cap. 0 < cap \<and> int (vals_count v) \<le> cap) ms caps \<Longrightarrow>
         unpack_all e (zip (map fst ms) caps) c =
           Some (map (\<lambda>(t, v). (SUCCESS, int (vals_count v), v)) ms, c\<lparr>unpack_ptr := w + length bs\<rparr>)"
    using Cons.IH [OF ms 1(2,3)] by blast
  have "unpack_all e (zip (map fst (m # ms)) (cap # caps)) c =
      Some (map (\<lambda>(t, v). (SUCCESS, int (vals_count v), v)) (m # ms), c\<lparr>unpack_ptr := w + length (as @ bs)\<rparr>)"
    if c: "buf_holds c E w" "buf_type c = ty" "drop w E = (as @ bs) @ rest" and cap: "0 < cap" "int (vals_count v) \<le> cap"
      and caps: "list_all2 (\<lambda>(t, v) cap. 0 < cap \<and> int (vals_count v) \<le> cap) ms caps" for c E w rest cap caps
  proof -
    have d: "drop w E = as @ bs @ rest" using c(3) by simp
    have "opal_dss_unpack e t cap c = Some (SUCCESS, (int (vals_count v), v), c\<lparr>unpack_ptr := w + length as\<rparr>)"
      using 1(4) [OF cap] c(1,2) d unfolding fetches_def by blast
    moreover note 2(4) [OF advance_holds(1) [OF c(1) d] _ advance_holds(2) [OF c(1) d] caps]
    ultimately show ?thesis using c(2) by (simp add: m add.assoc)
  qed
  then have un: "\<forall>c E w rest caps. buf_holds c E w \<longrightarrow> buf_type c = ty \<longrightarrow> drop w E = (as @ bs) @ rest \<longrightarrow>
       list_all2 (\<lambda>(t, v) cap. 0 < cap \<and> int (vals_count v) \<le> cap) (m # ms) caps \<longrightarrow>
       unpack_all e (zip (map fst (m # ms)) caps) c =
         Some (map (\<lambda>(t, v). (SUCCESS, int (vals_count v), v)) (m # ms), c\<lparr>unpack_ptr := w + length (as @ bs)\<rparr>)"
    unfolding list_all2_Cons1 m by blast
  have pk: "pack_all e (m # ms) b = Some (SUCCESS, b2)" using 1(1) 2(1) by (simp add: m on_success_def)
  show ?case
    by (rule exI [of _ "as @ bs"], rule exI [of _ b2], intro conjI pk un 2(3)) (use 2(2) in simp)
qed

lemma construct_holds: "buf_holds (opal_buffer_construct ty) [] 0"
  by (simp add: buf_holds_def opal_buffer_construct_def)


definition example_env :: "unit dss_env" where
  "example_env = \<lparr>dss_mem = always, initial_size = 128, threshold_size = 1024, default_buf_type = NON_DESC,
     ext_pack = (\<lambda>_. None), ext_unpack = (\<lambda>_. None)\<rparr>"

definition example_message :: "(data_type \<times> unit vals) list" where
  "example_message = [(OPAL_INT32, U32 [7, 9]), (OPAL_STRING, Strs [Some [65, 66, 0], None]), (OPAL_BOOL, U8 [1]),
     (OPAL_NAME, Names [(3, 4)]), (OPAL_VALUE, Values [(Some [75, 0], OPAL_INT, U32 [5])])]"

lemma example_packable: "\<forall>(t, v)\<in>set example_message. packable t v"
  by (simp add: example_message_def packable_def opal_dss_types_def type_codes sys_ok_def fixed_ok_def
      proper_string_def value_ok_def scalar_ok_def scalar_types_def)

lemma example_env_ok: "env_ok example_env"
  by (simp add: env_ok_def example_env_def)


end
