(* ===== verification/Opal_Dss_Safety.thy ===== *)
theory Opal_Dss_Safety
  imports Opal_Dss_Laws
begin

text \<open>
  Unpacking from a buffer with arbitrary content, as it arrives from another process: the calls return, read
  within the packed bytes, store at most as many elements as the caller has room for, and on success store
  elements of the requested type.  Then the errors of unpacking, and the defects of values.
\<close>

section \<open>Reading arbitrary content\<close>

text \<open>
  \<open>reads c n Q f\<close>: on every well-formed buffer \<open>f\<close> returns, keeps the content, moves the unpack
  position forward within it, stores at most \<open>n\<close> elements, as counted by \<open>c\<close>, and if it succeeds the
  result satisfies \<open>Q\<close>.
\<close>

definition reads ::
  "('a \<Rightarrow> nat) \<Rightarrow> nat \<Rightarrow> ('a \<Rightarrow> bool) \<Rightarrow> (opal_buffer \<Rightarrow> (status \<times> 'a \<times> opal_buffer) option) \<Rightarrow> bool" where
  "reads c n Q f \<longleftrightarrow>
     (\<forall>b D u. buf_holds b D u \<longrightarrow>
        (\<exists>st x b' u'. f b = Some (st, x, b') \<and> buf_holds b' D u' \<and> u \<le> u' \<and> buf_type b' = buf_type b \<and>
           c x \<le> n \<and> (st = SUCCESS \<longrightarrow> Q x)))"

lemma readsD:
  assumes "reads c n Q f" "buf_holds b D u"
  obtains st x b' u' where "f b = Some (st, x, b')" "buf_holds b' D u'" "u \<le> u'" "buf_type b' = buf_type b"
    "c x \<le> n" "st = SUCCESS \<longrightarrow> Q x"
  using assms unfolding reads_def by blast

lemma readsI:
  assumes "\<And>b D u. buf_holds b D u \<Longrightarrow> \<exists>st x b' u'. f b = Some (st, x, b') \<and> buf_holds b' D u' \<and> u \<le> u' \<and>
    buf_type b' = buf_type b \<and> c x \<le> n \<and> (st = SUCCESS \<longrightarrow> Q x)"
  shows "reads c n Q f"
  using assms unfolding reads_def by blast

lemma reads_fail: "st \<noteq> SUCCESS \<Longrightarrow> c x \<le> n \<Longrightarrow> reads c n Q (\<lambda>b. Some (st, x, b))"
  by (fastforce simp: reads_def)

lemma reads_return: "c x \<le> n \<Longrightarrow> Q x \<Longrightarrow> reads c n Q (\<lambda>b. Some (st, x, b))"
  by (fastforce simp: reads_def)

lemma reads_if: "(P \<Longrightarrow> reads c n Q f) \<Longrightarrow> (\<not> P \<Longrightarrow> reads c n Q g) \<Longrightarrow> reads c n Q (\<lambda>b. if P then f b else g b)"
  by (cases P) simp_all

lemma reads_if_buf: "reads c n Q f \<Longrightarrow> reads c n Q g \<Longrightarrow> reads c n Q (\<lambda>b. if P b then f b else g b)"
  by (simp add: reads_def)

lemma reads_cong: "(\<And>b. f b = g b) \<Longrightarrow> reads c n Q g \<Longrightarrow> reads c n Q f"
  by (simp add: reads_def)

lemma reads_weaken: "reads c n Q f \<Longrightarrow> (\<And>x. c x \<le> n \<Longrightarrow> d x \<le> m) \<Longrightarrow> (\<And>x. Q x \<Longrightarrow> R x) \<Longrightarrow> reads d m R f"
  unfolding reads_def by blast

lemma reads_bind:
  assumes f: "reads c n Q f" and g: "\<And>x. Q x \<Longrightarrow> reads d m R (g x)" and err: "\<And>x. c x \<le> n \<Longrightarrow> d (h x) \<le> m"
  shows "reads d m R (\<lambda>b. do { (st, x, b) \<leftarrow> f b; if st \<noteq> SUCCESS then Some (st, h x, b) else g x b })"
proof (rule readsI)
  fix b D u
  assume "buf_holds b D u"
  with f obtain st x b1 u1 where 1: "f b = Some (st, x, b1)" "buf_holds b1 D u1" "u \<le> u1"
      "buf_type b1 = buf_type b" "c x \<le> n" "st = SUCCESS \<longrightarrow> Q x" by (rule readsD)
  show "\<exists>st y b' u'. (do { (st, x, b) \<leftarrow> f b; if st \<noteq> SUCCESS then Some (st, h x, b) else g x b })
      = Some (st, y, b') \<and> buf_holds b' D u' \<and> u \<le> u' \<and> buf_type b' = buf_type b \<and> d y \<le> m \<and>
      (st = SUCCESS \<longrightarrow> R y)"
  proof (cases "st = SUCCESS")
    case True
    obtain st' y b2 u2 where "g x b1 = Some (st', y, b2)" "buf_holds b2 D u2" "u1 \<le> u2"
        "buf_type b2 = buf_type b1" "d y \<le> m" "st' = SUCCESS \<longrightarrow> R y"
      by (rule readsD [OF g [OF mp [OF 1(6) True]] 1(2)])
    with 1 True show ?thesis by (intro exI [of _ st'] exI [of _ y] exI [of _ b2] exI [of _ u2]) auto
  next
    case False
    with 1 err show ?thesis by (intro exI [of _ st] exI [of _ "h x"] exI [of _ b1] exI [of _ u1]) auto
  qed
qed

lemma reads_map:
  assumes f: "reads c n Q f" and "\<And>x. c x \<le> n \<Longrightarrow> d (h x) \<le> m" "\<And>x. Q x \<Longrightarrow> R (h x)"
  shows "reads d m R (\<lambda>b. do { (st, x, b) \<leftarrow> f b; Some (st, h x, b) })"
proof (rule readsI)
  fix b D u
  assume "buf_holds b D u"
  with f obtain st x b1 u1 where 1: "f b = Some (st, x, b1)" "buf_holds b1 D u1" "u \<le> u1"
      "buf_type b1 = buf_type b" "c x \<le> n" "st = SUCCESS \<longrightarrow> Q x" by (rule readsD)
  with assms(2,3) show "\<exists>st y b' u'. (do { (st, x, b) \<leftarrow> f b; Some (st, h x, b) }) = Some (st, y, b') \<and>
      buf_holds b' D u' \<and> u \<le> u' \<and> buf_type b' = buf_type b \<and> d y \<le> m \<and> (st = SUCCESS \<longrightarrow> R y)"
    by (intro exI [of _ st] exI [of _ "h x"] exI [of _ b1] exI [of _ u1]) auto
qed

lemma reads_stored:
  assumes "reads c n Q f" "\<And>x. d (con x) = c x" "\<And>x. Q x \<Longrightarrow> R (con x)"
  shows "reads d n R (\<lambda>b. stored_as con (f b))"
  using reads_map [of c n Q f d con n R] assms
  by (simp add: stored_as_def map_conv_bind_option case_prod_unfold comp_def)

abbreviation counts :: "nat \<Rightarrow> 'a list \<Rightarrow> bool" where
  "counts n xs \<equiv> length xs = n"

lemma reads_get:
  assumes "k = sz * nat n" "n < 2 ^ 31" "0 < sz" "sz \<le> 16" "\<And>bs. length bs = k \<Longrightarrow> length (h bs) = nat n"
  shows "reads length (nat n) (counts (nat n))
    (\<lambda>b. if opal_dss_too_small b (bytes_reqd n (int sz)) then Some (ERR_UNPACK_READ_PAST_END_OF_BUFFER, [], b)
         else do { (bs, b) \<leftarrow> get_bytes k b; Some (SUCCESS, h bs, b) })"
proof (rule readsI)
  fix b D u
  assume b: "buf_holds b D u"
  show "\<exists>st x b' u'. (if opal_dss_too_small b (bytes_reqd n (int sz))
         then Some (ERR_UNPACK_READ_PAST_END_OF_BUFFER, [], b)
         else do { (bs, b) \<leftarrow> get_bytes k b; Some (SUCCESS, h bs, b) }) = Some (st, x, b') \<and> buf_holds b' D u' \<and>
       u \<le> u' \<and> buf_type b' = buf_type b \<and> length x \<le> nat n \<and> (st = SUCCESS \<longrightarrow> counts (nat n) x)"
  proof (cases "opal_dss_too_small b (bytes_reqd n (int sz))")
    case True
    with b show ?thesis
      by (intro exI [of _ ERR_UNPACK_READ_PAST_END_OF_BUFFER] exI [of _ "[]"] exI [of _ b] exI [of _ u]) simp
  next
    case False
    have k: "k \<le> length D - u"
    proof (cases "0 \<le> n")
      case True
      have "n * int sz \<le> n * 16" using True assms(4) by (intro mult_left_mono) auto
      then have "n * int sz < 2 ^ 64" using assms(2) by simp
      with True assms(1) have "bytes_reqd n (int sz) = int k" by (simp add: bytes_reqd_def mult.commute)
      moreover have "pack_ptr b = length D" "unpack_ptr b = u" using b by (simp_all add: buf_holds_def)
      ultimately show ?thesis using False by (simp add: opal_dss_too_small_def)
    qed (use assms(1) in simp)
    define bs where "bs = take k (drop u D)"
    have bs: "length bs = k" "drop u D = bs @ drop k (drop u D)" using k by (simp_all add: bs_def del: drop_drop)
    from get_bytes_holds [OF b bs(2)] bs(1) have "get_bytes k b = Some (bs, b\<lparr>unpack_ptr := u + k\<rparr>)" by simp
    with False advance_holds(1) [OF b bs(2)] bs(1) assms(5) [OF bs(1)] show ?thesis
      by (intro exI [of _ SUCCESS] exI [of _ "h bs"] exI [of _ "b\<lparr>unpack_ptr := u + k\<rparr>"] exI [of _ "u + k"]) simp
  qed
qed

lemma reads_byte: "n < 2 ^ 31 \<Longrightarrow> reads length (nat n) (counts (nat n)) (opal_dss_unpack_byte n)"
  using reads_get [of "nat n" 1 n "\<lambda>bs. bs"] by (simp add: opal_dss_unpack_byte_def [abs_def])

lemma reads_words:
  assumes "n < 2 ^ 31" "0 < k" "k \<le> 16"
  shows "reads length (nat n) (counts (nat n)) (unpack_words k n)"
  using reads_get [of "k * nat n" k n "words_at k (nat n)"] assms
  by (simp add: unpack_words_def [abs_def] words_at_def)

lemma reads_int32: "n < 2 ^ 31 \<Longrightarrow> reads length (nat n) (counts (nat n)) (opal_dss_unpack_int32 n)"
  unfolding opal_dss_unpack_int32_def by (rule reads_words) simp_all

lemma reads_int64: "n < 2 ^ 31 \<Longrightarrow> reads length (nat n) (counts (nat n)) (opal_dss_unpack_int64 n)"
  unfolding opal_dss_unpack_int64_def by (rule reads_words) simp_all

lemma sint_bound: "sint (w :: 32 word) < 2 ^ 31"
  using sint_lt [of w] by simp

lemma reads_strings: "reads length n (counts n) (unpack_strings e n)"
proof (induction n)
  case 0
  show ?case by (rule reads_cong [OF unpack_strings.simps(1)]) (simp add: reads_return)
next
  case (Suc n)
  show ?case
    by (rule reads_cong [OF unpack_strings.simps(2)], unfold Let_def)
      (intro reads_bind [OF reads_int32] reads_bind [OF reads_byte] reads_if reads_map [OF Suc] reads_fail sint_bound;
        simp)
qed

lemma reads_timevals: "reads length n (counts n) (unpack_timevals n)"
proof (induction n)
  case 0
  show ?case by (rule reads_cong [OF unpack_timevals.simps(1)]) (simp add: reads_return)
next
  case (Suc n)
  show ?case
    by (rule reads_cong [OF unpack_timevals.simps(2)])
      (intro reads_bind [OF reads_int64] reads_map [OF Suc]; simp)
qed

lemma reads_times: "reads length n (counts n) (unpack_times n)"
proof (induction n)
  case 0
  show ?case by (rule reads_cong [OF unpack_times.simps(1)]) (simp add: reads_return)
next
  case (Suc n)
  show ?case
    by (rule reads_cong [OF unpack_times.simps(2)])
      (intro reads_bind [OF reads_int64] reads_map [OF Suc]; simp)
qed

lemma reads_sized_bytes: "reads (\<lambda>_. 1) 1 (\<lambda>_. True) (unpack_sized_bytes e)"
  by (rule reads_cong [OF unpack_sized_bytes_def])
    (intro reads_bind [OF reads_int32] reads_map [OF reads_byte] reads_if reads_fail reads_return sint_bound; simp)

lemma reads_byte_objects: "reads length n (counts n) (unpack_byte_objects e n)"
proof (induction n)
  case 0
  show ?case by (rule reads_cong [OF unpack_byte_objects.simps(1)]) (simp add: reads_return)
next
  case (Suc n)
  show ?case
    by (rule reads_cong [OF unpack_byte_objects.simps(2)])
      (intro reads_bind [OF reads_sized_bytes] reads_if reads_map [OF Suc] reads_fail; simp)
qed

section \<open>The types of what is unpacked\<close>

fun type_ok :: "dss_fn \<Rightarrow> 'x vals \<Rightarrow> bool" where
  "type_ok f (U8 _) \<longleftrightarrow> f \<in> {F_null, F_byte, F_bool, F_data_type}"
| "type_ok f (U16 _) \<longleftrightarrow> f = F_int16"
| "type_ok f (U32 _) \<longleftrightarrow> f \<in> {F_int32, F_int, F_pid, F_jobid, F_vpid}"
| "type_ok f (U64 _) \<longleftrightarrow> f \<in> {F_int64, F_sizet, F_time}"
| "type_ok f (Strs _) \<longleftrightarrow> f = F_string"
| "type_ok f (Tvs _) \<longleftrightarrow> f = F_timeval"
| "type_ok f (Bos _) \<longleftrightarrow> f = F_byte_object"
| "type_ok f (Names _) \<longleftrightarrow> f = F_name"
| "type_ok f (Bufs _) \<longleftrightarrow> f = F_buffer"
| "type_ok f (Values _) \<longleftrightarrow> f = F_value"
| "type_ok f (Ext _) \<longleftrightarrow> False"

abbreviation typed :: "dss_fn \<Rightarrow> nat \<Rightarrow> 'x vals \<Rightarrow> bool" where
  "typed f n v \<equiv> vals_count v = n \<and> type_ok f v"

definition plain_fns :: "dss_fn set" where
  "plain_fns = {F_null, F_byte, F_int16, F_int32, F_int64, F_string, F_timeval, F_time, F_byte_object}"

lemma reads_plain:
  assumes "f \<in> plain_fns" "n < 2 ^ 31"
  shows "reads vals_count (nat n) (typed f (nat n)) (odti_unpack_fn e ub f n)"
proof -
  have "reads length (nat n) (counts (nat n)) (opal_dss_unpack_timeval n)"
    unfolding opal_dss_unpack_timeval_def [abs_def]
    by (intro reads_if_buf reads_fail reads_timevals) simp_all
  moreover have "reads length (nat n) (counts (nat n)) (opal_dss_unpack_time n)"
    unfolding opal_dss_unpack_time_def [abs_def]
    by (intro reads_if_buf reads_fail reads_times) simp_all
  moreover have "reads length (nat n) (counts (nat n)) (opal_dss_unpack_int16 n)"
    unfolding opal_dss_unpack_int16_def using assms(2) by (rule reads_words) simp_all
  ultimately show ?thesis
    using assms reads_byte reads_int32 reads_int64
    unfolding plain_fns_def odti_unpack_fn_def [abs_def] opal_dss_unpack_null_def
      opal_dss_unpack_string_def opal_dss_unpack_byte_object_def
    by (auto intro!: reads_stored [where c = length and Q = "counts (nat n)"] reads_strings reads_byte_objects)
qed

lemma reads_data_type: "reads (\<lambda>_. 0) 0 (\<lambda>_. True) opal_dss_get_data_type"
proof -
  have "reads (\<lambda>_. 0) 0 (\<lambda>_. True) (\<lambda>b. do { (ret, ts, b) \<leftarrow> opal_dss_unpack_byte 1 b;
      if ret \<noteq> SUCCESS then Some (ret, OPAL_UNDEF, b) else Some (SUCCESS, hd ts, b) })"
    by (rule reads_bind [OF reads_byte]) (simp_all add: reads_return)
  moreover have "opal_dss_get_data_type = (\<lambda>b. do { (ret, ts, b) \<leftarrow> opal_dss_unpack_byte 1 b;
      if ret \<noteq> SUCCESS then Some (ret, OPAL_UNDEF, b) else Some (SUCCESS, hd ts, b) })"
    by (auto simp: fun_eq_iff opal_dss_get_data_type_def intro!: bind_option_cong)
  ultimately show ?thesis by simp
qed

lemma reads_peek_type:
  "reads (\<lambda>_. 0) 0 (\<lambda>_. True) (\<lambda>b. do { (ret, t) \<leftarrow> opal_dss_peek_type b; Some (ret, t, b) })"
proof (rule readsI)
  fix b D u
  assume b: "buf_holds b D u"
  from reads_data_type b obtain st t b' where "opal_dss_get_data_type b = Some (st, t, b')" by (rule readsD)
  with b show "\<exists>st x b' u'. (do { (ret, t) \<leftarrow> opal_dss_peek_type b; Some (ret, t, b) }) = Some (st, x, b') \<and>
      buf_holds b' D u' \<and> u \<le> u' \<and> buf_type b' = buf_type b \<and> 0 \<le> (0 :: nat) \<and> (st = SUCCESS \<longrightarrow> True)"
    by (auto simp: opal_dss_peek_type_def)
qed

text \<open>A tagged type, with the tag checked in a fully described buffer.\<close>

lemma reads_buffer:
  assumes t: "map_of opal_dss_types t = Some f"
    and f: "reads vals_count m (typed f m) (odti_unpack_fn e (dss_unpack_buffer k e) f n)"
  shows "reads vals_count m (typed f m) (dss_unpack_buffer (Suc k) e t n)"
proof -
  have "reads (\<lambda>_. 0) 0 (\<lambda>_. True) (\<lambda>b. if buf_type b = FULLY_DESC then opal_dss_get_data_type b else Some (SUCCESS, t, b))"
    by (intro reads_if_buf reads_data_type reads_return) simp_all
  then show ?thesis
    by (rule_tac reads_cong [OF dss_unpack_buffer.simps(2)], rule_tac reads_bind)
      (simp_all add: t f reads_if reads_fail)
qed

lemma plain_table:
  "map_of opal_dss_types OPAL_UINT8 = Some F_byte" "map_of opal_dss_types OPAL_INT8 = Some F_byte"
  "map_of opal_dss_types OPAL_UINT16 = Some F_int16" "map_of opal_dss_types OPAL_INT16 = Some F_int16"
  "map_of opal_dss_types OPAL_INT64 = Some F_int64"
  by (simp_all add: opal_dss_types_def type_codes)

lemma int_types_plain:
  assumes "map_of int_types t = Some k"
  shows "\<exists>f. map_of opal_dss_types t = Some f \<and> f \<in> {F_byte, F_int16, F_int32, F_int64}"
proof -
  have "t \<in> {OPAL_UINT8, OPAL_INT8, OPAL_UINT16, OPAL_INT16, OPAL_UINT32, OPAL_INT32, OPAL_UINT64, OPAL_INT64}"
    using map_of_SomeD [OF assms] by (auto simp: int_types_def)
  then show ?thesis by (auto simp: plain_table)
qed

lemma elements_count: "type_ok f v \<Longrightarrow> f \<in> {F_byte, F_int16, F_int32, F_int64} \<Longrightarrow> length (elements t v) = vals_count v"
  by (cases v) (auto simp: elements_def)

lemma elements_le: "length (elements t v) \<le> vals_count v"
  by (cases v) (auto simp: elements_def)

text \<open>The generic types; a mismatched size allocates without a check.\<close>

lemma reads_plain_buffer:
  assumes "map_of opal_dss_types t = Some f" "f \<in> plain_fns" "n < 2 ^ 31"
  shows "reads vals_count (nat n) (typed f (nat n)) (dss_unpack_buffer (Suc k) e t n)"
  using assms by (intro reads_buffer reads_plain)

lemma reads_mismatch:
  assumes mem: "\<And>s. dss_mem e s" and n: "n < 2 ^ 31"
    and conv: "\<And>xs. vals_count (conv xs) = length xs" "\<And>xs. type_ok f (conv xs)"
  shows "reads vals_count (nat n) (typed f (nat n)) (unpack_size_mismatch e (dss_unpack_buffer (Suc k) e) conv t n)"
proof (cases "map_of int_types t")
  case None
  show ?thesis by (rule reads_cong [OF unpack_size_mismatch_def]) (simp add: None conv reads_fail)
next
  case (Some sz)
  obtain g where g: "map_of opal_dss_types t = Some g" "g \<in> {F_byte, F_int16, F_int32, F_int64}"
    using int_types_plain [OF Some] by blast
  then have "g \<in> plain_fns" by (auto simp: plain_fns_def)
  from reads_plain_buffer [OF g(1) this n]
  have "reads vals_count (nat n) (typed f (nat n)) (\<lambda>b. do { (ret, v, b) \<leftarrow> dss_unpack_buffer (Suc k) e t n b;
      Some (ret, conv (elements t v), b) })"
    by (rule reads_map) (auto simp: conv elements_count [OF _ g(2)] intro: le_trans [OF elements_le])
  then show ?thesis by (rule_tac reads_cong [OF unpack_size_mismatch_def]) (simp add: Some malloc_int_def mem)
qed

lemma reads_described:
  assumes mem: "\<And>s. dss_mem e s" and n: "n < 2 ^ 31"
    and conv: "\<And>xs. vals_count (conv xs) = length xs" "\<And>xs. type_ok f (conv xs)"
    and real: "map_of opal_dss_types real = Some g" "g \<in> plain_fns" "\<And>v :: 'x vals. type_ok g v \<Longrightarrow> type_ok f v"
  shows "reads vals_count (nat n) (typed f (nat n)) (unpack_described (e :: 'x dss_env) (dss_unpack_buffer (Suc k) e) real conv n)"
proof -
  have "reads (\<lambda>_. 0) 0 (\<lambda>_. True) (\<lambda>b. if buf_type b = FULLY_DESC
      then do { (ret, t) \<leftarrow> opal_dss_peek_type b; Some (ret, t, b) } else opal_dss_get_data_type b)"
    by (intro reads_if_buf reads_peek_type reads_data_type)
  moreover have "reads vals_count (nat n) (typed f (nat n)) (dss_unpack_buffer (Suc k) e real n)"
    using reads_plain_buffer [OF real(1,2) n] by (rule reads_weaken) (use real(3) in auto)
  ultimately show ?thesis
    by (rule_tac reads_cong [OF unpack_described_def], rule_tac reads_bind)
      (simp_all add: reads_if reads_mismatch [OF mem n conv] conv)
qed

lemmas generic_types = DSS_TYPE_BOOL_def DSS_TYPE_INT_def DSS_TYPE_PID_T_def DSS_TYPE_SIZE_T_def

lemma reads_generic:
  assumes mem: "\<And>s. dss_mem e s" and n: "n < 2 ^ 31" and f: "f \<in> {F_bool, F_int, F_sizet, F_pid}"
  shows "reads vals_count (nat n) (typed f (nat n)) (odti_unpack_fn e (dss_unpack_buffer (Suc k) e) f n)"
proof -
  have ty: "type_ok F_byte v \<Longrightarrow> type_ok F_bool v" "type_ok F_int32 v \<Longrightarrow> type_ok F_int v"
    "type_ok F_int32 v \<Longrightarrow> type_ok F_pid v" "type_ok F_int64 v \<Longrightarrow> type_ok F_sizet v" for v :: "'a vals"
    by (cases v; simp)+
  show ?thesis
    using f ty
    by (auto simp: odti_unpack_fn_def [abs_def] opal_dss_unpack_bool_def opal_dss_unpack_int_def
        opal_dss_unpack_sizet_def opal_dss_unpack_pid_def generic_types plain_fns_def
        intro!: reads_described [OF mem n])
qed

lemma reads_ids:
  assumes n: "n < 2 ^ 31" and f: "f \<in> {F_data_type, F_jobid, F_vpid}"
  shows "reads vals_count (nat n) (typed f (nat n)) (odti_unpack_fn e (dss_unpack_buffer (Suc k) e) f n)"
proof -
  have "type_ok F_byte v \<Longrightarrow> type_ok F_data_type v" "type_ok F_int32 v \<Longrightarrow> type_ok F_jobid v"
    "type_ok F_int32 v \<Longrightarrow> type_ok F_vpid v" for v :: "'a vals"
    by (cases v; simp)+
  then show ?thesis
    using f reads_plain_buffer [of OPAL_UINT8 F_byte n k e] reads_plain_buffer [of OPAL_UINT32 F_int32 n k e] n
    by (auto simp: odti_unpack_fn_def [abs_def] opal_dss_unpack_data_type_def opal_dss_unpack_jobid_def
        opal_dss_unpack_vpid_def OPAL_DATA_TYPE_T_def OPAL_JOBID_T_def OPAL_VPID_T_def plain_fns_def
        elim!: reads_weaken)
qed

lemma reads_name:
  assumes n: "n < 2 ^ 31"
  shows "reads vals_count (nat n) (typed F_name (nat n)) (odti_unpack_fn e (dss_unpack_buffer (Suc k) e) F_name n)"
proof -
  let ?ub = "dss_unpack_buffer (Suc k) e"
  have ids: "reads vals_count (nat n) (\<lambda>v. length (u32s v) = nat n) (?ub OPAL_UINT32 n)"
  proof (rule reads_weaken [OF reads_plain_buffer [of OPAL_UINT32 F_int32]])
    fix v :: "'a vals"
    assume "typed F_int32 (nat n) v"
    then show "length (u32s v) = nat n" by (cases v) auto
  qed (use n in \<open>auto simp: plain_fns_def\<close>)
  have "reads length (nat n) (counts (nat n)) (opal_dss_unpack_name e ?ub n)"
    by (rule reads_cong [OF opal_dss_unpack_name_def],
        unfold opal_dss_unpack_jobid_def opal_dss_unpack_vpid_def OPAL_JOBID_T_def OPAL_VPID_T_def)
      (intro reads_if reads_bind [OF ids] reads_fail reads_return; simp)
  then show ?thesis
    by (auto simp: odti_unpack_fn_def [abs_def] intro: reads_stored)
qed

lemma reads_buffers:
  assumes mem: "\<And>s. dss_mem e s"
  shows "reads length n (counts n) (unpack_buffers e (dss_unpack_buffer (Suc k) e) n)"
proof (induction n)
  case 0
  show ?case by (rule reads_cong [OF unpack_buffers.simps(1)]) (simp add: reads_return)
next
  case (Suc n)
  have sizet: "reads vals_count 1 (\<lambda>_. True) (opal_dss_unpack_sizet e (dss_unpack_buffer (Suc k) e) 1)"
    using reads_generic [of e 1 F_sizet k] mem
    by (auto simp: odti_unpack_fn_def [abs_def] elim!: reads_weaken)
  have bytes: "reads (\<lambda>_. 0) 0 (\<lambda>_. True) (\<lambda>b. if 0 < nbytes then opal_dss_unpack_byte (sint (ucast nbytes :: 32 word)) b
      else Some (SUCCESS, [], b))" for nbytes :: "64 word"
    by (intro reads_if reads_return reads_weaken [OF reads_byte [OF sint_bound]]) simp_all
  show ?case
    by (rule reads_cong [OF unpack_buffers.simps(2)], unfold Let_def)
      (simp only: mem not_True_eq_False if_False simp_thms,
        intro reads_bind [OF sizet] reads_bind [OF bytes] reads_map [OF Suc]; simp)
qed

text \<open>Every registered type but that of values.\<close>

definition generic_fns :: "dss_fn set" where
  "generic_fns = {F_bool, F_int, F_sizet, F_pid, F_buffer}"

lemma reads_fn:
  assumes "n < 2 ^ 31" "f \<noteq> F_value" "f \<in> generic_fns \<Longrightarrow> \<forall>s. dss_mem e s"
  shows "reads vals_count (nat n) (typed f (nat n)) (odti_unpack_fn e (dss_unpack_buffer (Suc k) e) f n)"
proof -
  consider "f \<in> plain_fns" | "f \<in> {F_bool, F_int, F_sizet, F_pid}" | "f \<in> {F_data_type, F_jobid, F_vpid}"
    | "f = F_name" | "f = F_buffer"
    using assms(2) by (cases f) (auto simp: plain_fns_def)
  then show ?thesis
  proof cases
    case 5
    have "reads length (nat n) (counts (nat n)) (unpack_buffers e (dss_unpack_buffer (Suc k) e) (nat n))"
      by (rule reads_buffers) (use assms(3) 5 in \<open>simp add: generic_fns_def\<close>)
    then show ?thesis
      unfolding 5 odti_unpack_fn_def [abs_def] opal_dss_unpack_buffer_contents_def dss_fn.case
      by (rule reads_stored) simp_all
  qed (use assms in \<open>auto simp: generic_fns_def intro: reads_plain reads_generic reads_ids reads_name\<close>)
qed

lemma reads_unpack:
  assumes t: "map_of opal_dss_types t = Some f" and f: "f \<noteq> F_value" "f \<in> generic_fns \<Longrightarrow> \<forall>s. dss_mem e s"
  shows "reads (\<lambda>(n, v). vals_count v) (nat cap) (\<lambda>(n, v). n \<le> cap \<and> typed f (nat n) v) (opal_dss_unpack e t cap)"
proof -
  have ty: "reads (\<lambda>_. 0) 0 (\<lambda>_. True)
      (\<lambda>b. if buf_type b = FULLY_DESC then opal_dss_get_data_type b else Some (SUCCESS, OPAL_INT32, b))"
    by (intro reads_if_buf reads_data_type reads_return) simp_all
  have data: "reads vals_count (nat n) (typed f (nat n)) (opal_dss_unpack_buffer e t n)" if "n < 2 ^ 31" for n
    unfolding opal_dss_unpack_buffer_def numeral_3_eq_3
    by (rule reads_buffer [OF t reads_fn]) (use that f in auto)
  have cap: "(if cap < sint (w :: 32 word) then cap else sint w) < 2 ^ 31"
      "(if cap < sint w then cap else sint w) \<le> cap" for w
    using sint_bound [of w] by auto
  show ?thesis
    by (rule reads_cong [OF opal_dss_unpack_def], unfold Let_def)
      (intro reads_if reads_fail reads_bind [OF ty] reads_bind [OF reads_int32] reads_bind [OF data] reads_return cap;
        use cap(2) in \<open>force intro: le_trans nat_mono\<close>)
qed

section \<open>Properties of unpacking\<close>

text \<open>
  C11: whatever a buffer holds, unpacking any registered type but the value type returns.  It reads within
  the packed bytes, leaves them as they are, moves the unpack position only forward, and stores at most as
  many elements as the caller has room for.  The generic types and buffers need that memory is available,
  since their allocations are not checked.
\<close>

theorem unpack_safe:
  assumes "buf_holds b D u" "map_of opal_dss_types t = Some f" "f \<noteq> F_value"
    and "f \<in> generic_fns \<longrightarrow> (\<forall>s. dss_mem e s)"
  shows "\<exists>st n v b' u'. opal_dss_unpack e t cap b = Some (st, (n, v), b') \<and> buf_holds b' D u' \<and> u \<le> u' \<and>
    vals_count v \<le> nat cap"
proof -
  have "reads (\<lambda>(n, v). vals_count v) (nat cap) (\<lambda>(n, v). n \<le> cap \<and> typed f (nat n) v) (opal_dss_unpack e t cap)"
    using assms(2-) by (intro reads_unpack) auto
  then obtain st x b' u' where "opal_dss_unpack e t cap b = Some (st, x, b')" "buf_holds b' D u'" "u \<le> u'"
      "(case x of (n, v) \<Rightarrow> vals_count v) \<le> nat cap"
    using assms(1) by (rule readsD)
  then show ?thesis by (cases x) auto
qed

definition hostile_buffer :: opal_buffer where
  "hostile_buffer = \<lparr>buf_type = NON_DESC, base_null = False, ptr_null = False,
     buf_block = map Some [0, 0, 0, 2, 127, 255, 255, 255, 1], pack_ptr = 9, unpack_ptr = 0,
     bytes_allocated = 9, bytes_used = 9\<rparr>"

theorem unpack_safe_witness:
  "\<exists>st n v b' u'. opal_dss_unpack example_env OPAL_STRING 1 hostile_buffer = Some (st, (n, v), b') \<and>
    buf_holds b' [0, 0, 0, 2, 127, 255, 255, 255, 1] u' \<and> 0 \<le> u' \<and> vals_count v \<le> nat 1"
  by (rule unpack_safe [of _ _ _ _ F_string])
    (simp_all add: buf_holds_def hostile_buffer_def opal_dss_types_def type_codes generic_fns_def)


definition int16_buffer :: opal_buffer where
  "int16_buffer = \<lparr>buf_type = NON_DESC, base_null = False, ptr_null = False,
     buf_block = map Some [0, 0, 0, 1, 1, 2], pack_ptr = 6, unpack_ptr = 0, bytes_allocated = 6, bytes_used = 6\<rparr>"


section \<open>Described buffers\<close>

lemma head_fetched:
  assumes b: "buf_holds b D u" "buf_type b = FULLY_DESC" and D: "drop u D = message_head FULLY_DESC t n @ rest"
    and n: "n < 2 ^ 31"
  shows "\<exists>b1 b2. opal_dss_get_data_type b = Some (SUCCESS, OPAL_INT32, b1) \<and>
    opal_dss_unpack_int32 1 b1 = Some (SUCCESS, [of_nat n], b2) \<and> buf_type b2 = FULLY_DESC \<and>
    opal_dss_get_data_type b2 = Some (SUCCESS, t, b\<lparr>unpack_ptr := u + 6\<rparr>)"
proof -
  let ?n = "enc_words 4 [of_nat n :: 32 word]" and ?b1 = "b\<lparr>unpack_ptr := u + 1\<rparr>" and ?b2 = "b\<lparr>unpack_ptr := u + 5\<rparr>"
  have 0: "drop u D = [OPAL_INT32] @ (?n @ [t] @ rest)"
    using D by (simp add: message_head_def type_prefix_def)
  have b1: "buf_holds ?b1 D (u + 1)" "drop (u + 1) D = ?n @ ([t] @ rest)"
    using advance_holds [OF b(1) 0] by simp_all
  have b2: "buf_holds ?b2 D (u + 5)" "drop (u + 5) D = [t] @ rest"
    using advance_holds [OF b1] by (simp_all add: add.commute)
  have "opal_dss_get_data_type b = Some (SUCCESS, OPAL_INT32, ?b1)"
    using fetches_data_type [of OPAL_INT32 FULLY_DESC] b 0 unfolding fetches_def by fastforce
  moreover have "opal_dss_unpack_int32 1 ?b1 = Some (SUCCESS, [of_nat n], ?b2)"
    using fetches_int32 [of "[of_nat n]" 1 FULLY_DESC] b(2) b1 unfolding fetches_def
    by (simp add: add.commute)
  moreover have "opal_dss_get_data_type ?b2 = Some (SUCCESS, t, b\<lparr>unpack_ptr := u + 6\<rparr>)"
    using fetches_data_type [of t FULLY_DESC] b(2) b2 unfolding fetches_def by (simp add: add.commute)
  ultimately show ?thesis using b(2) by auto
qed

lemma packed_head:
  assumes e: "env_ok e" and ok: "packable t v"
  obtains b D rest where "opal_dss_pack e t v (opal_buffer_construct FULLY_DESC) = Some (SUCCESS, b)"
    "buf_holds b D 0" "buf_type b = FULLY_DESC" "D = message_head FULLY_DESC t (vals_count v) @ rest"
proof -
  let ?h = "message_head FULLY_DESC t (vals_count v)"
  have ty: "buf_type (opal_buffer_construct FULLY_DESC) = FULLY_DESC" by (simp add: opal_buffer_construct_def)
  obtain bs b where "opal_dss_pack e t v (opal_buffer_construct FULLY_DESC) = Some (SUCCESS, b)"
      "buf_holds b ([] @ bs) 0" "buf_type b = FULLY_DESC" "take (length ?h) bs = ?h"
    using pack_correct [OF e ok construct_holds ty] by blast
  then show thesis using append_take_drop_id [of "length ?h" bs] by (intro that [of b bs "drop (length ?h) bs"]) simp_all
qed

text \<open>
  C32: peeking into a described buffer after a pack reports the type and the count of what was packed.
\<close>

theorem peek_packed:
  assumes "env_ok e" "packable t v"
  shows "\<exists>b. opal_dss_pack e t v (opal_buffer_construct FULLY_DESC) = Some (SUCCESS, b) \<and>
    opal_dss_peek b = Some (SUCCESS, t, int (vals_count v))"
proof -
  obtain b D rest where b: "opal_dss_pack e t v (opal_buffer_construct FULLY_DESC) = Some (SUCCESS, b)"
      "buf_holds b D 0" "buf_type b = FULLY_DESC" "D = message_head FULLY_DESC t (vals_count v) @ rest"
    using assms by (rule packed_head)
  have n: "vals_count v < 2 ^ 31" using assms(2) by (simp add: packable_def)
  have "D \<noteq> []" using b(4) by (simp add: message_head_def type_prefix_def)
  then have more: "\<not> at_end b" using b(2) by (auto simp: at_end_def buf_holds_def)
  from b(4) have "drop 0 D = message_head FULLY_DESC t (vals_count v) @ rest" by simp
  from head_fetched [OF b(2,3) this n] more b(3) n have "opal_dss_peek b = Some (SUCCESS, t, int (vals_count v))"
    by (auto simp: opal_dss_peek_def sint_of_nat32)
  with b(1) show ?thesis by blast
qed

theorem peek_packed_witness:
  "\<exists>b. opal_dss_pack example_env OPAL_INT32 (U32 [7, 9]) (opal_buffer_construct FULLY_DESC) = Some (SUCCESS, b) \<and>
    opal_dss_peek b = Some (SUCCESS, OPAL_INT32, int (vals_count (U32 [7, 9] :: unit vals)))"
  by (rule peek_packed [OF example_env_ok])
    (use example_packable in \<open>simp add: example_message_def\<close>)

text \<open>
  C31: unpacking a described buffer as another type than was packed is refused: the call returns the
  mismatch, reports no values and stores none.
\<close>

theorem unpack_mismatch:
  assumes "env_ok e" "packable t v" "t' \<noteq> t" "cap \<noteq> 0"
  shows "\<exists>b. opal_dss_pack e t v (opal_buffer_construct FULLY_DESC) = Some (SUCCESS, b) \<and>
    opal_dss_unpack e t' cap b = Some (ERR_PACK_MISMATCH, (0, U8 []), b\<lparr>unpack_ptr := 6\<rparr>)"
proof -
  obtain b D rest where b: "opal_dss_pack e t v (opal_buffer_construct FULLY_DESC) = Some (SUCCESS, b)"
      "buf_holds b D 0" "buf_type b = FULLY_DESC" "D = message_head FULLY_DESC t (vals_count v) @ rest"
    using assms(1,2) by (rule packed_head)
  have n: "vals_count v < 2 ^ 31" using assms(2) by (simp add: packable_def)
  from b(4) have "drop 0 D = message_head FULLY_DESC t (vals_count v) @ rest" by simp
  from head_fetched [OF b(2,3) this n] assms(3,4) b(3)
  have "opal_dss_unpack e t' cap b = Some (ERR_PACK_MISMATCH, (0, U8 []), b\<lparr>unpack_ptr := 6\<rparr>)"
    by (auto simp: opal_dss_unpack_def opal_dss_unpack_buffer_def numeral_3_eq_3 dss_unpack_buffer.simps Let_def)
  with b(1) show ?thesis by blast
qed

theorem unpack_mismatch_witness:
  "\<exists>b. opal_dss_pack example_env OPAL_INT32 (U32 [7, 9]) (opal_buffer_construct FULLY_DESC) = Some (SUCCESS, b) \<and>
    opal_dss_unpack example_env OPAL_UINT32 2 b = Some (ERR_PACK_MISMATCH, (0, U8 []), b\<lparr>unpack_ptr := 6\<rparr>)"
  by (rule unpack_mismatch [OF example_env_ok])
    (use example_packable in \<open>simp_all add: example_message_def type_codes\<close>)

section \<open>Values\<close>

text \<open>
  a value with an array of integers is packed, but unpacking it is undefined, since its elements are
  stored through the NULL pointer of the new value; a value with a pointer is packed as its key and type, and
  unpacking it fails.
\<close>

theorem values_not_unpacked:
  "(case opal_dss_pack example_env OPAL_VALUE (Values [(None, 40, U32 [7])]) (opal_buffer_construct NON_DESC) of
      Some (st, b) \<Rightarrow> st = SUCCESS \<and> opal_dss_unpack example_env OPAL_VALUE 1 b = None
    | None \<Rightarrow> False) \<and>
   (case opal_dss_pack example_env OPAL_VALUE (Values [(None, OPAL_PTR, Ext [])]) (opal_buffer_construct NON_DESC) of
      Some (st, b) \<Rightarrow> st = SUCCESS \<and> map_option fst (opal_dss_unpack example_env OPAL_VALUE 1 b) = Some ERROR
    | None \<Rightarrow> False)"
  by code_simp

end
