(* ===== verification/Orcm_Workflow_Laws.thy ===== *)
theory Orcm_Workflow_Laws
  imports Orcm_Workflow Opal_Dss_Safety
begin

text \<open>
  Laws of the workflow messages: what the control tool packs is what the aggregator unpacks, and the other
  way round, whatever the type of the buffers.
\<close>

section \<open>C strings in memory\<close>

definition c_string :: "string \<Rightarrow> bool" where
  "c_string str \<longleftrightarrow> 0 \<notin> set (map char_byte str) \<and> length str + 1 < 2 ^ 31"

lemma proper_cstr [simp]: "c_string str \<Longrightarrow> proper_string (cstr_bytes str)"
  by (auto simp: c_string_def proper_string_def cstr_bytes_def)

lemma str_eq_cstr: "0 \<notin> set (map char_byte a) \<Longrightarrow> 0 \<notin> set (map char_byte b) \<Longrightarrow> str_eq (cstr_bytes a) (cstr_bytes b) = Some (a = b)"
proof (induction a arbitrary: b)
  case Nil
  then show ?case by (cases b) (auto simp: cstr_bytes_def)
next
  case (Cons c a)
  then show ?case by (cases b) (auto simp: cstr_bytes_def dest: char_byte_inj)
qed

lemma strn_eq_cstr:
  "0 \<notin> set (map char_byte a) \<Longrightarrow> 0 \<notin> set (map char_byte b) \<Longrightarrow> strn_eq n (cstr_bytes a) (cstr_bytes b) = Some (strncmp_eq a b n)"
proof (induction a arbitrary: b n)
  case Nil
  then show ?case by (cases b; cases n) (auto simp: cstr_bytes_def strncmp_eq_def)
next
  case (Cons c a)
  then show ?case by (cases b; cases n) (auto simp: cstr_bytes_def strncmp_eq_def dest: char_byte_inj)
qed

lemma strncmp_eq_longer: "length a < n \<Longrightarrow> strncmp_eq a b n \<longleftrightarrow> a = b"
  unfolding strncmp_eq_def by (metis length_take less_irrefl min.absorb2 min_def not_less take_all order.strict_implies_order)

lemma strcmp_eq_lit [simp]: "c_string a \<Longrightarrow> c_string b \<Longrightarrow> strcmp_eq (lit a) (lit b) = Some (a = b)"
  by (simp add: strcmp_eq_def c_string_def str_eq_cstr)

lemma strdup_lit: "dss_mem e = always \<Longrightarrow> c_string str \<Longrightarrow> strdup e (lit str) = Some (lit str)"
  using strlen_proper [OF proper_cstr, of str] by (simp add: strdup_def always_def cstr_bytes_def)

section \<open>Messages\<close>

text \<open>\<open>coded e ty m bs\<close>: the bytes are read back as the array of the message.\<close>

fun coded :: "'x dss_env \<Rightarrow> buffer_type \<Rightarrow> data_type \<times> 'x vals \<Rightarrow> byte list \<Rightarrow> bool" where
  "coded e ty (t, v) bs \<longleftrightarrow>
     (\<forall>cap. 0 < cap \<longrightarrow> int (vals_count v) \<le> cap \<longrightarrow> fetches (opal_dss_unpack e t cap) bs (int (vals_count v), v) ty)"

lemma pack_all_coded:
  assumes e: "env_ok e" and "\<forall>(t, v)\<in>set ms. packable t v" and "buf_holds b D u" "buf_type b = ty"
  shows "\<exists>bss b'. pack_all e ms b = Some (SUCCESS, b') \<and> buf_holds b' (D @ concat bss) u \<and> buf_type b' = ty \<and>
    list_all2 (coded e ty) ms bss"
  using assms(2-)
proof (induction ms arbitrary: b D)
  case Nil
  then show ?case by (intro exI [of _ "[]"]) simp
next
  case (Cons m ms)
  obtain t v where m: "m = (t, v)" by (cases m)
  obtain bs b1 where 1: "opal_dss_pack e t v b = Some (SUCCESS, b1)" "buf_holds b1 (D @ bs) u" "buf_type b1 = ty"
      "coded e ty m bs"
    using pack_correct [OF e _ Cons.prems(2,3), of t v] Cons.prems(1) by (auto simp: m)
  obtain bss b2 where 2: "pack_all e ms b1 = Some (SUCCESS, b2)" "buf_holds b2 ((D @ bs) @ concat bss) u" "buf_type b2 = ty"
      "list_all2 (coded e ty) ms bss"
    using Cons.IH [OF _ 1(2,3)] Cons.prems(1) by auto
  from 1 2 show ?case by (intro exI [of _ "bs # bss"] exI [of _ b2]) (simp add: m on_success_def)
qed

lemma pack_all_append: "pack_all e (ms @ ns) b = on_success (pack_all e ms b) (pack_all e ns)"
proof (induction ms arbitrary: b)
  case (Cons m ms)
  then show ?case by (cases m) (auto simp: on_success_def split: option.splits bind_splits if_splits)
qed (simp add: on_success_def)

abbreviation int_msg :: "int \<Rightarrow> data_type \<times> 'x vals" where
  "int_msg i \<equiv> (OPAL_INT, U32 [word_of_int i])"

abbreviation str_msg :: "string \<Rightarrow> data_type \<times> 'x vals" where
  "str_msg str \<equiv> (OPAL_STRING, Strs [lit str])"

abbreviation cmd_msg :: "byte \<Rightarrow> data_type \<times> 'x vals" where
  "cmd_msg c \<equiv> (OPAL_UINT8, U8 [c])"

lemma packable_msgs [simp]:
  "packable OPAL_INT (U32 [w])" "packable OPAL_UINT8 (U8 [c])" "c_string str \<Longrightarrow> packable OPAL_STRING (Strs [lit str])"
  by (simp_all add: packable_def opal_dss_types_def type_codes sys_ok_def fixed_ok_def)

text \<open>A single element of each kind, read with room for one.\<close>

lemma coded_one:
  "coded e ty (t, v) bs \<Longrightarrow> vals_count v = 1 \<Longrightarrow> fetches (opal_dss_unpack e t 1) bs (1, v) ty"
  using coded.simps [of e ty t v bs] by force

section \<open>Describing a workflow\<close>

text \<open>
  A workflow as the user describes it: its name, and its steps, each with the name of a plugin and attributes.
  \<open>wf_items\<close> is the list the parser returns for it and \<open>wf_msgs\<close> what is packed.
\<close>

type_synonym step_text = "string \<times> (string \<times> string) list"
type_synonym description = "string \<times> step_text list"

definition step_items :: "step_text \<Rightarrow> value_item list" where
  "step_items st = String_item ''name'' (fst st) # map (\<lambda>(k, v). String_item k v) (snd st)"

definition wf_items :: "description \<Rightarrow> value_item list" where
  "wf_items d = String_item ''name'' (fst d) # map (\<lambda>st. Ptr_item ''step'' (Some (step_items st))) (snd d)"

definition attr_msgs :: "(string \<times> string) list \<Rightarrow> (data_type \<times> 'x vals) list" where
  "attr_msgs as = concat (map (\<lambda>(k, v). [str_msg k, str_msg v]) as)"

definition step_msgs :: "step_text \<Rightarrow> (data_type \<times> 'x vals) list" where
  "step_msgs st = int_msg (int (length (snd st))) # str_msg (fst st) # attr_msgs (snd st)"

definition wf_msgs :: "description \<Rightarrow> (data_type \<times> 'x vals) list" where
  "wf_msgs d = int_msg (int (length (snd d))) # str_msg (fst d) # concat (map step_msgs (snd d))"

definition step_text_ok :: "step_text \<Rightarrow> bool" where
  "step_text_ok st \<longleftrightarrow> c_string (fst st) \<and> length (snd st) < 2 ^ 31 \<and>
     (\<forall>(k, v)\<in>set (snd st). k \<noteq> ''name'' \<and> c_string k \<and> c_string v)"

definition description_ok :: "description \<Rightarrow> bool" where
  "description_ok d \<longleftrightarrow> c_string (fst d) \<and> length (snd d) < 2 ^ 31 \<and> snd d \<noteq> [] \<and> fst (hd (snd d)) = ''filter'' \<and>
     (\<forall>st\<in>set (snd d). step_text_ok st)"

lemma packable_attrs: "\<forall>(k, v)\<in>set as. c_string k \<and> c_string v \<Longrightarrow> \<forall>(t, v)\<in>set (attr_msgs as). packable t v"
  by (fastforce simp: attr_msgs_def)

lemma packable_step: "step_text_ok st \<Longrightarrow> \<forall>(t, v)\<in>set (step_msgs st). packable t v"
  using packable_attrs [of "snd st"] by (fastforce simp: step_msgs_def step_text_ok_def)

lemma packable_wf: "description_ok d \<Longrightarrow> \<forall>(t, v)\<in>set (wf_msgs d). packable t v"
  using packable_step by (fastforce simp: wf_msgs_def description_ok_def)

lemma on_success_SUCCESS: "on_success r f = Some (SUCCESS, b') \<Longrightarrow> \<exists>b. r = Some (SUCCESS, b) \<and> f b = Some (SUCCESS, b')"
  by (auto simp: on_success_def split: bind_splits if_splits)

lemma extract_attrs:
  assumes "\<forall>(k, v)\<in>set as. k \<noteq> ''name''" "pack_all e (attr_msgs as) b = Some (SUCCESS, b')"
  shows "extract_items e (map (\<lambda>(k, v). String_item k v) as) ''step'' (True, True) SUCCESS b = Some (SUCCESS, True, b')"
  using assms
proof (induction as arbitrary: b)
  case (Cons a as)
  obtain k v where a: "a = (k, v)" by (cases a)
  from Cons.prems(2) obtain b1 b2 where "pack_string e k b = Some (SUCCESS, b1)" "pack_string e v b1 = Some (SUCCESS, b2)"
      "pack_all e (attr_msgs as) b2 = Some (SUCCESS, b')"
    by (auto simp: a attr_msgs_def pack_string_def dest!: on_success_SUCCESS)
  with Cons a show ?case
    by (auto simp: orcm_util_workflow_add_extract_string_type_def orcm_util_workflow_add_check_name_key_def
        orcm_util_workflow_add_check_filter_step_def)
qed (simp add: attr_msgs_def)

lemma extract_step:
  assumes "step_text_ok st" "f \<or> fst st = ''filter''" "pack_all e (step_msgs st) b = Some (SUCCESS, b')"
  shows "orcm_util_workflow_add_extract_workflow_info e (Some (step_items st)) ''step'' f b = Some (SUCCESS, True, b')"
proof -
  from assms(3) obtain b1 b2 where 1: "opal_dss_pack e OPAL_INT (U32 [word_of_int (int (length (snd st)))]) b = Some (SUCCESS, b1)"
      "pack_string e (fst st) b1 = Some (SUCCESS, b2)" "pack_all e (attr_msgs (snd st)) b2 = Some (SUCCESS, b')"
    by (auto simp: step_msgs_def pack_string_def dest!: on_success_SUCCESS)
  moreover have "\<forall>(k, v)\<in>set (snd st). k \<noteq> ''name''" using assms(1) by (auto simp: step_text_ok_def)
  ultimately show ?thesis
    using assms(2) extract_attrs [of "snd st" e b2 b']
    by (auto simp: step_items_def orcm_util_workflow_add_extract_string_type_def
        orcm_util_workflow_add_check_name_key_def orcm_util_workflow_add_check_filter_step_def)
qed

lemma extract_steps:
  assumes "\<forall>st\<in>set sts. step_text_ok st" "f \<or> sts \<noteq> [] \<and> fst (hd sts) = ''filter''"
    "pack_all e (concat (map step_msgs sts)) b = Some (SUCCESS, b')"
  shows "extract_items e (map (\<lambda>st. Ptr_item ''step'' (Some (step_items st))) sts) ''workflow'' (True, f) SUCCESS b
    = Some (SUCCESS, True, b')"
  using assms
proof (induction sts arbitrary: f b)
  case (Cons st sts)
  from Cons.prems(3) obtain b1 where "pack_all e (step_msgs st) b = Some (SUCCESS, b1)"
      "pack_all e (concat (map step_msgs sts)) b1 = Some (SUCCESS, b')"
    by (auto simp: pack_all_append dest!: on_success_SUCCESS)
  with Cons extract_step [of st f e b b1] show ?case
    by (simp del: orcm_util_workflow_add_extract_workflow_info.simps)
qed simp

lemma extract_workflow:
  assumes "description_ok d" "pack_all e (wf_msgs d) b = Some (SUCCESS, b')"
  shows "orcm_util_workflow_add_extract_workflow_info e (Some (wf_items d)) ''workflow'' False b = Some (SUCCESS, True, b')"
proof -
  from assms(2) obtain b1 b2 where "opal_dss_pack e OPAL_INT (U32 [word_of_int (int (length (snd d)))]) b = Some (SUCCESS, b1)"
      "pack_string e (fst d) b1 = Some (SUCCESS, b2)" "pack_all e (concat (map step_msgs (snd d))) b2 = Some (SUCCESS, b')"
    by (auto simp: wf_msgs_def pack_string_def dest!: on_success_SUCCESS)
  with assms(1) extract_steps [of "snd d" False e b2 b'] show ?thesis
    by (auto simp: wf_items_def description_ok_def orcm_util_workflow_add_extract_string_type_def
        orcm_util_workflow_add_check_name_key_def orcm_util_workflow_add_check_filter_step_def)
qed

section \<open>Reading a workflow\<close>

lemma coded_int:
  "coded e ty (int_msg i) bs \<Longrightarrow> fetches (opal_dss_unpack e OPAL_INT 1) bs (1, U32 [word_of_int i]) ty"
  by (rule coded_one) simp_all

lemma coded_str:
  "coded e ty (str_msg str) bs \<Longrightarrow> fetches (opal_dss_unpack e OPAL_STRING 1) bs (1, Strs [lit str]) ty"
  by (rule coded_one) simp_all

lemma coded_cmd:
  "coded e ty (cmd_msg c) bs \<Longrightarrow> fetches (opal_dss_unpack e OPAL_UINT8 1) bs (1, U8 [c]) ty"
  by (rule coded_one) simp_all

lemma sint_of_length: "n < 2 ^ 31 \<Longrightarrow> sint (word_of_int (int n) :: 32 word) = int n"
  using sint_of_nat32 [of n] by simp

definition lits :: "(string \<times> string) list \<Rightarrow> (cstr \<times> cstr) list" where
  "lits as = map (\<lambda>(k, v). (lit k, lit v)) as"

lemma fetches_attrs:
  assumes "new_value e" "list_all2 (coded (dss e) ty) (attr_msgs as) bss"
  shows "fetches (parse_attributes e (length as) key val 1 acc) (concat bss) (acc @ lits as) ty"
  using assms(2)
proof (induction as arbitrary: key val acc bss)
  case Nil
  then have "bss = []" by (simp add: attr_msgs_def)
  then show ?case
    by (simp add: lits_def fetches_return)
next
  case (Cons a as)
  obtain k v where a: "a = (k, v)" by (cases a)
  from Cons.prems obtain b1 b2 bss' where bss: "bss = b1 # b2 # bss'" and 1: "coded (dss e) ty (str_msg k) b1"
      and 2: "coded (dss e) ty (str_msg v) b2" and 3: "list_all2 (coded (dss e) ty) (attr_msgs as) bss'"
    by (auto simp: a attr_msgs_def list_all2_Cons1)
  have ih: "fetches (parse_attributes e (length as) (lit k) (lit v) 1 (acc @ [(lit k, lit v)])) (concat bss')
      (acc @ lits (a # as)) ty"
    using Cons.IH [OF 3, of "lit k" "lit v" "acc @ [(lit k, lit v)]"] by (simp add: lits_def a)
  have "fetches (parse_attributes e (Suc (length as)) key val 1 acc) (b1 @ b2 @ concat bss') (acc @ lits (a # as)) ty"
    apply (rule fetches_cong [OF parse_attributes.simps(2)])
    apply (unfold Let_def)
    apply (rule fetches_bind [OF coded_str [OF 1]])
    apply (unfold fst_conv snd_conv stored_string.simps)
    apply (rule fetches_bind [OF coded_str [OF 2]])
    using ih assms(1) by (simp add: orcm_analytics_base_append_attributes_def)
  then show ?case by (simp only: bss concat.simps list.size add_0_right add_Suc_right append_Nil2)
qed

text \<open>A step whose plugin is registered once and can be used gets a module.\<close>

definition components_ok :: "'x analytics_env \<Rightarrow> bool" where
  "components_ok e \<longleftrightarrow>
     (\<forall>c\<in>set (components e). c_string (component_name c) \<and> length (component_name c) \<le> MCA_BASE_MAX_COMPONENT_NAME_LEN)"

definition usable :: "analytics_component list \<Rightarrow> string \<Rightarrow> bool" where
  "usable cs name \<longleftrightarrow> (\<exists>c. filter (\<lambda>c. component_name c = name) cs = [c] \<and> available c \<and> handle_created c)"

lemma same_component:
  assumes "c_string a" "length a \<le> MCA_BASE_MAX_COMPONENT_NAME_LEN" "c_string b"
  shows "strn_eq (Suc MCA_BASE_MAX_COMPONENT_NAME_LEN) (cstr_bytes a) (cstr_bytes b) = Some (a = b)"
  using assms by (simp add: strn_eq_cstr strncmp_eq_longer c_string_def)

lemma select_none:
  assumes "\<forall>c\<in>set cs. c_string (component_name c) \<and> length (component_name c) \<le> MCA_BASE_MAX_COMPONENT_NAME_LEN"
    "c_string name" "analytic st = lit name" "filter (\<lambda>c. component_name c = name) cs = []"
  shows "orcm_analytics_base_select_workflow_step cs st s = Some (SUCCESS, st, s)"
  using assms by (induction cs) (auto simp: same_component split: if_splits)

lemma select_one:
  assumes "\<forall>c\<in>set cs. c_string (component_name c) \<and> length (component_name c) \<le> MCA_BASE_MAX_COMPONENT_NAME_LEN"
    "c_string name" "analytic st = lit name" "usable cs name"
  shows "orcm_analytics_base_select_workflow_step cs st s =
    Some (SUCCESS, st\<lparr>step_mod := Some (next_mod s)\<rparr>, s\<lparr>live_mods := next_mod s # live_mods s, next_mod := next_mod s + 1\<rparr>)"
  using assms
proof (induction cs)
  case Nil
  then show ?case by (simp add: usable_def)
next
  case (Cons c cs)
  show ?case
  proof (cases "component_name c = name")
    case True
    then have "available c" "handle_created c" "filter (\<lambda>c. component_name c = name) cs = []"
      using Cons.prems(4) by (auto simp: usable_def)
    with True Cons.prems select_none [of cs name "st\<lparr>step_mod := Some (next_mod s)\<rparr>"] show ?thesis
      by (simp add: same_component orcm_analytics_base_select_create_handle_def)
  next
    case False
    with Cons have "usable cs name" by (simp add: usable_def)
    with False Cons show ?thesis by (simp add: same_component)
  qed
qed

definition made_step :: "int \<Rightarrow> nat \<Rightarrow> step_text \<Rightarrow> workflow_step" where
  "made_step i h st = \<lparr>attributes = lits (snd st), analytic = lit (fst st), step_id = i, step_mod = Some h\<rparr>"

fun made_steps :: "int \<Rightarrow> nat \<Rightarrow> step_text list \<Rightarrow> workflow_step list" where
  "made_steps i h [] = []"
| "made_steps i h (st # sts) = made_step i h st # made_steps (i + 1) (h + 1) sts"

fun with_mods :: "nat \<Rightarrow> analytics_base \<Rightarrow> analytics_base" where
  "with_mods 0 s = s"
| "with_mods (Suc k) s = with_mods k (s\<lparr>live_mods := next_mod s # live_mods s, next_mod := next_mod s + 1\<rparr>)"

definition objects_ok :: "'x analytics_env \<Rightarrow> bool" where
  "objects_ok e \<longleftrightarrow> new_workflow e \<and> new_step e \<and> new_value e \<and> new_buffer e"

lemma fetches_step:
  assumes e: "objects_ok e" "components_ok e" and st: "step_text_ok st" "usable (components e) (fst st)"
    and bss: "list_all2 (coded (dss e) ty) (step_msgs st) bss"
  shows "fetches (orcm_analytics_base_workflow_step_add e i (w, s)) (concat bss)
    (w\<lparr>steps := steps w @ [made_step i (next_mod s) st]\<rparr>, with_mods 1 s) ty"
proof -
  from bss obtain b1 b2 bss' where b: "bss = b1 # b2 # bss'" and 1: "coded (dss e) ty (int_msg (int (length (snd st)))) b1"
      and 2: "coded (dss e) ty (str_msg (fst st)) b2" and 3: "list_all2 (coded (dss e) ty) (attr_msgs (snd st)) bss'"
    by (auto simp: step_msgs_def list_all2_Cons1)
  let ?sel = "\<lambda>attrs b. do { (rc, st, s) \<leftarrow> orcm_analytics_base_select_workflow_step (components e)
      \<lparr>attributes = attrs, analytic = lit (fst st), step_id = i, step_mod = None\<rparr> s;
      if rc \<noteq> SUCCESS then Some (ERROR, (w, s), b) else Some (SUCCESS, (w\<lparr>steps := steps w @ [st]\<rparr>, s), b) }"
  have sel: "?sel (lits (snd st)) = (\<lambda>b. Some (SUCCESS, (w\<lparr>steps := steps w @ [made_step i (next_mod s) st]\<rparr>, with_mods 1 s), b))"
    using e(2) st by (subst select_one [where name = "fst st"])
      (simp_all add: components_ok_def step_text_ok_def made_step_def)
  have attrs: "fetches (\<lambda>b. do { (rc, attrs, b) \<leftarrow> parse_attributes e (length (snd st)) None None 1 [] b;
      if rc \<noteq> SUCCESS then Some (rc, (w, s), b) else ?sel attrs b }) (concat bss' @ [])
      (w\<lparr>steps := steps w @ [made_step i (next_mod s) st]\<rparr>, with_mods 1 s) ty"
    apply (rule fetches_bind [OF fetches_attrs [OF _ 3]])
    using e(1) by (simp_all add: objects_ok_def sel fetches_return)
  have new: "new_step e = True" using e(1) by (simp add: objects_ok_def)
  have n: "nat (sint (word_of_int (int (length (snd st))) :: 32 word)) = length (snd st)"
    using st(1) sint_of_length [of "length (snd st)"] by (simp add: step_text_ok_def)
  have "fetches (orcm_analytics_base_workflow_step_add e i (w, s)) (b1 @ b2 @ concat bss' @ [])
    (w\<lparr>steps := steps w @ [made_step i (next_mod s) st]\<rparr>, with_mods 1 s) ty"
    apply (rule fetches_cong)
     apply (unfold orcm_analytics_base_workflow_step_add_def Let_def new not_True_eq_False if_False
        ANALYTICS_COUNT_DEFAULT_def fst_conv snd_conv)
     apply (rule refl)
    apply (rule fetches_bind [OF coded_int [OF 1]])
    apply (unfold fst_conv snd_conv)
    apply (rule fetches_bind [OF coded_str [OF 2]])
    apply (unfold fst_conv snd_conv stored_int.simps stored_string.simps Option.bind.bind_lunit
        orcm_analytics_base_parse_attributes_def ANALYTICS_COUNT_DEFAULT_def n)
    apply (rule attrs)
    done
  then show ?thesis by (simp add: b)
qed

lemma fetches_steps:
  assumes e: "objects_ok e" "components_ok e"
    and "\<forall>st\<in>set sts. step_text_ok st \<and> usable (components e) (fst st)"
    and "list_all2 (coded (dss e) ty) (concat (map step_msgs sts)) bss"
  shows "fetches (add_steps e i (length sts) (w, s)) (concat bss)
    (w\<lparr>steps := steps w @ made_steps i (next_mod s) sts\<rparr>, with_mods (length sts) s) ty"
  using assms(3-)
proof (induction sts arbitrary: i w s bss)
  case Nil
  then show ?case by (simp add: fetches_return)
next
  case (Cons st sts)
  from Cons.prems(2) obtain as bs where bss: "bss = as @ bs" and 1: "list_all2 (coded (dss e) ty) (step_msgs st) as"
      and 2: "list_all2 (coded (dss e) ty) (concat (map step_msgs sts)) bs"
    by (auto simp: list_all2_append1)
  have st: "step_text_ok st" "usable (components e) (fst st)" using Cons.prems(1) by auto
  have "fetches (add_steps e i (Suc (length sts)) (w, s)) (concat as @ concat bs)
      (w\<lparr>steps := steps w @ made_steps i (next_mod s) (st # sts)\<rparr>, with_mods (Suc (length sts)) s) ty"
    apply (rule fetches_cong [OF add_steps.simps(2)])
    apply (rule fetches_bind [OF fetches_step [OF e st 1]])
    using Cons.IH [OF _ 2, of "i + 1" "w\<lparr>steps := steps w @ [made_step i (next_mod s) st]\<rparr>" "with_mods 1 s"] Cons.prems(1)
    by simp
  then show ?case by (simp only: bss concat_append list.size add_0_right add_Suc_right)
qed

lemma with_mods_fields [simp]:
  "workflows (with_mods k s) = workflows s" "tracking (with_mods k s) = tracking s" "next_id (with_mods k s) = next_id s"
  "store_raw_data (with_mods k s) = store_raw_data s" "store_event_data (with_mods k s) = store_event_data s"
  by (induction k arbitrary: s) simp_all

text \<open>The workflow that results from a description, and the state with it.\<close>

definition made_workflow :: "analytics_base \<Rightarrow> nat \<Rightarrow> description \<Rightarrow> workflow" where
  "made_workflow s base d =
     \<lparr>wf_name = lit (fst d), workflow_id = next_id s, steps = made_steps 0 (next_mod s) (snd d),
      wf_base = Some base, ev_active = True\<rparr>"

definition with_workflow :: "analytics_base \<Rightarrow> nat \<Rightarrow> trackers \<Rightarrow> description \<Rightarrow> analytics_base" where
  "with_workflow s base T d =
     (with_mods (length (snd d)) (s\<lparr>next_id := next_id s + 1, tracking := T\<rparr>))
       \<lparr>workflows := workflows s @ [made_workflow s base d]\<rparr>"

lemma fetches_add:
  assumes e: "objects_ok e" "components_ok e" and d: "description_ok d" "\<forall>st\<in>set (snd d). usable (components e) (fst st)"
    and i: "0 \<le> next_id s" "next_id s < INT_MAX"
    and T: "opal_progress_thread_init (threads e) (Some (wf_thread (next_id s))) (tracking s) = Some (Some base, T)"
    and bss: "list_all2 (coded (dss e) ty) (wf_msgs d) bss"
  shows "fetches (orcm_analytics_base_workflow_add e s) (concat bss) (Some (next_id s), with_workflow s base T d) ty"
proof -
  let ?w = "\<lparr>wf_name = lit (fst d), workflow_id = next_id s, steps = [], wf_base = None, ev_active = False\<rparr>"
    and ?s = "s\<lparr>next_id := next_id s + 1\<rparr>"
  let ?w1 = "?w\<lparr>wf_base := Some base, ev_active := True\<rparr>" and ?s1 = "?s\<lparr>tracking := T\<rparr>"
  from bss obtain b1 b2 bss' where b: "bss = b1 # b2 # bss'" and 1: "coded (dss e) ty (int_msg (int (length (snd d)))) b1"
      and 2: "coded (dss e) ty (str_msg (fst d)) b2" and 3: "list_all2 (coded (dss e) ty) (concat (map step_msgs (snd d))) bss'"
    by (auto simp: wf_msgs_def list_all2_Cons1)
  have init: "orcm_analytics_base_workflow_object_init e (lit (fst d)) s = Some (Some ?w, ?s)"
    using e(1) i by (simp add: orcm_analytics_base_workflow_object_init_def objects_ok_def add_int_def)
  have base: "orcm_analytics_base_add_new_workflow_event_base e ?w ?s = Some (SUCCESS, ?w1, ?s1)"
    using T by (simp add: orcm_analytics_base_add_new_workflow_event_base_def orcm_analytics_base_add_event_base_def)
  have n: "nat (sint (word_of_int (int (length (snd d))) :: 32 word)) = length (snd d)"
    using d(1) sint_of_length [of "length (snd d)"] by (simp add: description_ok_def)
  have "\<forall>st\<in>set (snd d). step_text_ok st \<and> usable (components e) (fst st)" using d by (auto simp: description_ok_def)
  from fetches_steps [OF e this 3, of 0 ?w1 ?s1]
  have steps: "fetches (\<lambda>b. do { (rc, ws, b) \<leftarrow> add_steps e 0 (length (snd d)) (?w1, ?s1) b;
      if rc \<noteq> SUCCESS then Some (rc, (Some (next_id s), wk_des (fst ws) (snd ws)), b)
      else Some (SUCCESS, (Some (next_id s), (snd ws)\<lparr>workflows := workflows (snd ws) @ [fst ws]\<rparr>), b) })
      (concat bss' @ []) (Some (next_id s), with_workflow s base T d) ty"
    by (rule fetches_bind) (simp add: fetches_return with_workflow_def made_workflow_def)
  have "fetches (orcm_analytics_base_workflow_add e s) (b1 @ b2 @ concat bss' @ [])
      (Some (next_id s), with_workflow s base T d) ty"
    apply (rule fetches_cong)
     apply (unfold orcm_analytics_base_workflow_add_def Let_def ANALYTICS_COUNT_DEFAULT_def)
     apply (rule refl)
    apply (rule fetches_bind [OF coded_int [OF 1]])
    apply (unfold fst_conv snd_conv)
    apply (rule fetches_bind [OF coded_str [OF 2]])
    apply (unfold fst_conv snd_conv stored_int.simps stored_string.simps init base Option.bind.bind_lunit prod.case option.case
        workflow.select_convs simp_thms if_False n)
    apply (rule steps)
    done
  then show ?thesis by (simp add: b)
qed

section \<open>Sending and receiving\<close>

text \<open>A message arrives as a buffer of the same type with the bytes that were packed, of which none is read.\<close>

definition delivered :: "opal_buffer \<Rightarrow> opal_buffer \<Rightarrow> bool" where
  "delivered b r \<longleftrightarrow> buf_type r = buf_type b \<and> (\<exists>D. buf_holds b D 0 \<and> buf_holds r D 0)"

lemma delivered_refl: "buf_holds b D 0 \<Longrightarrow> delivered b b"
  by (auto simp: delivered_def)

lemma buf_holds_unique: "buf_holds b D u \<Longrightarrow> buf_holds b E v \<Longrightarrow> D = E \<and> u = v"
  by (auto simp: buf_holds_def intro: map_injective [of Some] injI)

lemma fetches_delivered:
  assumes "fetches f bs x ty" "buf_holds b (bs @ rest) 0" "buf_type b = ty" "delivered b r"
  shows "\<exists>r'. f r = Some (SUCCESS, x, r') \<and> buf_holds r' (bs @ rest) (length bs) \<and> buf_type r' = ty"
proof -
  from assms(4) obtain D where D: "buf_holds b D 0" "buf_holds r D 0" "buf_type r = buf_type b" by (auto simp: delivered_def)
  have r: "buf_holds r (bs @ rest) 0" using D buf_holds_unique [OF D(1) assms(2)] by simp
  have "drop 0 (bs @ rest) = bs @ rest" by simp
  from fetchesD [OF assms(1) r _ this] advance_holds(1) [OF r this] D(3) assms(3) show ?thesis by simp
qed

text \<open>Packing onto a buffer of which nothing was read, as both sides do.\<close>

lemma packs:
  assumes "env_ok e" "packable t v" "buf_holds b D 0" "buf_type b = ty"
  obtains bs b' where "opal_dss_pack e t v b = Some (SUCCESS, b')" "buf_holds b' (D @ bs) 0" "buf_type b' = ty" "coded e ty (t, v) bs"
  using pack_correct [OF assms] by auto

lemma construct_type [simp]: "buf_type (opal_buffer_construct ty) = ty"
  by (simp add: opal_buffer_construct_def)

lemma packs_command:
  assumes "env_ok e"
  obtains bs b where "opal_dss_pack e OPAL_UINT8 (U8 [c]) (opal_buffer_construct ty) = Some (SUCCESS, b)"
    "buf_holds b bs 0" "buf_type b = ty" "coded e ty (cmd_msg c) bs"
proof -
  obtain bs b where "opal_dss_pack e OPAL_UINT8 (U8 [c]) (opal_buffer_construct ty) = Some (SUCCESS, b)"
      "buf_holds b ([] @ bs) 0" "buf_type b = ty" "coded e ty (cmd_msg c) bs"
    by (rule packs [OF assms packable_msgs(2) construct_holds construct_type])
  then show thesis by (intro that) (simp_all only: append_Nil)
qed

lemma recv_pack_int:
  assumes "env_ok (dss e)" "buf_holds b D 0" "buf_type b = ty"
  obtains bs b' where "orcm_analytics_base_recv_pack_int e i b = Some (SUCCESS, b')" "buf_holds b' (D @ bs) 0"
    "buf_type b' = ty" "coded (dss e) ty (int_msg i) bs"
  by (rule packs [OF assms(1) _ assms(2,3), of OPAL_INT "U32 [word_of_int i]"])
    (simp_all add: orcm_analytics_base_recv_pack_int_def that)

lemma command_read:
  assumes "coded (dss e) ty (cmd_msg c) bs" "buf_holds b (bs @ rest) 0" "buf_type b = ty" "delivered b r"
  obtains r' where "orcm_analytics_base_recv_unpack_uint8_t e r = Some (c, r')" "buf_holds r' (bs @ rest) (length bs)"
    "buf_type r' = ty"
proof -
  from fetches_delivered [OF coded_cmd [OF assms(1)] assms(2-)] obtain r' where
    "opal_dss_unpack (dss e) OPAL_UINT8 1 r = Some (SUCCESS, (1, U8 [c]), r')" "buf_holds r' (bs @ rest) (length bs)"
    "buf_type r' = ty" by blast
  then show thesis
    by (intro that [of r']) (simp_all add: orcm_analytics_base_recv_unpack_uint8_t_def ANALYTICS_COUNT_DEFAULT_def)
qed

lemma sint_small: "- (2 ^ 31) \<le> i \<Longrightarrow> i < 2 ^ 31 \<Longrightarrow> sint (word_of_int i :: 32 word) = i"
  by (simp add: sint_sbintrunc' signed_take_bit_int_eq_self)

lemma int_answer:
  fixes e :: "'x analytics_env"
  assumes "coded (dss e) ty (int_msg i) bs" "buf_holds b (bs @ rest) 0" "buf_type b = ty" "delivered b q"
    and "- (2 ^ 31) \<le> i" "i < 2 ^ 31"
  obtains q' where "opal_dss_unpack (dss e) OPAL_INT 1 q = Some (SUCCESS, (1, U32 [word_of_int i]), q')"
    "stored_int (U32 [word_of_int i] :: 'x vals) = Some i" "buf_holds q' (bs @ rest) (length bs)" "buf_type q' = ty"
  using fetches_delivered [OF coded_int [OF assms(1)] assms(2-4)] sint_small [OF assms(5,6)] by (auto intro: that)

lemma status_code_range: "- (2 ^ 31) \<le> status_code rc \<and> status_code rc < 2 ^ 31"
  by (cases rc) simp_all

section \<open>Adding\<close>

text \<open>
  C2: a workflow that the tool sends is the one the aggregator adds.  The description is packed and, when the
  message arrives, appended to the table under the next identifier, with its name and all its steps in
  order, each with its plugin, its attributes in order and a module of its own; nothing else of the table changes.  The tool
  then reports that identifier.  Attributes called \<open>name\<close> are excluded: they are not packed as attributes.
\<close>

theorem workflow_added:
  assumes e: "env_ok (dss e)" "objects_ok e" "components_ok e"
    and d: "description_ok d" "\<forall>st\<in>set (snd d). usable (components e) (fst st)"
    and i: "0 \<le> next_id s" "next_id s < INT_MAX"
    and T: "opal_progress_thread_init (threads e) (Some (wf_thread (next_id s))) (tracking s) = Some (Some base, T)"
  shows "\<exists>b. octl_workflow_add_process_single_workflow e (Some (wf_items d)) ''workflow'' = Some (SUCCESS, Some b) \<and>
    delivered b b \<and>
    (\<forall>r. delivered b r \<longrightarrow>
       (\<exists>ans. orcm_analytics_base_recv e s r = Some (with_workflow s base T d, Some ans) \<and> delivered ans ans \<and>
          (\<forall>q. delivered ans q \<longrightarrow> workflow_add_unpack_buffer e q = Some (0, Some (next_id s)))))"
proof -
  define ty where "ty = default_buf_type (dss e)"
  obtain bs b0 where b0: "opal_dss_pack (dss e) OPAL_UINT8 (U8 [ORCM_ANALYTICS_WORKFLOW_ADD]) (opal_buffer_construct ty) = Some (SUCCESS, b0)"
      "buf_holds b0 bs 0" "buf_type b0 = ty" and cmd: "coded (dss e) ty (cmd_msg ORCM_ANALYTICS_WORKFLOW_ADD) bs"
    by (rule packs_command [OF e(1)])
  obtain bss b where b: "pack_all (dss e) (wf_msgs d) b0 = Some (SUCCESS, b)" "buf_holds b (bs @ concat bss) 0" "buf_type b = ty"
      and bss: "list_all2 (coded (dss e) ty) (wf_msgs d) bss"
    using pack_all_coded [OF e(1) packable_wf [OF d(1)] b0(2,3)] by auto
  have sent: "octl_workflow_add_process_single_workflow e (Some (wf_items d)) ''workflow'' = Some (SUCCESS, Some b)"
    using e(2) b0(1) extract_workflow [OF d(1) b(1)]
    by (simp add: octl_workflow_add_process_single_workflow_def objects_ok_def ty_def
        del: orcm_util_workflow_add_extract_workflow_info.simps)
  have "\<exists>ans. orcm_analytics_base_recv e s r = Some (with_workflow s base T d, Some ans) \<and> delivered ans ans \<and>
      (\<forall>q. delivered ans q \<longrightarrow> workflow_add_unpack_buffer e q = Some (0, Some (next_id s)))" if r: "delivered b r" for r
  proof -
    obtain r' where r': "orcm_analytics_base_recv_unpack_uint8_t e r = Some (ORCM_ANALYTICS_WORKFLOW_ADD, r')"
        "buf_holds r' (bs @ concat bss) (length bs)" "buf_type r' = ty"
      by (rule command_read [OF cmd b(2,3) r])
    have "drop (length bs) (bs @ concat bss) = concat bss @ []" by simp
    from fetchesD [OF fetches_add [OF e(2,3) d i T bss] r'(2,3) this]
    obtain r2 where add: "orcm_analytics_base_workflow_add e s r' = Some (SUCCESS, (Some (next_id s), with_workflow s base T d), r2)" ..
    obtain as a1 where a1: "orcm_analytics_base_recv_pack_int e (next_id s) (opal_buffer_construct ty) = Some (SUCCESS, a1)"
        "buf_holds a1 ([] @ as) 0" "buf_type a1 = ty" and as: "coded (dss e) ty (int_msg (next_id s)) as"
      by (rule recv_pack_int [OF e(1) construct_holds construct_type])
    obtain as' a2 where a2: "orcm_analytics_base_recv_pack_int e (status_code SUCCESS) a1 = Some (SUCCESS, a2)"
        "buf_holds a2 (([] @ as) @ as') 0" "buf_type a2 = ty"
      by (rule recv_pack_int [OF e(1) a1(2,3)])
    have small: "- (2 ^ 31) \<le> next_id s" "next_id s < 2 ^ 31" using i by (simp_all add: INT_MAX_def)
    have "workflow_add_unpack_buffer e q = Some (0, Some (next_id s))" if q: "delivered a2 q" for q
      by (rule int_answer [OF as a2(2) [unfolded append_Nil] a2(3) q small])
        (use i in \<open>simp add: workflow_add_unpack_buffer_def del: stored_int.simps\<close>)
    moreover have "orcm_analytics_base_recv e s r = Some (with_workflow s base T d, Some a2)"
      using e(2) r'(1) add a1(1) a2(1)
      by (simp add: orcm_analytics_base_recv_def objects_ok_def ty_def [symmetric] orcm_analytics_base_recv_send_answer_def)
    ultimately show ?thesis using delivered_refl [OF a2(2)] by blast
  qed
  with sent delivered_refl [OF b(2)] show ?thesis by blast
qed

definition example_analytics :: "unit analytics_env" where
  "example_analytics =
     \<lparr>dss = example_env,
      threads = \<lparr>new_tracker = True, name_copied = True, base_created = Some 1, thread_started = SUCCESS\<rparr>,
      components = [\<lparr>component_name = ''filter'', available = True, handle_created = True\<rparr>,
                    \<lparr>component_name = ''threshold'', available = True, handle_created = True\<rparr>],
      new_workflow = True, new_step = True, new_value = True, new_buffer = True\<rparr>"

definition example_base :: analytics_base where
  "example_base = \<lparr>workflows = [], store_raw_data = True, store_event_data = True, recv_issued = True, next_id = 0,
     tracking = None, live_mods = [], next_mod = 0\<rparr>"

definition example_description :: description where
  "example_description = (''hot'', [(''filter'', [(''data_group'', ''coretemp'')]), (''threshold'', [(''policy'', ''hi''), (''store'', ''yes'')])])"

definition example_trackers :: trackers where
  "example_trackers = Some [\<lparr>refcount = 1, trk_name = ''wfid0'', trk_base = 1, trk_active = True\<rparr>]"

lemma wf_thread_0: "wf_thread 0 = ''wfid0''"
  by code_simp

lemma example_started:
  "opal_progress_thread_init (threads example_analytics) (Some (wf_thread (next_id example_base))) (tracking example_base)
    = Some (Some 1, example_trackers)"
  by (simp add: example_analytics_def example_base_def wf_thread_0 opal_progress_thread_init_def thread_name_def
      start_progress_engine_def example_trackers_def)

lemma example_description_ok: "description_ok example_description"
  by (simp add: description_ok_def step_text_ok_def c_string_def example_description_def char_byte_def)

lemma example_analytics_ok:
  "env_ok (dss example_analytics)" "objects_ok example_analytics" "components_ok example_analytics"
  "\<forall>st\<in>set (snd example_description). usable (components example_analytics) (fst st)"
  "0 \<le> next_id example_base" "next_id example_base < INT_MAX"
  using example_env_ok
  by (simp_all add: example_analytics_def objects_ok_def components_ok_def usable_def example_description_def example_base_def
      c_string_def char_byte_def MCA_BASE_MAX_COMPONENT_NAME_LEN_def INT_MAX_def)

theorem workflow_added_witness:
  "\<exists>b. octl_workflow_add_process_single_workflow example_analytics (Some (wf_items example_description)) ''workflow''
      = Some (SUCCESS, Some b) \<and> delivered b b \<and>
    (\<forall>r. delivered b r \<longrightarrow>
       (\<exists>ans. orcm_analytics_base_recv example_analytics example_base r
            = Some (with_workflow example_base 1 example_trackers example_description, Some ans) \<and> delivered ans ans \<and>
          (\<forall>q. delivered ans q \<longrightarrow> workflow_add_unpack_buffer example_analytics q = Some (0, Some (next_id example_base)))))"
  by (rule workflow_added [OF example_analytics_ok(1-3) example_description_ok example_analytics_ok(4-6) example_started])

end
