(* ===== verification/Orcm_Workflow_Table.thy ===== *)
theory Orcm_Workflow_Table
  imports Orcm_Workflow_Laws
begin

text \<open>
  The table of workflows under any sequence of messages: identifiers are unique, every workflow has its own
  thread and no other thread of that kind runs, and no module is shared or finalized twice.
\<close>

section \<open>The invariant\<close>

definition mods_of :: "workflow \<Rightarrow> nat list" where
  "mods_of w = List.map_filter step_mod (steps w)"

definition all_mods :: "workflow list \<Rightarrow> nat list" where
  "all_mods ws = concat (map mods_of ws)"

text \<open>The state when the workflows \<open>ws\<close> exist, in the table or being added.\<close>

definition table_ok :: "workflow list \<Rightarrow> analytics_base \<Rightarrow> bool" where
  "table_ok ws s \<longleftrightarrow>
     trackers_ok (tracking s) \<and> 0 \<le> next_id s \<and> distinct (map workflow_id ws) \<and>
     (\<forall>w\<in>set ws. 0 \<le> workflow_id w \<and> workflow_id w < next_id s \<and> ev_active w \<and> wf_base w \<noteq> None) \<and>
     (\<forall>i\<ge>0. users (tracking s) (wf_thread i) = (if i \<in> workflow_id ` set ws then 1 else 0)) \<and>
     distinct (all_mods ws) \<and> set (all_mods ws) \<subseteq> set (live_mods s) \<and>
     distinct (live_mods s) \<and> (\<forall>h\<in>set (live_mods s). h < next_mod s)"

lemma wf_thread_inj: "0 \<le> i \<Longrightarrow> 0 \<le> j \<Longrightarrow> wf_thread i = wf_thread j \<longleftrightarrow> i = j"
  unfolding wf_thread_def decimal_int_def by (auto dest: arg_cong [where f = digits_value])

lemma all_mods_simps [simp]:
  "all_mods [] = []" "all_mods (w # ws) = mods_of w @ all_mods ws" "all_mods (us @ ws) = all_mods us @ all_mods ws"
  by (simp_all add: all_mods_def)

text \<open>Taking out a workflow whose thread was stopped and whose modules are, in part, finalized.\<close>

lemma table_ok_drop:
  assumes ok: "table_ok (us @ w # ws) s" and T: "tracking s' = finalized (wf_thread (workflow_id w)) (tracking s)"
    and same: "next_id s' = next_id s" "next_mod s' = next_mod s"
    and live: "live_mods s' = filter P (live_mods s)" "\<forall>h\<in>set (all_mods (us @ ws)). P h"
  shows "table_ok (us @ ws) s'"
proof -
  from ok have w: "0 \<le> workflow_id w" "users (tracking s) (wf_thread (workflow_id w)) = 1" "trackers_ok (tracking s)"
    "workflow_id w \<notin> workflow_id ` set (us @ ws)"
    by (auto simp: table_ok_def)
  have u: "users (tracking s') = (users (tracking s))(wf_thread (workflow_id w) := 0)"
    using progress.release_uses [OF w(3)] w(2) by (simp add: T)
  have "users (tracking s') (wf_thread i) = (if i \<in> workflow_id ` set (us @ ws) then 1 else 0)" if "0 \<le> i" for i
    using ok that w(1,4) by (auto simp: u table_ok_def wf_thread_inj)
  moreover have "trackers_ok (tracking s')" unfolding T by (rule progress.release_ok [OF w(3)])
  ultimately show ?thesis
    using ok live by (auto simp: table_ok_def same)
qed

section \<open>Stopping\<close>

lemma stop_steps_mods:
  assumes "distinct (List.map_filter step_mod sts)" "set (List.map_filter step_mod sts) \<subseteq> set (live_mods s)" "distinct (live_mods s)"
  shows "stop_steps sts s = Some (s\<lparr>live_mods := filter (\<lambda>h. h \<notin> set (List.map_filter step_mod sts)) (live_mods s)\<rparr>)"
  using assms
proof (induction sts arbitrary: s)
  case (Cons st sts)
  show ?case
  proof (cases "step_mod st")
    case None
    with Cons show ?thesis by (simp add: orcm_analytics_stop_wokflow_step_def map_filter_simps)
  next
    case (Some h)
    let ?s = "s\<lparr>live_mods := remove1 h (live_mods s)\<rparr>"
    have "stop_steps sts ?s = Some (?s\<lparr>live_mods := filter (\<lambda>h. h \<notin> set (List.map_filter step_mod sts)) (live_mods ?s)\<rparr>)"
      using Cons.prems Some by (intro Cons.IH) (auto simp: map_filter_simps)
    moreover have "h \<in> set (live_mods s)" using Cons.prems(2) Some by (simp add: map_filter_simps)
    ultimately show ?thesis
      using Some Cons.prems(3)
      by (auto simp: orcm_analytics_stop_wokflow_step_def map_filter_simps distinct_remove1_removeAll removeAll_filter_not_eq
          conj_commute intro!: arg_cong [where f = "\<lambda>l. s\<lparr>live_mods := l\<rparr>"] filter_cong)
  qed
qed (simp add: map_filter_simps)

lemma stop_workflow:
  assumes ok: "table_ok (us @ w # ws) s"
  obtains s' where "orcm_analytics_stop_wokflow w s = Some (w\<lparr>ev_active := False\<rparr>, s')" "table_ok (us @ ws) s'"
    "live_mods s' = filter (\<lambda>h. h \<notin> set (mods_of w)) (live_mods s)" "workflows s' = workflows s"
    "tracking s' = finalized (wf_thread (workflow_id w)) (tracking s)"
proof -
  let ?l = "filter (\<lambda>h. h \<notin> set (mods_of w)) (live_mods s)"
  let ?s = "s\<lparr>live_mods := ?l, tracking := finalized (wf_thread (workflow_id w)) (tracking s)\<rparr>"
  have "stop_steps (steps w) s = Some (s\<lparr>live_mods := ?l\<rparr>)"
    using ok stop_steps_mods [of "steps w" s] by (simp add: table_ok_def mods_of_def)
  moreover have "ev_active w" using ok by (simp add: table_ok_def)
  ultimately have "orcm_analytics_stop_wokflow w s = Some (w\<lparr>ev_active := False\<rparr>, ?s)"
    by (simp add: orcm_analytics_stop_wokflow_def orcm_analytics_stop_wokflow_thread_def finalized_def)
  moreover have "table_ok (us @ ws) ?s"
    by (rule table_ok_drop [OF ok, where P = "\<lambda>h. h \<notin> set (mods_of w)"]) (use ok in \<open>auto simp: table_ok_def\<close>)
  ultimately show thesis by (rule that) simp_all
qed

lemma wk_des_stopped [simp]: "wk_des (w\<lparr>ev_active := False\<rparr>) s = s"
  by (simp add: wk_des_def orcm_analytics_stop_wokflow_thread_def)

section \<open>Adding keeps the invariant\<close>

lemma table_ok_cong:
  "tracking s' = tracking s \<Longrightarrow> next_id s' = next_id s \<Longrightarrow> live_mods s' = live_mods s \<Longrightarrow> next_mod s' = next_mod s \<Longrightarrow>
   table_ok ws s' = table_ok ws s"
  by (simp add: table_ok_def)

text \<open>Selecting a module may create some, all of them new, and changes nothing else of the state.\<close>

lemma select_mods:
  assumes "orcm_analytics_base_select_workflow_step cs st s = Some (rc, st', s')"
  shows "\<exists>hs. s' = s\<lparr>live_mods := hs @ live_mods s, next_mod := next_mod s + length hs\<rparr> \<and>
    set hs = {next_mod s..<next_mod s + length hs} \<and> distinct hs \<and>
    (step_mod st' = step_mod st \<or> step_mod st' = None \<or> (\<exists>h\<in>set hs. step_mod st' = Some h))"
  using assms
proof (induction cs arbitrary: st s)
  case Nil
  then show ?case by (intro exI [of _ "[]"]) auto
next
  case (Cons c cs)
  let ?s = "s\<lparr>live_mods := next_mod s # live_mods s, next_mod := Suc (next_mod s)\<rparr>"
    and ?st = "st\<lparr>step_mod := Some (next_mod s)\<rparr>"
  from Cons.prems consider "s' = s" "step_mod st' = step_mod st \<or> step_mod st' = None"
    | "orcm_analytics_base_select_workflow_step cs st s = Some (rc, st', s')"
    | "orcm_analytics_base_select_workflow_step cs ?st ?s = Some (rc, st', s')"
    by (auto simp: orcm_analytics_base_select_create_handle_def split: bind_splits if_splits)
  then show ?case
  proof cases
    case 1
    then show ?thesis by (intro exI [of _ "[]"]) auto
  next
    case 2
    then show ?thesis by (rule Cons.IH)
  next
    case 3
    obtain hs where hs: "s' = ?s\<lparr>live_mods := hs @ live_mods ?s, next_mod := next_mod ?s + length hs\<rparr>"
        "set hs = {next_mod ?s..<next_mod ?s + length hs}" "distinct hs"
        "step_mod st' = step_mod ?st \<or> step_mod st' = None \<or> (\<exists>h\<in>set hs. step_mod st' = Some h)"
      using Cons.IH [OF 3] by blast
    from hs(2) have "set (hs @ [next_mod s]) = {next_mod s..<next_mod s + length (hs @ [next_mod s])}" by auto
    with hs show ?thesis by (intro exI [of _ "hs @ [next_mod s]"]) auto
  qed
qed

lemma table_ok_step:
  assumes ok: "table_ok (ws @ [w]) s" and s': "s' = s\<lparr>live_mods := hs @ live_mods s, next_mod := next_mod s + length hs\<rparr>"
    and hs: "set hs = {next_mod s..<next_mod s + length hs}" "distinct hs"
    and st: "step_mod st = None \<or> (\<exists>h\<in>set hs. step_mod st = Some h)"
  shows "table_ok (ws @ [w]) s'" "table_ok (ws @ [w\<lparr>steps := steps w @ [st]\<rparr>]) s'"
proof -
  have old: "\<forall>h\<in>set (live_mods s). h < next_mod s" "set (all_mods (ws @ [w])) \<subseteq> set (live_mods s)"
    using ok by (auto simp: table_ok_def)
  have "mods_of (w\<lparr>steps := steps w @ [st]\<rparr>) = mods_of w @ (case step_mod st of None \<Rightarrow> [] | Some h \<Rightarrow> [h])"
    by (simp add: mods_of_def List.map_filter_def split: option.split)
  with ok old hs st show "table_ok (ws @ [w\<lparr>steps := steps w @ [st]\<rparr>]) s'"
    by (fastforce simp: table_ok_def s')
  from ok old hs show "table_ok (ws @ [w]) s'"
    by (fastforce simp: table_ok_def s')
qed

lemma step_add_ok:
  assumes ok: "table_ok (ws @ [w]) s" and add: "orcm_analytics_base_workflow_step_add e i (w, s) b = Some (rc, (w', s'), b')"
  shows "table_ok (ws @ [w']) s' \<and> workflows s' = workflows s"
proof -
  from add consider "w' = w" "s' = s"
    | attrs name rc' st where "orcm_analytics_base_select_workflow_step (components e)
          \<lparr>attributes = attrs, analytic = name, step_id = i, step_mod = None\<rparr> s = Some (rc', st, s')"
        "w' = w \<or> w' = w\<lparr>steps := steps w @ [st]\<rparr>"
    unfolding orcm_analytics_base_workflow_step_add_def
    by (auto simp: Let_def split: if_splits bind_splits)
  then show ?thesis
  proof cases
    case 1
    with ok show ?thesis by simp
  next
    case 2
    from select_mods [OF 2(1)] obtain hs where
      hs: "s' = s\<lparr>live_mods := hs @ live_mods s, next_mod := next_mod s + length hs\<rparr>"
        "set hs = {next_mod s..<next_mod s + length hs}" "distinct hs" "step_mod st = None \<or> (\<exists>h\<in>set hs. step_mod st = Some h)"
      by auto
    from table_ok_step [OF ok hs] 2(2) show ?thesis by (auto simp: hs(1))
  qed
qed

lemma add_steps_ok:
  assumes "table_ok (ws @ [w]) s" "add_steps e i n (w, s) b = Some (rc, (w', s'), b')"
  shows "table_ok (ws @ [w']) s' \<and> workflows s' = workflows s"
  using assms
proof (induction n arbitrary: i w s b)
  case (Suc n)
  from Suc.prems(2) obtain rc1 w1 s1 b1 where 1: "orcm_analytics_base_workflow_step_add e i (w, s) b = Some (rc1, (w1, s1), b1)"
      and 2: "(w', s') = (w1, s1) \<or> add_steps e (i + 1) n (w1, s1) b1 = Some (rc, (w', s'), b')"
    by (auto split: bind_splits if_splits)
  from step_add_ok [OF Suc.prems(1) 1] have ok: "table_ok (ws @ [w1]) s1" "workflows s1 = workflows s" by auto
  from 2 show ?case
  proof
    assume "add_steps e (i + 1) n (w1, s1) b1 = Some (rc, (w', s'), b')"
    from Suc.IH [OF ok(1) this] ok(2) show ?thesis by simp
  qed (use ok in simp)
qed simp

text \<open>Releasing a workflow that was not completed stops its thread; the modules of its steps stay in use.\<close>

lemma wk_des_ok: "table_ok (ws @ [w]) s \<Longrightarrow> table_ok ws (wk_des w s) \<and> workflows (wk_des w s) = workflows s"
proof -
  assume ok: "table_ok (ws @ [w]) s"
  then have w: "ev_active w" "wf_base w \<noteq> None" by (simp_all add: table_ok_def)
  then have des: "wk_des w s = s\<lparr>tracking := finalized (wf_thread (workflow_id w)) (tracking s)\<rparr>"
    by (auto simp: wk_des_def orcm_analytics_stop_wokflow_thread_def finalized_def)
  have "table_ok (ws @ []) (wk_des w s)"
    by (rule table_ok_drop [where P = "\<lambda>_. True" and w = w]) (use ok in \<open>simp_all add: des\<close>)
  then show ?thesis by (simp add: des)
qed

lemma event_base_ok:
  assumes ok: "table_ok ws s" and w: "workflow_id w = i" "steps w = []" "wf_base w = None" "i = next_id s"
    and base: "orcm_analytics_base_add_new_workflow_event_base e w (s\<lparr>next_id := i + 1\<rparr>) = Some (rc, w', s')"
  shows "workflows s' = workflows s" "workflow_id w' = i" "rc \<noteq> SUCCESS \<Longrightarrow> wf_base w' = None \<and> table_ok ws s'"
    "rc = SUCCESS \<Longrightarrow> table_ok (ws @ [w']) s'"
proof -
  from base obtain base T where T: "opal_progress_thread_init (threads e) (Some (wf_thread i)) (tracking s) = Some (base, T)"
      and r: "(rc, w', s') = (case base of
          None \<Rightarrow> (ERR_OUT_OF_RESOURCE, w\<lparr>wf_base := None, ev_active := False\<rparr>, s\<lparr>next_id := i + 1, tracking := T\<rparr>)
        | Some _ \<Rightarrow> (SUCCESS, w\<lparr>wf_base := base, ev_active := True\<rparr>, s\<lparr>next_id := i + 1, tracking := T\<rparr>))"
    using w(1) by (fastforce simp: orcm_analytics_base_add_new_workflow_event_base_def
        orcm_analytics_base_add_event_base_def bind_eq_Some_conv)
  have tr: "trackers_ok (tracking s)" and i: "0 \<le> i" "i \<notin> workflow_id ` set ws" using ok w(4) by (auto simp: table_ok_def)
  then have u: "users (tracking s) (wf_thread i) = 0" using ok by (simp add: table_ok_def)
  note T' = users_init [OF tr T]
  show "workflows s' = workflows s" "workflow_id w' = i" using r w(1) by (auto split: option.splits)
  show "wf_base w' = None \<and> table_ok ws s'" if "rc \<noteq> SUCCESS"
    using r that T'(1,2) ok w(4) by (auto simp: table_ok_def split: option.splits)
  show "table_ok (ws @ [w']) s'" if "rc = SUCCESS"
  proof -
    from r that obtain c where c: "base = Some c" "w' = w\<lparr>wf_base := Some c, ev_active := True\<rparr>"
      "s' = s\<lparr>next_id := i + 1, tracking := T\<rparr>" by (auto split: option.splits)
    have "users T (wf_thread j) = (if j \<in> workflow_id ` set (ws @ [w']) then 1 else 0)" if "0 \<le> j" for j
      using that i u ok T'(3) [OF c(1)] w(1) by (auto simp: thread_name_def wf_thread_inj c(2) table_ok_def)
    then show ?thesis using ok T'(1) w i by (auto simp: table_ok_def c mods_of_def map_filter_simps)
  qed
qed

lemma workflow_add_ok:
  assumes ok: "table_ok (workflows s) s" and add: "orcm_analytics_base_workflow_add e s b = Some (rc, (i, s'), b')"
  shows "table_ok (workflows s') s'"
proof -
  from add consider "s' = s"
    | nm s1 rc1 w1 s2 where "orcm_analytics_base_workflow_object_init e nm s =
          Some (Some \<lparr>wf_name = nm, workflow_id = next_id s, steps = [], wf_base = None, ev_active = False\<rparr>, s1)"
        "orcm_analytics_base_add_new_workflow_event_base e
          \<lparr>wf_name = nm, workflow_id = next_id s, steps = [], wf_base = None, ev_active = False\<rparr> s1 = Some (rc1, w1, s2)"
        "rc1 \<noteq> SUCCESS \<and> s' = wk_des w1 s2 \<or>
         rc1 = SUCCESS \<and> (\<exists>n c rc2 w3 s3 c'. add_steps e 0 n (w1, s2) c = Some (rc2, (w3, s3), c') \<and>
           (rc2 \<noteq> SUCCESS \<and> s' = wk_des w3 s3 \<or> rc2 = SUCCESS \<and> s' = s3\<lparr>workflows := workflows s3 @ [w3]\<rparr>))"
    unfolding orcm_analytics_base_workflow_add_def orcm_analytics_base_workflow_object_init_def
    by (auto simp: Let_def split: if_splits bind_splits option.splits) blast+
  then show ?thesis
  proof cases
    case 1
    with ok show ?thesis by simp
  next
    case 2
    then have s1: "s1 = s\<lparr>next_id := next_id s + 1\<rparr>"
      by (auto simp: orcm_analytics_base_workflow_object_init_def add_int_def split: if_splits bind_splits)
    let ?w = "\<lparr>wf_name = nm, workflow_id = next_id s, steps = [], wf_base = None, ev_active = False\<rparr>"
    have w: "workflow_id ?w = next_id s" "steps ?w = []" "wf_base ?w = None" by simp_all
    note base = event_base_ok [OF ok w refl 2(2) [unfolded s1]]
    from 2(3) consider "rc1 \<noteq> SUCCESS" "s' = wk_des w1 s2"
      | n c rc2 w3 s3 c' where "rc1 = SUCCESS" "add_steps e 0 n (w1, s2) c = Some (rc2, (w3, s3), c')"
          "s' = wk_des w3 s3 \<or> s' = s3\<lparr>workflows := workflows s3 @ [w3]\<rparr>"
      by blast
    then show ?thesis
    proof cases
      case 1
      with base show ?thesis by (simp add: wk_des_def)
    next
      case 2
      have 3: "table_ok (workflows s @ [w3]) s3" "workflows s3 = workflows s"
        using add_steps_ok [OF base(4) [OF 2(1)] 2(2)] base(1) by auto
      have "table_ok (workflows (wk_des w3 s3)) (wk_des w3 s3)" using wk_des_ok [OF 3(1)] 3(2) by metis
      moreover have "table_ok (workflows s3 @ [w3]) (s3\<lparr>workflows := workflows s3 @ [w3]\<rparr>)"
        using 3 by (simp add: table_ok_def)
      ultimately show ?thesis using 2(3) by auto
    qed
  qed
qed

section \<open>Removing keeps the invariant\<close>

lemma remove_workflows_ok:
  assumes "table_ok (us @ ws) s" "remove_workflows name i num ws s = Some (d, kept, s')"
  shows "table_ok (us @ kept) s'"
  using assms
proof (induction ws arbitrary: us s d kept s')
  case (Cons w ws)
  obtain s1 where stop: "orcm_analytics_stop_wokflow w s = Some (w\<lparr>ev_active := False\<rparr>, s1)" "table_ok (us @ ws) s1"
    by (rule stop_workflow [OF Cons.prems(1)])
  from Cons.prems(2) consider d' where "remove_workflows name i num ws s1 = Some (d', kept, s')"
    | kept' where "kept = w # kept'" "remove_workflows name i num ws s = Some (d, kept', s')"
    by (auto simp: stop(1) split: bind_splits if_splits)
  then show ?case
  proof cases
    case 1
    then show ?thesis by (rule Cons.IH [OF stop(2)])
  next
    case 2
    from Cons.IH [of "us @ [w]", OF _ 2(2)] Cons.prems(1) 2(1) show ?thesis by simp
  qed
qed simp

lemma workflow_remove_ok:
  assumes ok: "table_ok (workflows s) s" and rm: "orcm_analytics_base_workflow_remove e s b = Some (rc, s', b')"
  shows "table_ok (workflows s') s'"
proof -
  from rm consider "s' = s" | name i num d kept s1 where
      "remove_workflows name i num (workflows s) s = Some (d, kept, s1)" "s' = s1\<lparr>workflows := kept\<rparr>"
    unfolding orcm_analytics_base_workflow_remove_def by (auto simp: Let_def split: if_splits bind_splits)
  then show ?thesis
  proof cases
    case 1
    with ok show ?thesis by simp
  next
    case 2
    have "table_ok kept s1" using remove_workflows_ok [of "[]", OF _ 2(1)] ok by simp
    then show ?thesis by (simp add: 2(2) table_ok_def)
  qed
qed

section \<open>Every run of the framework\<close>

lemma recv_ok:
  assumes "table_ok (workflows s) s" "orcm_analytics_base_recv e s b = Some (s', ans)"
  shows "table_ok (workflows s') s'"
proof -
  from assms(2) consider "s' = s"
    | rc i b1 b2 where "orcm_analytics_base_workflow_add e s b1 = Some (rc, (i, s'), b2)"
    | rc b1 b2 where "orcm_analytics_base_workflow_remove e s b1 = Some (rc, s', b2)"
    | rc c where "orcm_analytics_base_control_storage c s = (rc, s')"
    unfolding orcm_analytics_base_recv_def by (auto simp: Let_def split: if_splits bind_splits prod.splits)
  then show ?thesis
  proof cases
    case 1
    with assms(1) show ?thesis by simp
  next
    case 2
    then show ?thesis by (rule workflow_add_ok [OF assms(1)])
  next
    case 3
    then show ?thesis by (rule workflow_remove_ok [OF assms(1)])
  next
    case 4
    with assms(1) show ?thesis by (auto simp: orcm_analytics_base_control_storage_def table_ok_def split: if_splits)
  qed
qed

lemma single_ok:
  assumes "table_ok (workflows s) s" "workflow_add_process_single_workflow e items k s = Some (rc, s')"
  shows "table_ok (workflows s') s'"
proof -
  from assms(2) consider "s' = s" | i b b' where "orcm_analytics_base_workflow_add e s b = Some (rc, (i, s'), b')"
    unfolding workflow_add_process_single_workflow_def by (auto split: if_splits bind_splits)
  then show ?thesis using assms(1) workflow_add_ok [OF assms(1)] by cases auto
qed

lemma process_workflows_ok:
  "table_ok (workflows s) s \<Longrightarrow> process_workflows e items rc s = Some (rc', s') \<Longrightarrow> table_ok (workflows s') s'"
proof (induction items arbitrary: rc s)
  case (Cons x items)
  then show ?case by (cases x) (auto split: if_splits bind_splits dest: single_ok)
qed simp

lemma load_workflows_ok:
  "table_ok (workflows s) s \<Longrightarrow> load_workflows e items s = Some s' \<Longrightarrow> table_ok (workflows s') s'"
proof (induction items arbitrary: s)
  case (Cons x items)
  show ?case
  proof (cases x)
    case (Ptr_item k ptr)
    with Cons show ?thesis
      by (auto simp: workflow_add_process_workflows_def split: if_splits bind_splits option.splits dest: process_workflows_ok)
  qed (use Cons in auto)
qed simp

lemma open_ok:
  assumes "table_ok [] s" "orcm_analytics_base_open e co file s = Some (rc, s')"
  shows "table_ok (workflows s') s'"
proof -
  have s0: "table_ok (workflows (s\<lparr>workflows := [], recv_issued := r\<rparr>)) (s\<lparr>workflows := [], recv_issued := r\<rparr>)"
      "table_ok (workflows (s\<lparr>workflows := []\<rparr>)) (s\<lparr>workflows := []\<rparr>)" for r
    using assms(1) by (simp_all add: table_ok_def)
  from assms(2) s0 show ?thesis
    by (auto simp: orcm_analytics_base_open_def Let_def orcm_analytics_base_comm_start_def
        orcm_analytics_base_load_default_workflows_def split: if_splits bind_splits option.splits
        dest: load_workflows_ok [OF s0(1)] load_workflows_ok [OF s0(2)])
qed

text \<open>The framework is opened, possibly with default workflows, and then gets messages of any content.\<close>

inductive analytics_run :: "'x analytics_env \<Rightarrow> analytics_base \<Rightarrow> analytics_base \<Rightarrow> bool" for e s where
  opened: "orcm_analytics_base_open e SUCCESS file s = Some (SUCCESS, s') \<Longrightarrow> analytics_run e s s'"
| received: "analytics_run e s s' \<Longrightarrow> orcm_analytics_base_recv e s' b = Some (s'', ans) \<Longrightarrow> analytics_run e s s''"

lemma run_ok: "analytics_run e s s' \<Longrightarrow> table_ok [] s \<Longrightarrow> table_ok (workflows s') s'"
  by (induction rule: analytics_run.induct) (auto intro: open_ok recv_ok)

lemma stop_workflows_all:
  assumes "table_ok ws s"
  shows "\<exists>s'. stop_workflows ws s = Some (map (\<lambda>w. w\<lparr>ev_active := False\<rparr>) ws, s') \<and> table_ok [] s' \<and>
    live_mods s' = filter (\<lambda>h. h \<notin> set (all_mods ws)) (live_mods s)"
  using assms
proof (induction ws arbitrary: s)
  case (Cons w ws)
  obtain s1 where stop: "orcm_analytics_stop_wokflow w s = Some (w\<lparr>ev_active := False\<rparr>, s1)" "table_ok ws s1"
      "live_mods s1 = filter (\<lambda>h. h \<notin> set (mods_of w)) (live_mods s)"
    by (rule stop_workflow [of "[]" w ws s]) (use Cons.prems in simp_all)
  from Cons.IH [OF stop(2)] stop(1,3) show ?case by (auto simp: conj_commute intro: filter_cong)
qed simp

lemma fold_wk_des_stopped: "fold wk_des (map (\<lambda>w. w\<lparr>ev_active := False\<rparr>) ws) s = s"
  by (induction ws) simp_all

text \<open>
  C3: whatever messages arrive, the identifiers in the table are different and below the next one, every
  workflow of the table has its own thread, used once, there is no other thread of a workflow, and no module belongs
  to two steps.  So the framework can be closed at any time: no module is finalized twice, all those of the table are, and
  no thread of a workflow is left.
\<close>

theorem workflow_table_invariant:
  assumes "analytics_run e s s'" "table_ok [] s"
  shows "table_ok (workflows s') s' \<and>
    (\<exists>s''. orcm_analytics_base_close rc s' = Some (rc, s'') \<and> workflows s'' = [] \<and>
       (\<forall>i\<ge>0. users (tracking s'') (wf_thread i) = 0) \<and>
       live_mods s'' = filter (\<lambda>h. h \<notin> set (all_mods (workflows s'))) (live_mods s'))"
proof -
  have ok: "table_ok (workflows s') s'" by (rule run_ok [OF assms])
  obtain s1 where s1: "stop_workflows (workflows s') s' = Some (map (\<lambda>w. w\<lparr>ev_active := False\<rparr>) (workflows s'), s1)"
      "table_ok [] s1" "live_mods s1 = filter (\<lambda>h. h \<notin> set (all_mods (workflows s'))) (live_mods s')"
    using stop_workflows_all [OF ok] by blast
  have "\<forall>i\<ge>0. users (tracking s1) (wf_thread i) = 0" using s1(2) by (simp add: table_ok_def)
  with ok s1 show ?thesis
    by (simp add: orcm_analytics_base_close_def Let_def fold_wk_des_stopped orcm_analytics_base_comm_stop_def)
qed

text \<open>A workflow of the default file is added as one that is sent.\<close>

lemma workflow_loaded:
  assumes e: "env_ok (dss e)" "objects_ok e" "components_ok e"
    and d: "description_ok d" "\<forall>st\<in>set (snd d). usable (components e) (fst st)"
    and i: "0 \<le> next_id s" "next_id s < INT_MAX"
    and T: "opal_progress_thread_init (threads e) (Some (wf_thread (next_id s))) (tracking s) = Some (Some base, T)"
  shows "workflow_add_process_single_workflow e (Some (wf_items d)) ''workflow'' s = Some (SUCCESS, with_workflow s base T d)"
proof -
  define ty where "ty = default_buf_type (dss e)"
  obtain bss b where b: "pack_all (dss e) (wf_msgs d) (opal_buffer_construct ty) = Some (SUCCESS, b)"
      "buf_holds b ([] @ concat bss) 0" "buf_type b = ty" and bss: "list_all2 (coded (dss e) ty) (wf_msgs d) bss"
    using pack_all_coded [OF e(1) packable_wf [OF d(1)] construct_holds construct_type] by blast
  have "drop 0 ([] @ concat bss) = concat bss @ []" by simp
  from fetchesD [OF fetches_add [OF e(2,3) d i T bss] b(2,3) this] extract_workflow [OF d(1) b(1)] e(2) show ?thesis
    by (simp add: workflow_add_process_single_workflow_def objects_ok_def ty_def
        del: orcm_util_workflow_add_extract_workflow_info.simps)
qed

definition example_file :: "value_item list" where
  "example_file = [Ptr_item ''workflows'' (Some [Ptr_item ''workflow'' (Some (wf_items example_description))])]"

abbreviation example_opened :: analytics_base where
  "example_opened \<equiv> with_workflow example_base 1 example_trackers example_description"

lemma example_run: "analytics_run example_analytics example_base example_opened"
proof (rule opened)
  have "workflow_add_process_single_workflow example_analytics (Some (wf_items example_description)) ''workflow'' example_base
      = Some (SUCCESS, example_opened)"
    by (rule workflow_loaded [OF example_analytics_ok(1-3) example_description_ok example_analytics_ok(4-6) example_started])
  moreover have "example_base\<lparr>workflows := []\<rparr> = example_base" "recv_issued example_base" by (simp_all add: example_base_def)
  ultimately show "orcm_analytics_base_open example_analytics SUCCESS (Some example_file) example_base
      = Some (SUCCESS, example_opened)"
    by (simp add: orcm_analytics_base_open_def orcm_analytics_base_comm_start_def Let_def example_file_def
        orcm_analytics_base_load_default_workflows_def workflow_add_process_workflows_def)
qed

lemma example_base_ok: "table_ok [] example_base"
  by (simp add: table_ok_def example_base_def trackers_ok_def users_def)

theorem workflow_table_invariant_witness:
  "table_ok (workflows example_opened) example_opened \<and>
    (\<exists>s''. orcm_analytics_base_close SUCCESS example_opened = Some (SUCCESS, s'') \<and> workflows s'' = [] \<and>
       (\<forall>i\<ge>0. users (tracking s'') (wf_thread i) = 0) \<and>
       live_mods s'' = filter (\<lambda>h. h \<notin> set (all_mods (workflows example_opened))) (live_mods example_opened))"
  by (rule workflow_table_invariant [OF example_run example_base_ok])

end
