(* ===== verification/Orcm_Workflow_Commands.thy ===== *)
theory Orcm_Workflow_Commands
  imports Orcm_Workflow_Table
begin

text \<open>
  The commands that list and remove workflows, from the tool through the aggregator back to the tool: they
  refine looking at, and filtering, the list of the identifiers and names in the table.
\<close>

section \<open>Listing\<close>

text \<open>The table as the user sees it, and what is packed for it.\<close>

definition named :: "analytics_base \<Rightarrow> string list \<Rightarrow> bool" where
  "named s names \<longleftrightarrow> map wf_name (workflows s) = map (\<lambda>n. lit n) names \<and> (\<forall>n\<in>set names. c_string n)"

definition entry_msgs :: "(int \<times> string) list \<Rightarrow> (data_type \<times> 'x vals) list" where
  "entry_msgs xs = concat (map (\<lambda>(i, n). [int_msg i, str_msg n]) xs)"

lemma packable_entries: "\<forall>(i, n)\<in>set xs. c_string n \<Longrightarrow> \<forall>(t, v)\<in>set (entry_msgs xs). packable t v"
  by (fastforce simp: entry_msgs_def)

lemma list_append_info:
  assumes "dss_mem (dss e) = always" "map wf_name ws = map (\<lambda>n. lit n) names" "\<forall>n\<in>set names. c_string n"
    and "pack_all (dss e) (entry_msgs (zip (map workflow_id ws) names)) b = Some (SUCCESS, b')"
  shows "orcm_analytics_base_workflow_list_append_info e ws b = Some (SUCCESS, b')"
  using assms(2-)
proof (induction ws arbitrary: names b)
  case Nil
  then show ?case by (simp add: entry_msgs_def)
next
  case (Cons w ws)
  then obtain n ns where names: "names = n # ns" "wf_name w = lit n" "map wf_name ws = map (\<lambda>n. lit n) ns" by (cases names) auto
  from Cons.prems(3) obtain b1 b2 where "opal_dss_pack (dss e) OPAL_INT (U32 [word_of_int (workflow_id w)]) b = Some (SUCCESS, b1)"
      "opal_dss_pack (dss e) OPAL_STRING (Strs [lit n]) b1 = Some (SUCCESS, b2)"
      "pack_all (dss e) (entry_msgs (zip (map workflow_id ws) ns)) b2 = Some (SUCCESS, b')"
    by (auto simp: names entry_msgs_def dest!: on_success_SUCCESS)
  with Cons.IH [OF names(3)] Cons.prems(2) names assms(1) show ?case
    by (simp add: orcm_analytics_base_recv_pack_int_def on_success_def strdup_lit)
qed

lemma fetches_entries:
  assumes "\<forall>(i, n)\<in>set xs. 0 \<le> i \<and> i < 2 ^ 31" "list_all2 (coded (dss e) ty) (entry_msgs xs) bss"
  shows "fetches (list_entries e (length xs) j 1 out) (concat bss) (out @ map (\<lambda>(i, n). (lit n, i)) xs) ty"
  using assms
proof (induction xs arbitrary: j out bss)
  case Nil
  then show ?case by (simp add: entry_msgs_def fetches_return)
next
  case (Cons x xs)
  obtain i n where x: "x = (i, n)" by (cases x)
  from Cons.prems(2) obtain b1 b2 bss' where bss: "bss = b1 # b2 # bss'" and 1: "coded (dss e) ty (int_msg i) b1"
      and 2: "coded (dss e) ty (str_msg n) b2" and 3: "list_all2 (coded (dss e) ty) (entry_msgs xs) bss'"
    by (auto simp: x entry_msgs_def list_all2_Cons1)
  have i: "sint (word_of_int i :: 32 word) = i" using Cons.prems(1) by (intro sint_small) (auto simp: x)
  have ih: "fetches (list_entries e (length xs) (Some i) 1 (out @ [(lit n, i)])) (concat bss')
      (out @ map (\<lambda>(i, n). (lit n, i)) (x # xs)) ty"
    using Cons.IH [OF _ 3, of "Some i" "out @ [(lit n, i)]"] Cons.prems(1) by (simp add: x)
  have "fetches (list_entries e (Suc (length xs)) j 1 out) (b1 @ b2 @ concat bss')
      (out @ map (\<lambda>(i, n). (lit n, i)) (x # xs)) ty"
    apply (rule fetches_cong [OF list_entries.simps(2)])
    apply (unfold Let_def)
    apply (rule fetches_bind [OF coded_int [OF 1]])
    apply (unfold fst_conv snd_conv stored_int.simps option.case i)
    apply (rule fetches_bind [OF coded_str [OF 2]])
    apply (unfold fst_conv snd_conv stored_string.simps Option.bind.bind_lunit)
    apply (rule ih)
    done
  then show ?case by (simp only: bss concat.simps list.size add_0_right add_Suc_right)
qed

lemma list_packed:
  assumes e: "env_ok (dss e)" and names: "named s names"
  obtains bss a where "orcm_analytics_base_workflow_list e s (opal_buffer_construct ty) = Some (SUCCESS, a)"
    "buf_holds a (concat bss) 0" "buf_type a = ty"
    "list_all2 (coded (dss e) ty) (int_msg (int (length (workflows s))) # entry_msgs (zip (map workflow_id (workflows s)) names)) bss"
proof -
  let ?xs = "zip (map workflow_id (workflows s)) names" and ?n = "int (length (workflows s))"
  have nm: "map wf_name (workflows s) = map (\<lambda>n. lit n) names" "\<forall>n\<in>set names. c_string n" using names by (auto simp: named_def)
  have "\<forall>(i, n)\<in>set ?xs. c_string n" using nm(2) by (auto dest: set_zip_rightD)
  from packable_entries [OF this] have "\<forall>(t, v)\<in>set (int_msg ?n # entry_msgs ?xs). packable t v" by auto
  from pack_all_coded [OF e this construct_holds construct_type [of ty], unfolded append_Nil]
  obtain bss a where a: "pack_all (dss e) (int_msg ?n # entry_msgs ?xs) (opal_buffer_construct ty) = Some (SUCCESS, a)"
      "buf_holds a (concat bss) 0" "buf_type a = ty" "list_all2 (coded (dss e) ty) (int_msg ?n # entry_msgs ?xs) bss" by blast
  from a(1) obtain a1 where a1: "opal_dss_pack (dss e) OPAL_INT (U32 [word_of_int ?n]) (opal_buffer_construct ty) = Some (SUCCESS, a1)"
      "pack_all (dss e) (entry_msgs ?xs) a1 = Some (SUCCESS, a)"
    unfolding pack_all.simps by (blast dest!: on_success_SUCCESS)
  have "orcm_analytics_base_workflow_list_append_info e (workflows s) a1 = Some (SUCCESS, a)"
    by (rule list_append_info [OF _ nm a1(2)]) (use e in \<open>simp add: env_ok_def\<close>)
  with a1 have "orcm_analytics_base_workflow_list e s (opal_buffer_construct ty) = Some (SUCCESS, a)"
    by (auto simp: orcm_analytics_base_workflow_list_def orcm_analytics_base_recv_pack_int_def on_success_def entry_msgs_def)
  with a show thesis by (intro that)
qed

lemma list_read:
  assumes range: "\<forall>(i, n)\<in>set xs. 0 \<le> i \<and> i < 2 ^ 31" and len: "length xs < 2 ^ 31"
    and bss: "list_all2 (coded (dss e) ty) (int_msg (int (length xs)) # entry_msgs xs) bss"
  shows "fetches (workflow_list_unpack_buffer e) (concat bss) (map (\<lambda>(i, n). (lit n, i)) xs) ty"
proof -
  from bss obtain b1 bss' where bs': "bss = b1 # bss'" and 1: "coded (dss e) ty (int_msg (int (length xs))) b1"
      and 2: "list_all2 (coded (dss e) ty) (entry_msgs xs) bss'" by (auto simp: list_all2_Cons1)
  have n: "nat (sint (word_of_int (int (length xs)) :: 32 word)) = length xs" using sint_of_length [OF len] by simp
  have "fetches (workflow_list_unpack_buffer e) (b1 @ concat bss') ([] @ map (\<lambda>(i, n). (lit n, i)) xs) ty"
    apply (rule fetches_cong [OF workflow_list_unpack_buffer_def])
    apply (rule fetches_bind [OF coded_int [OF 1]])
    apply (unfold fst_conv snd_conv stored_int.simps Option.bind.bind_lunit n)
    apply (rule fetches_entries [OF range 2])
    done
  then show ?thesis by (simp add: bs')
qed

lemmas commands = ORCM_ANALYTICS_WORKFLOW_ADD_def ORCM_ANALYTICS_WORKFLOW_REMOVE_def ORCM_ANALYTICS_WORKFLOW_LIST_def

text \<open>
  C20: the tool reports the workflows of the table, each with its identifier and name, in the order of the
  table, and asking does not change it.
\<close>

theorem workflow_listed:
  assumes e: "env_ok (dss e)" "objects_ok e" and ok: "table_ok (workflows s) s" and small: "next_id s \<le> INT_MAX"
    and len: "length (workflows s) < 2 ^ 31" and names: "named s names"
  shows "\<exists>b. workflow_list_pack_buffer e (opal_buffer_construct (default_buf_type (dss e))) = Some (SUCCESS, b) \<and>
    delivered b b \<and>
    (\<forall>r. delivered b r \<longrightarrow>
       (\<exists>ans. orcm_analytics_base_recv e s r = Some (s, Some ans) \<and> delivered ans ans \<and>
          (\<forall>q. delivered ans q \<longrightarrow>
             (\<exists>q'. workflow_list_unpack_buffer e q =
                Some (SUCCESS, zip (map (\<lambda>n. lit n) names) (map workflow_id (workflows s)), q')))))"
proof -
  define ty where "ty = default_buf_type (dss e)"
  let ?xs = "zip (map workflow_id (workflows s)) names"
  have ln: "length names = length (workflows s)" using names arg_cong [of _ _ length] by (fastforce simp: named_def dest: map_eq_imp_length_eq)
  have out: "map (\<lambda>(i, n). (lit n, i)) ?xs = zip (map (\<lambda>n. lit n) names) (map workflow_id (workflows s))"
    by (rule nth_equalityI) (simp_all add: ln)
  have range: "\<forall>(i, n)\<in>set ?xs. 0 \<le> i \<and> i < 2 ^ 31"
    using ok small by (fastforce simp: table_ok_def INT_MAX_def dest!: set_zip_leftD)
  obtain bs b where b: "opal_dss_pack (dss e) OPAL_UINT8 (U8 [ORCM_ANALYTICS_WORKFLOW_LIST]) (opal_buffer_construct ty) = Some (SUCCESS, b)"
      "buf_holds b bs 0" "buf_type b = ty" and cmd: "coded (dss e) ty (cmd_msg ORCM_ANALYTICS_WORKFLOW_LIST) bs"
    by (rule packs_command [OF e(1)])
  obtain bss a where a: "orcm_analytics_base_workflow_list e s (opal_buffer_construct ty) = Some (SUCCESS, a)"
      "buf_holds a (concat bss) 0" "buf_type a = ty"
      and bss: "list_all2 (coded (dss e) ty) (int_msg (int (length (workflows s))) # entry_msgs ?xs) bss"
    by (rule list_packed [OF e(1) names])
  obtain as a2 where a2: "orcm_analytics_base_recv_pack_int e (status_code SUCCESS) a = Some (SUCCESS, a2)"
      "buf_holds a2 (concat bss @ as) 0" "buf_type a2 = ty"
    by (rule recv_pack_int [OF e(1) a(2,3)])
  have un: "fetches (workflow_list_unpack_buffer e) (concat bss) (zip (map (\<lambda>n. lit n) names) (map workflow_id (workflows s))) ty"
    unfolding out [symmetric] by (rule list_read [OF range]) (use ln len bss in simp_all)
  have "orcm_analytics_base_recv e s r = Some (s, Some a2)" if r: "delivered b r" for r
  proof -
    obtain r' where "orcm_analytics_base_recv_unpack_uint8_t e r = Some (ORCM_ANALYTICS_WORKFLOW_LIST, r')"
      by (rule command_read [OF cmd _ b(3) r, of "[]"]) (use b(2) in simp_all)
    then show ?thesis
      using e(2) a(1) a2(1)
      by (simp add: orcm_analytics_base_recv_def objects_ok_def ty_def [symmetric] orcm_analytics_base_recv_send_answer_def commands)
  qed
  moreover have "delivered a2 a2" "delivered b b" using delivered_refl a2(2) b(2) by blast+
  moreover note fetches_delivered [OF un a2(2,3)]
  ultimately show ?thesis using b(1) by (fastforce simp: workflow_list_pack_buffer_def ty_def [symmetric])
qed

lemma named_example: "named example_opened [''hot'']"
  by (simp add: named_def with_workflow_def made_workflow_def example_description_def example_base_def c_string_def char_byte_def)

lemma example_opened_facts:
  "next_id example_opened \<le> INT_MAX" "length (workflows example_opened) < 2 ^ 31" "table_ok (workflows example_opened) example_opened"
  using run_ok [OF example_run example_base_ok]
  by (simp_all add: with_workflow_def example_base_def INT_MAX_def)

theorem workflow_listed_witness:
  "\<exists>b. workflow_list_pack_buffer example_analytics (opal_buffer_construct (default_buf_type (dss example_analytics))) = Some (SUCCESS, b) \<and>
    delivered b b \<and>
    (\<forall>r. delivered b r \<longrightarrow>
       (\<exists>ans. orcm_analytics_base_recv example_analytics example_opened r = Some (example_opened, Some ans) \<and> delivered ans ans \<and>
          (\<forall>q. delivered ans q \<longrightarrow>
             (\<exists>q'. workflow_list_unpack_buffer example_analytics q =
                Some (SUCCESS, zip (map (\<lambda>n. lit n) [''hot'']) (map workflow_id (workflows example_opened)), q')))))"
  by (rule workflow_listed [OF example_analytics_ok(1,2) example_opened_facts(3,1,2) named_example])

section \<open>Removing\<close>

text \<open>
  The identifier as the user gives it: a number, or \<open>None\<close> for the wild card.  The name may be the wild
  card too; then the identifier does not matter.
\<close>

definition id_text :: "int option \<Rightarrow> string" where
  "id_text i = (case i of None \<Rightarrow> ''*'' | Some n \<Rightarrow> decimal (nat n))"

definition chosen :: "string \<Rightarrow> int option \<Rightarrow> workflow \<Rightarrow> bool" where
  "chosen name i w \<longleftrightarrow> name = ''*'' \<or> wf_name w = lit name \<and> (i = None \<or> i = Some (workflow_id w))"

lemma byte_char_byte [simp]: "byte_char (char_byte c) = c"
proof -
  have "(of_char c :: nat) < 256" by (simp add: of_char_def take_bit_nat_def)
  then have "unat (of_nat (of_char c) :: byte) = of_char c" by (simp add: unat_of_nat)
  then show ?thesis by (simp add: byte_char_def char_byte_def)
qed

lemma star_string [simp]: "c_string ''*''"
  by (simp add: c_string_def char_byte_def)

lemma decimal_string: "n < 2 ^ 31 \<Longrightarrow> c_string (decimal n)"
proof -
  assume n: "n < 2 ^ 31"
  have "char_byte c \<noteq> 0" if "isdigit c" for c
    using that char_byte_inj [of c "CHR 0x00"] by (auto simp: isdigit_def char_byte_def)
  then have "0 \<notin> set (map char_byte (decimal n))" using decimal_digits [of n] by force
  moreover have "length (decimal n) \<le> 10" by (rule length_decimal_le) (use n in auto)
  ultimately show ?thesis by (simp add: c_string_def)
qed

lemma id_string: "\<forall>n. i = Some n \<longrightarrow> 0 \<le> n \<and> n \<le> INT_MAX \<Longrightarrow> c_string (id_text i)"
  by (cases i) (auto simp: id_text_def INT_MAX_def intro: decimal_string)

lemma num_id:
  assumes i: "\<forall>n. i = Some n \<longrightarrow> 0 \<le> n \<and> n \<le> INT_MAX"
  shows "workflow_num_id (lit (id_text i)) = Some (case i of None \<Rightarrow> -1 | Some n \<Rightarrow> n)"
proof (cases i)
  case None
  then show ?thesis by (simp add: workflow_num_id_def id_text_def WORKFLOW_WILD_CHARACTER_def)
next
  case (Some n)
  with i have n: "0 \<le> n" "n \<le> INT_MAX" by auto
  let ?d = "decimal (nat n)"
  have c: "c_string ?d" using id_string [OF i] by (simp add: id_text_def Some)
  have dig: "isdigit (last ?d)" using decimal_digits [of "nat n"] by simp
  then have "?d \<noteq> ''*''" by (auto simp: isdigit_def)
  moreover have "strlen (cstr_bytes ?d) = Some (length ?d)"
    using strlen_proper [OF proper_cstr [OF c]] by (simp add: cstr_bytes_def)
  moreover have "cstr_bytes ?d ! (length ?d - Suc 0) = char_byte (last ?d)"
    by (simp add: cstr_bytes_def nth_append last_conv_nth)
  moreover have "map byte_char (take (length ?d) (cstr_bytes ?d)) = ?d"
    by (simp add: cstr_bytes_def comp_def)
  moreover have "strtol ?d = (n, [], False)"
    using strtol_decimal [of "[]" "nat n"] n by (simp add: INT_MAX_def LONG_MAX_def)
  ultimately show ?thesis
    using c dig n by (simp add: workflow_num_id_def id_text_def Some WORKFLOW_WILD_CHARACTER_def INT_MAX_def)
qed

lemma selects_chosen:
  assumes "\<forall>n. i = Some n \<longrightarrow> 0 \<le> n \<and> n \<le> INT_MAX" "c_string name" "wf_name w = lit n" "c_string n" "0 \<le> workflow_id w"
  shows "remove_selects (lit name) (lit (id_text i)) (case i of None \<Rightarrow> -1 | Some n \<Rightarrow> n) w = Some (chosen name i w)"
proof -
  have "id_text i = ''*'' \<longleftrightarrow> i = None"
  proof (cases i)
    case (Some n)
    have "isdigit (hd (decimal (nat n)))" using decimal_digits [of "nat n"] by simp
    with Some show ?thesis by (auto simp: id_text_def isdigit_def)
  qed (simp add: id_text_def)
  with assms id_string [OF assms(1)] show ?thesis
    by (auto simp: remove_selects_def WORKFLOW_WILD_CHARACTER_def chosen_def split: option.splits)
qed

lemma remove_chosen:
  assumes i: "\<forall>n. i = Some n \<longrightarrow> 0 \<le> n \<and> n \<le> INT_MAX" and nm: "c_string name"
    and "table_ok (us @ ws) s" "\<forall>w\<in>set ws. \<exists>n. wf_name w = lit n \<and> c_string n"
  shows "\<exists>s'. remove_workflows (lit name) (lit (id_text i)) (case i of None \<Rightarrow> -1 | Some n \<Rightarrow> n) ws s =
    Some (\<exists>w\<in>set ws. chosen name i w, filter (\<lambda>w. \<not> chosen name i w) ws, s')"
  using assms(3-)
proof (induction ws arbitrary: us s)
  case (Cons w ws)
  obtain n where n: "wf_name w = lit n" "c_string n" using Cons.prems(2) by auto
  have "0 \<le> workflow_id w" using Cons.prems(1) by (simp add: table_ok_def)
  note sel = selects_chosen [OF i nm n this]
  obtain s1 where stop: "orcm_analytics_stop_wokflow w s = Some (w\<lparr>ev_active := False\<rparr>, s1)" "table_ok (us @ ws) s1"
    by (rule stop_workflow [OF Cons.prems(1)])
  from Cons.IH [OF stop(2)] Cons.IH [of "us @ [w]" s] Cons.prems stop(1) sel show ?case
    by (cases "chosen name i w") auto
qed simp

lemma remove_packed:
  assumes e: "env_ok (dss e)" and str: "c_string name" "c_string i"
  obtains b bs cs ds where "workflow_remove_pack_buffer e name i (opal_buffer_construct ty) = Some (SUCCESS, b)"
    "buf_holds b (bs @ cs @ ds) 0" "buf_type b = ty" "coded (dss e) ty (cmd_msg ORCM_ANALYTICS_WORKFLOW_REMOVE) bs"
    "coded (dss e) ty (str_msg name) cs" "coded (dss e) ty (str_msg i) ds"
proof -
  let ?ms = "[cmd_msg ORCM_ANALYTICS_WORKFLOW_REMOVE, str_msg name, str_msg i]"
  have "\<forall>(t, v)\<in>set ?ms. packable t v" using str by simp
  from pack_all_coded [OF e this construct_holds construct_type [of ty], unfolded append_Nil]
  obtain bss b where b: "pack_all (dss e) ?ms (opal_buffer_construct ty) = Some (SUCCESS, b)"
      "buf_holds b (concat bss) 0" "buf_type b = ty" "list_all2 (coded (dss e) ty) ?ms bss" by blast
  from b(1) have "workflow_remove_pack_buffer e name i (opal_buffer_construct ty) = Some (SUCCESS, b)"
    by (auto simp: workflow_remove_pack_buffer_def pack_string_def on_success_def bind_eq_Some_conv split: if_splits)
  moreover from b(4) obtain bs cs ds where "bss = [bs, cs, ds]" "coded (dss e) ty (cmd_msg ORCM_ANALYTICS_WORKFLOW_REMOVE) bs"
    "coded (dss e) ty (str_msg name) cs" "coded (dss e) ty (str_msg i) ds"
    unfolding list_all2_Cons1 by blast
  ultimately show thesis using b(2,3) that by simp
qed

lemma remove_read:
  assumes r: "buf_holds r D u" "buf_type r = ty" "drop u D = cs @ ds"
    and cs: "coded (dss e) ty (str_msg name) cs" and ds: "coded (dss e) ty (str_msg i) ds"
    and num: "workflow_num_id (lit i) = Some num"
    and rm: "remove_workflows (lit name) (lit i) num (workflows s) s = Some (d, kept, s')"
  shows "\<exists>r'. orcm_analytics_base_workflow_remove e s r = Some (if d then SUCCESS else ERROR, s'\<lparr>workflows := kept\<rparr>, r')"
proof -
  have d2: "drop (u + length cs) D = ds @ []" using advance_holds(2) [OF r(1,3)] by simp
  from fetchesD [OF coded_str [OF cs] r(1,2,3)] fetchesD [OF coded_str [OF ds] advance_holds(1) [OF r(1,3)] _ d2] r(2)
  show ?thesis by (simp add: orcm_analytics_base_workflow_remove_def ANALYTICS_COUNT_DEFAULT_def num rm)
qed

text \<open>
  C19: the command that removes workflows takes out exactly those the user chose, by name and number or by
  wild cards, keeps the others in order, and the tool reports a deletion when there was one.  The table stays
  consistent, so that the threads and modules of the others are untouched.
\<close>

theorem workflow_removed:
  assumes e: "env_ok (dss e)" "objects_ok e" and ok: "table_ok (workflows s) s" and names: "named s names"
    and nm: "c_string name" and i: "\<forall>n. i = Some n \<longrightarrow> 0 \<le> n \<and> n \<le> INT_MAX"
  shows "\<exists>b. workflow_remove_pack_buffer e name (id_text i) (opal_buffer_construct (default_buf_type (dss e))) = Some (SUCCESS, b) \<and>
    delivered b b \<and>
    (\<forall>r. delivered b r \<longrightarrow>
       (\<exists>s' ans. orcm_analytics_base_recv e s r = Some (s', Some ans) \<and>
          workflows s' = filter (\<lambda>w. \<not> chosen name i w) (workflows s) \<and> table_ok (workflows s') s' \<and> delivered ans ans \<and>
          (\<forall>q. delivered ans q \<longrightarrow>
             workflow_remove_unpack_buffer e q = Some (SUCCESS, \<exists>w\<in>set (workflows s). chosen name i w))))"
proof -
  define ty where "ty = default_buf_type (dss e)"
  obtain b bs cs ds where b: "workflow_remove_pack_buffer e name (id_text i) (opal_buffer_construct ty) = Some (SUCCESS, b)"
      "buf_holds b (bs @ cs @ ds) 0" "buf_type b = ty" and cmd: "coded (dss e) ty (cmd_msg ORCM_ANALYTICS_WORKFLOW_REMOVE) bs"
      and cs: "coded (dss e) ty (str_msg name) cs" and ds: "coded (dss e) ty (str_msg (id_text i)) ds"
    by (rule remove_packed [OF e(1) nm id_string [OF i]])
  have "\<forall>w\<in>set (workflows s). \<exists>n. wf_name w = lit n \<and> c_string n"
  proof
    fix w assume "w \<in> set (workflows s)"
    then have "wf_name w \<in> set (map wf_name (workflows s))" by simp
    also have "map wf_name (workflows s) = map (\<lambda>n. lit n) names" using names by (simp add: named_def)
    finally show "\<exists>n. wf_name w = lit n \<and> c_string n" using names by (auto simp: named_def)
  qed
  then obtain s1 where rm: "remove_workflows (lit name) (lit (id_text i)) (case i of None \<Rightarrow> -1 | Some n \<Rightarrow> n) (workflows s) s =
      Some (\<exists>w\<in>set (workflows s). chosen name i w, filter (\<lambda>w. \<not> chosen name i w) (workflows s), s1)"
    using remove_chosen [OF i nm, of "[]", unfolded append_Nil, OF ok] by blast
  define rc where "rc = (if \<exists>w\<in>set (workflows s). chosen name i w then SUCCESS else ERROR)"
  obtain as a where a: "orcm_analytics_base_recv_pack_int e (status_code rc) (opal_buffer_construct ty) = Some (SUCCESS, a)"
      "buf_holds a ([] @ as) 0" "buf_type a = ty" and as: "coded (dss e) ty (int_msg (status_code rc)) as"
    by (rule recv_pack_int [OF e(1) construct_holds construct_type])
  have "workflow_remove_unpack_buffer e q = Some (SUCCESS, \<exists>w\<in>set (workflows s). chosen name i w)" if q: "delivered a q" for q
    by (rule int_answer [OF as _ a(3) q status_code_range [THEN conjunct1] status_code_range [THEN conjunct2], of "[]"])
      (use a(2) in \<open>simp_all add: workflow_remove_unpack_buffer_def rc_def del: stored_int.simps\<close>)
  moreover have "\<exists>s'. orcm_analytics_base_recv e s r = Some (s', Some a) \<and>
      workflows s' = filter (\<lambda>w. \<not> chosen name i w) (workflows s) \<and> table_ok (workflows s') s'" if r: "delivered b r" for r
  proof -
    obtain r' where r': "orcm_analytics_base_recv_unpack_uint8_t e r = Some (ORCM_ANALYTICS_WORKFLOW_REMOVE, r')"
        "buf_holds r' (bs @ cs @ ds) (length bs)" "buf_type r' = ty"
      by (rule command_read [OF cmd b(2,3) r])
    have "drop (length bs) (bs @ cs @ ds) = cs @ ds" by simp
    from remove_read [OF r'(2,3) this cs ds num_id [OF i] rm]
    have "orcm_analytics_base_recv e s r = Some (s1\<lparr>workflows := filter (\<lambda>w. \<not> chosen name i w) (workflows s)\<rparr>, Some a)"
      using e(2) r'(1) a(1)
      by (auto simp: orcm_analytics_base_recv_def objects_ok_def ty_def [symmetric] orcm_analytics_base_recv_send_answer_def
          commands rc_def)
    with recv_ok [OF ok] show ?thesis by fastforce
  qed
  moreover have "delivered a a" "delivered b b" using delivered_refl a(2) b(2) by blast+
  ultimately show ?thesis using b(1) unfolding ty_def [symmetric] by blast
qed

theorem workflow_removed_witness:
  "\<exists>b. workflow_remove_pack_buffer example_analytics ''hot'' (id_text (Some 0))
      (opal_buffer_construct (default_buf_type (dss example_analytics))) = Some (SUCCESS, b) \<and> delivered b b \<and>
    (\<forall>r. delivered b r \<longrightarrow>
       (\<exists>s' ans. orcm_analytics_base_recv example_analytics example_opened r = Some (s', Some ans) \<and>
          workflows s' = filter (\<lambda>w. \<not> chosen ''hot'' (Some 0) w) (workflows example_opened) \<and>
          table_ok (workflows s') s' \<and> delivered ans ans \<and>
          (\<forall>q. delivered ans q \<longrightarrow> workflow_remove_unpack_buffer example_analytics q =
             Some (SUCCESS, \<exists>w\<in>set (workflows example_opened). chosen ''hot'' (Some 0) w))))"
  by (rule workflow_removed [OF example_analytics_ok(1,2) example_opened_facts(3) named_example])
    (simp_all add: c_string_def char_byte_def INT_MAX_def)

section \<open>Corner cases\<close>

text \<open>Only the last character of the identifier is checked, and an empty one is read before its start.\<close>

lemma id_last_character: "workflow_num_id (lit ''x3'') = Some 0"
  by code_simp

lemma empty_id_undefined: "workflow_num_id (lit []) = None"
  by code_simp

text \<open>NULL for the name, which a message can contain, is read as soon as there is a workflow to compare with.\<close>

lemma null_name_undefined: "remove_selects None i num w = None"
  by (simp add: remove_selects_def strcmp_eq_def)

text \<open>Releasing a workflow that could not be added finalizes none of the modules of its steps.\<close>

lemma release_keeps_modules: "live_mods (wk_des w s) = live_mods s"
  by (simp add: wk_des_def orcm_analytics_stop_wokflow_thread_def)

text \<open>The microseconds are divided by ten million, so that they never count.\<close>

lemma timeval_truncated: "usec < 10 ^ 6 \<Longrightarrow> orcm_analytics_base_timeval_to_uint64 sec usec = word_of_int sec"
  by (simp add: orcm_analytics_base_timeval_to_uint64_def)

text \<open>Storing only the environment does not stop storing events.\<close>

lemma environment_only_keeps_events:
  "store_event_data (snd (orcm_analytics_base_control_storage 1 s)) = store_event_data s"
  by (simp add: orcm_analytics_base_control_storage_def)

lemma compute_type_roundtrip:
  "0 \<le> k \<Longrightarrow> k \<le> 3 \<Longrightarrow> orcm_analytics_base_get_compute_type (Some (orcm_analytics_base_set_compute_type k)) = k"
  by (auto simp: orcm_analytics_base_get_compute_type_def orcm_analytics_base_set_compute_type_def strncmp_eq_def)

text \<open>An unknown plugin is accepted, and the step has no module.\<close>

lemma unknown_plugin_accepted:
  "orcm_analytics_base_select_workflow_step (components example_analytics)
      \<lparr>attributes = [], analytic = lit ''none'', step_id = 1, step_mod = None\<rparr> s =
    Some (SUCCESS, \<lparr>attributes = [], analytic = lit ''none'', step_id = 1, step_mod = None\<rparr>, s)"
  by (rule select_none [where name = "''none''"])
    (simp_all add: example_analytics_def c_string_def char_byte_def MCA_BASE_MAX_COMPONENT_NAME_LEN_def)

end
