(* ===== verification/Orcm_Cott.thy ===== *)
theory Orcm_Cott
  imports C_Strings "HOL-Library.Sublist"
begin

text \<open>
  The analytics plugin that watches counters over time, \<^verbatim>\<open>orcm/mca/analytics/cott\<close>: one counter
  (\<^verbatim>\<open>analyze_counter.cpp\<close>), the counters of all hosts and labels
  (\<^verbatim>\<open>host_analyze_counters.cpp\<close>), and the step of a workflow (\<^verbatim>\<open>analytics_cott.cpp\<close>).

  Counts are 32 bits wide and wrap; times are \<^verbatim>\<open>time_t\<close>, 64 bits and signed, and arithmetic on them
  is undefined when it overflows, which is \<open>None\<close>.  Memory is taken to be available, as the classes do:
  \<^verbatim>\<open>new\<close> throws and nothing catches it.
\<close>

section \<open>One counter\<close>

definition in_long :: "int \<Rightarrow> int option" where
  "in_long n = (if LONG_MIN \<le> n \<and> n \<le> LONG_MAX then Some n else None)"

text \<open>An event: how much the counter rose, in what time, and the values seen.\<close>

type_synonym sample = "32 word \<times> int"
type_synonym counter_event = "32 word \<times> int \<times> 32 word list"

record counter =
  window_size :: int
  threshold :: "32 word"
  past_data :: "sample list"

definition analyze_counter :: counter where
  "analyze_counter = \<lparr>window_size = 1, threshold = 1, past_data = []\<rparr>"

definition lookup_factor :: "char \<Rightarrow> int" where
  "lookup_factor c =
     (if c = CHR ''s'' then 1 else if c = CHR ''m'' then 60 else if c = CHR ''h'' then 3600
      else if c = CHR ''d'' then 86400 else 0)"

definition cott_blank :: "char \<Rightarrow> bool" where
  "cott_blank c \<longleftrightarrow> c \<in> {CHR 0x20, CHR 0x09, CHR 0x0A, CHR 0x0D, CHR 0x0C}"

text \<open>From the first to the last character that is not blank.\<close>

definition trim :: "string \<Rightarrow> string" where
  "trim str = rev (dropWhile cott_blank (rev (dropWhile cott_blank str)))"

text \<open>\<^verbatim>\<open>(time_t)strtoull(str, NULL, 10)\<close> of a string of digits.\<close>

definition to_time :: "string \<Rightarrow> int" where
  "to_time ds = (let n = min (2 ^ 64 - 1) (int (digits_value ds)) in if n < 2 ^ 63 then n else n - 2 ^ 64)"

definition set_window_size :: "string \<Rightarrow> counter \<Rightarrow> counter option" where
  "set_window_size dur_str c =
     (let str = trim dur_str
      in if str = [] then Some c
         else
           let last_char = last str;
               has_unit = last_char \<in> {CHR ''s'', CHR ''m'', CHR ''h'', CHR ''d''};
               type = (if has_unit then last_char else CHR ''s'');
               str = (if has_unit then butlast str else str)
           in if str \<noteq> [] \<and> list_all isdigit str
              then do { val \<leftarrow> in_long (to_time str * lookup_factor type);
                        Some (if 1 \<le> val then c\<lparr>window_size := val\<rparr> else c) }
              else Some c)"

definition set_threshold :: "32 word \<Rightarrow> counter \<Rightarrow> counter" where
  "set_threshold limit c = (if limit \<noteq> 0 then c\<lparr>threshold := limit\<rparr> else c)"

text \<open>The loop that removes expired samples; once none is left, the difference is 0.\<close>

fun expire :: "int \<Rightarrow> int \<Rightarrow> sample list \<Rightarrow> sample list option" where
  "expire window tval [] = (if window < 0 then None else Some [])"
| "expire window tval ((v, t) # ps) =
     do { tdiff \<leftarrow> in_long (tval - t);
          if window < tdiff then expire window tval ps else Some ((v, t) # ps) }"

definition counter_add_value :: "32 word \<Rightarrow> int \<Rightarrow> counter \<Rightarrow> (counter_event option \<times> counter) option" where
  "counter_add_value val tval c =
     do { past \<leftarrow> (if past_data c \<noteq> [] then expire (window_size c) tval (past_data c) else Some []);
          if past \<noteq> [] \<and> (val < fst (hd past) \<or> val < fst (last past))
          then Some (None, c\<lparr>past_data := [(val, tval)]\<rparr>)
          else
            let error_count = (if past \<noteq> [] then val - fst (hd past) else 0)
            in if threshold c \<le> error_count
               then do { _ \<leftarrow> (if past = [] then None else Some ());
                         elapsed \<leftarrow> in_long (tval - snd (hd past));
                         Some (Some (error_count, elapsed, map fst past @ [val]), c\<lparr>past_data := [(val, tval)]\<rparr>) }
               else Some (None, c\<lparr>past_data := past @ [(val, tval)]\<rparr>) }"

section \<open>The counters of all hosts\<close>

text \<open>The maps of the class are ordered by their keys; only what they hold matters here.\<close>

record host_counters =
  window_text :: string
  host_threshold :: "32 word"
  label_mask :: string
  mask_parts :: "string list"
  data_db :: "string \<times> string \<Rightarrow> counter option"

definition host_analyze_counters :: host_counters where
  "host_analyze_counters =
     \<lparr>window_text = ''5s'', host_threshold = 1, label_mask = [], mask_parts = [], data_db = (\<lambda>_. None)\<rparr>"

text \<open>Setting the window of every counter; one that overflows makes the whole call undefined.\<close>

definition host_set_window_size :: "string \<Rightarrow> host_counters \<Rightarrow> host_counters option" where
  "host_set_window_size dur_str h =
     (if set_window_size dur_str analyze_counter = None \<and> data_db h \<noteq> (\<lambda>_. None) then None
      else Some (h\<lparr>window_text := dur_str,
                   data_db := (\<lambda>k. Option.bind (data_db h k) (set_window_size dur_str))\<rparr>))"

definition host_set_threshold :: "32 word \<Rightarrow> host_counters \<Rightarrow> host_counters" where
  "host_set_threshold limit h =
     h\<lparr>host_threshold := limit, data_db := (\<lambda>k. map_option (set_threshold limit) (data_db h k))\<rparr>"

text \<open>
  The parts between the asterisks that are not empty.  The loop cuts off one part at each asterisk; the rest
  counts only when there was one.
\<close>

function parts_loop :: "bool \<Rightarrow> string \<Rightarrow> string list" where
  "parts_loop found str =
     (if CHR ''*'' \<in> set str
      then (case takeWhile (\<lambda>c. c \<noteq> CHR ''*'') str of [] \<Rightarrow> [] | part \<Rightarrow> [part])
             @ parts_loop True (tl (dropWhile (\<lambda>c. c \<noteq> CHR ''*'') str))
      else if found \<and> str \<noteq> [] then [str] else [])"
  by pat_completeness auto
termination
proof (relation "measure (length \<circ> snd)")
  fix found and str :: string assume "CHR ''*'' \<in> set str"
  then have "length (dropWhile (\<lambda>c. c \<noteq> CHR ''*'') str) \<le> length str" "str \<noteq> []"
    by (auto simp: length_dropWhile_le)
  then show "((True, tl (dropWhile (\<lambda>c. c \<noteq> CHR ''*'') str)), found, str) \<in> measure (length \<circ> snd)"
    by (cases str) auto
qed simp

declare parts_loop.simps [simp del]

definition set_value_label_mask :: "string \<Rightarrow> host_counters \<Rightarrow> host_counters" where
  "set_value_label_mask str h = h\<lparr>label_mask := str, mask_parts := parts_loop False str\<rparr>"

text \<open>\<^verbatim>\<open>label.find(part, pos)\<close> on the rest of the label from \<^verbatim>\<open>pos\<close>: what follows the first occurrence.\<close>

fun after_first :: "string \<Rightarrow> string \<Rightarrow> string option" where
  "after_first part str =
     (if prefix part str then Some (drop (length part) str)
      else case str of [] \<Rightarrow> None | _ # str' \<Rightarrow> after_first part str')"

declare after_first.simps [simp del]

fun scan_parts :: "string list \<Rightarrow> string \<Rightarrow> bool" where
  "scan_parts [] str = True"
| "scan_parts (p # ps) str = (case after_first p str of None \<Rightarrow> False | Some rest \<Rightarrow> scan_parts ps rest)"

definition is_wanted_label :: "host_counters \<Rightarrow> string \<Rightarrow> bool" where
  "is_wanted_label h label =
     (if label = [] then False
      else if list_all (\<lambda>c. c = CHR ''*'') (label_mask h) then True
      else if mask_parts h = [] then label = label_mask h
      else scan_parts (mask_parts h) label)"

definition new_counter :: "host_counters \<Rightarrow> counter option" where
  "new_counter h = do { c \<leftarrow> set_window_size (window_text h) analyze_counter; Some (set_threshold (host_threshold h) c) }"

definition host_add_value ::
  "string \<Rightarrow> string \<Rightarrow> 32 word \<Rightarrow> int \<Rightarrow> host_counters \<Rightarrow> (counter_event option \<times> host_counters) option" where
  "host_add_value host label val tval h =
     (if host = [] \<or> label = [] then Some (None, h)
      else do { c \<leftarrow> (case data_db h (host, label) of Some c \<Rightarrow> Some c | None \<Rightarrow> new_counter h);
                (ev, c) \<leftarrow> counter_add_value val tval c;
                Some (ev, h\<lparr>data_db := (data_db h)((host, label) \<mapsto> c)\<rparr>) })"

section \<open>The step of a workflow\<close>

text \<open>
  What one run of the step gets: the attributes of the step, and the keys, times and counters of the data.  Keys
  and strings are not NULL.  Which of the objects an event consists of can be made is a parameter.
\<close>

record step_data =
  fault_type :: int
  store_event :: bool
  severity :: int
  use_notifier :: bool
  notifier_action :: string

definition global_step_data :: step_data where
  "global_step_data = \<lparr>fault_type = 1, store_event = True, severity = 3, use_notifier = False, notifier_action = ''none''\<rparr>"

record cott_globals =
  counter_analyzer :: "host_counters option"
  step_conf :: step_data

record cott_caddy =
  caddy_ok :: status
  step_attributes :: "(string \<times> string) list"
  data_key :: "(string \<times> string) list"
  non_compute_data :: "(string \<times> int) list"
  compute_data :: "(string \<times> 32 word) list"

record cott_objects =
  value_loaded :: bool
  store_made :: bool
  notify_made :: bool
  lists_made :: bool

datatype cott_action =
    Store_event int int
  | Notify_event int int string "32 word" "32 word" string string

definition lookup_fault :: "string \<Rightarrow> int option" where
  "lookup_fault = map_of [(''soft'', 0), (''hard'', 1)]"

definition lookup_store :: "string \<Rightarrow> bool option" where
  "lookup_store = map_of [(''yes'', True), (''true'', True), (''1'', True), (''no'', False), (''false'', False), (''0'', False)]"

definition lookup_severity :: "string \<Rightarrow> int option" where
  "lookup_severity = map_of [(''emerg'', 0), (''alert'', 1), (''crit'', 2), (''error'', 3), (''warn'', 4), (''notice'', 5),
     (''info'', 6), (''debug'', 7)]"

text \<open>
  There is one analyzer for all steps of all workflows.  Initializing a step replaces it, and finalizing a
  step deletes it.  The argument is the status of creating the tables of the module.
\<close>

definition cott_init :: "status \<Rightarrow> cott_globals \<Rightarrow> status \<times> cott_globals" where
  "cott_init tables g =
     (if tables \<noteq> SUCCESS then (tables, g) else (SUCCESS, g\<lparr>counter_analyzer := Some host_analyze_counters\<rparr>))"

definition cott_finalize :: "cott_globals \<Rightarrow> cott_globals" where
  "cott_finalize g = g\<lparr>counter_analyzer := None\<rparr>"

definition count_threshold :: "string \<Rightarrow> 32 word" where
  "count_threshold str =
     (let val = fst (strtol str)
      in if length str \<le> 10 \<and> val < 2 ^ 32 \<and> 0 < val then word_of_int val else 1)"

text \<open>One attribute; the ones about the counters need the analyzer.\<close>

definition set_attribute :: "string \<Rightarrow> string \<Rightarrow> cott_globals \<Rightarrow> cott_globals option" where
  "set_attribute key val g =
     (if key = ''label_mask''
      then map_option (\<lambda>h. g\<lparr>counter_analyzer := Some (set_value_label_mask val h)\<rparr>) (counter_analyzer g)
      else if key = ''time_window''
      then do { h \<leftarrow> counter_analyzer g; h \<leftarrow> host_set_window_size val h; Some (g\<lparr>counter_analyzer := Some h\<rparr>) }
      else if key = ''count_threshold''
      then map_option (\<lambda>h. g\<lparr>counter_analyzer := Some (host_set_threshold (count_threshold val) h)\<rparr>) (counter_analyzer g)
      else if key = ''fault_type''
      then Some (case lookup_fault val of None \<Rightarrow> g | Some f \<Rightarrow> g\<lparr>step_conf := (step_conf g)\<lparr>fault_type := f\<rparr>\<rparr>)
      else if key = ''store_event''
      then Some (case lookup_store val of None \<Rightarrow> g | Some b \<Rightarrow> g\<lparr>step_conf := (step_conf g)\<lparr>store_event := b\<rparr>\<rparr>)
      else if key = ''notifier_action''
      then Some (g\<lparr>step_conf := (step_conf g)\<lparr>use_notifier := val \<noteq> ''none'', notifier_action := val\<rparr>\<rparr>)
      else if key = ''severity''
      then Some (case lookup_severity val of None \<Rightarrow> g | Some n \<Rightarrow> g\<lparr>step_conf := (step_conf g)\<lparr>severity := n\<rparr>\<rparr>)
      else Some g)"

fun set_attributes :: "(string \<times> string) list \<Rightarrow> cott_globals \<Rightarrow> cott_globals option" where
  "set_attributes [] g = Some g"
| "set_attributes ((key, val) # as) g = do { g \<leftarrow> set_attribute key val g; set_attributes as g }"

definition get_hostname_from_caddy :: "cott_caddy \<Rightarrow> string" where
  "get_hostname_from_caddy d = (case map_of (data_key d) ''hostname'' of None \<Rightarrow> [] | Some host \<Rightarrow> host)"

definition get_timeval_from_caddy :: "cott_caddy \<Rightarrow> int" where
  "get_timeval_from_caddy d = (case map_of (non_compute_data d) ''ctime'' of None \<Rightarrow> 0 | Some t \<Rightarrow> t)"

text \<open>
  The callback appends the count to the data for the next step, and makes the events the step is configured
  for; it stops at the first that cannot be made.
\<close>

definition cott_event_fired_callback ::
  "cott_objects \<Rightarrow> step_data \<Rightarrow> 32 word \<Rightarrow> string \<Rightarrow> string \<Rightarrow> 32 word
     \<Rightarrow> (string \<times> 32 word) list \<times> cott_action list \<Rightarrow> (string \<times> 32 word) list \<times> cott_action list" where
  "cott_event_fired_callback obj conf limit host label n out =
     (if \<not> value_loaded obj then out
      else
        let out = (fst out @ [(label, n)], snd out)
        in if store_event conf \<and> \<not> store_made obj then out
           else
             let out = (if store_event conf then (fst out, snd out @ [Store_event (severity conf) (fault_type conf)]) else out)
             in if use_notifier conf \<and> notify_made obj
                then (fst out, snd out @ [Notify_event (severity conf) (fault_type conf) label n limit host (notifier_action conf)])
                else out)"

fun add_data_values ::
  "cott_objects \<Rightarrow> string \<Rightarrow> int \<Rightarrow> (string \<times> 32 word) list \<Rightarrow> step_data \<Rightarrow> host_counters
     \<Rightarrow> (string \<times> 32 word) list \<times> cott_action list
     \<Rightarrow> (((string \<times> 32 word) list \<times> cott_action list) \<times> host_counters) option" where
  "add_data_values obj host tv [] conf h out = Some (out, h)"
| "add_data_values obj host tv ((label, val) # items) conf h out =
     (if is_wanted_label h label
      then do { (ev, h) \<leftarrow> host_add_value host label val tv h;
                add_data_values obj host tv items conf h
                  (case ev of None \<Rightarrow> out
                   | Some (n, elapsed, raw) \<Rightarrow> cott_event_fired_callback obj conf (host_threshold h) host label n out) }
      else add_data_values obj host tv items conf h out)"

text \<open>The result has the data for the next step and the events, unless the step stops early.\<close>

definition cott_analyze ::
  "cott_objects \<Rightarrow> cott_caddy \<Rightarrow> cott_globals
     \<Rightarrow> (status \<times> ((string \<times> 32 word) list \<times> cott_action list) option \<times> cott_globals) option" where
  "cott_analyze obj d g =
     (if caddy_ok d \<noteq> SUCCESS then Some (caddy_ok d, None, g)
      else
        do { g \<leftarrow> set_attributes (step_attributes d) g;
             let hostname = get_hostname_from_caddy d;
             let tv = get_timeval_from_caddy d;
             if hostname = [] \<or> tv = 0 then Some (ERROR, None, g)
             else if \<not> lists_made obj then Some (ERR_OUT_OF_RESOURCE, None, g)
             else if compute_data d = [] then Some (SUCCESS, Some ([], []), g)
             else do { h \<leftarrow> counter_analyzer g;
                       (out, h) \<leftarrow> add_data_values obj hostname tv (compute_data d) (step_conf g) h ([], []);
                       Some (SUCCESS, Some out, g\<lparr>counter_analyzer := Some h\<rparr>) } })"

end
