(* ===== verification/Orcm_Cott_Laws.thy ===== *)
theory Orcm_Cott_Laws
  imports Orcm_Cott
begin

text \<open>
  What the counter plugin computes.  A counter that forgets expired samples fires exactly when one that keeps
  all samples since the last reset does; the counters of different hosts and labels do not influence each
  other; and the label mask is a pattern in which the asterisk stands for any text, matched anywhere in the label.
\<close>

section \<open>A counter that forgets nothing\<close>

text \<open>
  The reference keeps every sample since the last event or decrease.  Those in the window are \<open>recent\<close>.  A value
  below the last recent one starts over; otherwise an event fires when the counter rose by the threshold
  since some recent sample, and reports the rise since the first of them.
\<close>

definition recent :: "int \<Rightarrow> int \<Rightarrow> sample list \<Rightarrow> sample list" where
  "recent w t hist = filter (\<lambda>p. t - snd p \<le> w) hist"

definition ref_add :: "int \<Rightarrow> 32 word \<Rightarrow> sample \<Rightarrow> sample list \<Rightarrow> counter_event option \<times> sample list" where
  "ref_add w limit x hist =
     (let r = recent w (snd x) hist
      in if r \<noteq> [] \<and> fst x < fst (last r) then (None, [x])
         else if \<exists>p\<in>set r. limit \<le> fst x - fst p
         then (Some (fst x - fst (hd r), snd x - snd (hd r), map fst r @ [fst x]), [x])
         else (None, hist @ [x]))"

fun ref_run :: "int \<Rightarrow> 32 word \<Rightarrow> sample list \<Rightarrow> sample list \<Rightarrow> counter_event option list" where
  "ref_run w limit hist [] = []"
| "ref_run w limit hist (x # xs) = fst (ref_add w limit x hist) # ref_run w limit (snd (ref_add w limit x hist)) xs"

fun counter_run :: "sample list \<Rightarrow> counter \<Rightarrow> (counter_event option list \<times> counter) option" where
  "counter_run [] c = Some ([], c)"
| "counter_run (x # xs) c =
     do { (ev, c) \<leftarrow> counter_add_value (fst x) (snd x) c; (evs, c) \<leftarrow> counter_run xs c; Some (ev # evs, c) }"

definition plausible :: "int \<Rightarrow> bool" where
  "plausible t \<longleftrightarrow> 0 \<le> t \<and> t \<le> LONG_MAX"

lemma in_long_diff [simp]: "plausible t \<Longrightarrow> plausible s \<Longrightarrow> in_long (t - s) = Some (t - s)"
  by (simp add: plausible_def in_long_def LONG_MIN_def LONG_MAX_def)

lemma expire_recent:
  assumes "0 \<le> w" "plausible t" "\<forall>p\<in>set ps. plausible (snd p)" "sorted (map snd ps)"
  shows "expire w t ps = Some (recent w t ps)"
  using assms(3-)
proof (induction ps)
  case (Cons p ps)
  obtain v s where p: "p = (v, s)" by (cases p)
  show ?case
  proof (cases "w < t - s")
    case True
    with Cons p assms(2) show ?thesis by (simp add: recent_def)
  next
    case False
    have "filter (\<lambda>q. t - snd q \<le> w) ps = ps"
      using Cons.prems(2) False p by (intro filter_True) auto
    with False Cons.prems p assms(2) show ?thesis by (simp add: recent_def)
  qed
qed (use assms(1) in \<open>simp add: recent_def\<close>)

text \<open>How the samples kept relate to the whole history at time \<open>T\<close>.\<close>

definition tracks :: "int \<Rightarrow> int \<Rightarrow> sample list \<Rightarrow> sample list \<Rightarrow> bool" where
  "tracks w T hist past \<longleftrightarrow>
     (\<exists>old. hist = old @ past \<and> (\<forall>p\<in>set old. w < T - snd p)) \<and> sorted (map snd hist) \<and> sorted (map fst past) \<and>
     (\<forall>p\<in>set hist. plausible (snd p) \<and> snd p \<le> T)"

lemma word_diff_antimono: "a \<le> b \<Longrightarrow> b \<le> (c :: 32 word) \<Longrightarrow> c - b \<le> c - a"
  by (simp add: word_le_nat_alt unat_sub)

lemma sorted_last: "sorted xs \<Longrightarrow> x \<in> set xs \<Longrightarrow> x \<le> last xs"
  by (cases xs rule: rev_cases) (auto simp: sorted_append)

lemma tracks_recent:
  assumes "tracks w T hist past" "T \<le> t"
  shows "recent w t hist = recent w t past"
proof -
  from assms(1) obtain old where old: "hist = old @ past" "\<forall>p\<in>set old. w < T - snd p" by (auto simp: tracks_def)
  have "filter (\<lambda>p. t - snd p \<le> w) old = []" using old(2) assms(2) by (auto simp: filter_empty_conv)
  then show ?thesis by (simp add: recent_def old(1))
qed

lemma tracks_add:
  assumes tr: "tracks w T hist past" and t: "T \<le> t" "plausible t"
    and le: "recent w t past = [] \<or> fst (last (recent w t past)) \<le> v"
  shows "tracks w t (hist @ [(v, t)]) (recent w t past @ [(v, t)])"
proof -
  from tr obtain old where old: "hist = old @ past" "\<forall>p\<in>set old. w < T - snd p" by (auto simp: tracks_def)
  have s: "sorted (map snd past)" "sorted (map fst past)" using tr old(1) by (auto simp: tracks_def sorted_append)
  obtain gone where gone: "past = gone @ recent w t past" "\<forall>p\<in>set gone. w < t - snd p"
  proof -
    have "past = takeWhile (\<lambda>p. w < t - snd p) past @ dropWhile (\<lambda>p. w < t - snd p) past" by simp
    moreover have "dropWhile (\<lambda>p. w < t - snd p) past = recent w t past"
      using s(1)
    proof (induction past)
      case (Cons p ps)
      have "filter (\<lambda>q. t - snd q \<le> w) ps = ps" if "t - snd p \<le> w"
        using Cons.prems that by (intro filter_True) auto
      with Cons show ?case by (auto simp: recent_def)
    qed (simp add: recent_def)
    ultimately show thesis using that [of "takeWhile (\<lambda>p. w < t - snd p) past"] by (auto dest: set_takeWhileD)
  qed
  have sf: "sorted (map fst (recent w t past))"
    using s(2) gone(1) by (metis map_append sorted_append)
  have "\<forall>p\<in>set (recent w t past). fst p \<le> v"
  proof
    fix p assume p: "p \<in> set (recent w t past)"
    then have "recent w t past \<noteq> []" by auto
    with sorted_last [OF sf, of "fst p"] p have "fst p \<le> fst (last (recent w t past))" by (simp add: last_map)
    with le p show "fst p \<le> v" by auto
  qed
  then have "sorted (map fst (recent w t past @ [(v, t)]))" using sf by (auto simp: sorted_append)
  moreover have "hist @ [(v, t)] = (old @ gone) @ recent w t past @ [(v, t)]" using old(1) gone(1) by simp
  moreover have "\<forall>p\<in>set (old @ gone). w < t - snd p" using old(2) gone(2) t(1) by auto
  moreover have "sorted (map snd (hist @ [(v, t)]))" "\<forall>p\<in>set (hist @ [(v, t)]). plausible (snd p) \<and> snd p \<le> t"
    using tr t by (auto simp: tracks_def sorted_append)
  ultimately show ?thesis unfolding tracks_def by blast
qed

lemma tracks_one: "plausible t \<Longrightarrow> tracks w t [(v, t)] [(v, t)]"
  by (simp add: tracks_def)

lemma rises_since_first:
  assumes "sorted (map fst r)" "\<not> (r \<noteq> [] \<and> v < fst (last r))"
  shows "(\<exists>q\<in>set r. limit \<le> v - fst q) \<longleftrightarrow> r \<noteq> [] \<and> limit \<le> v - fst (hd r :: sample)"
    and "r \<noteq> [] \<Longrightarrow> \<not> v < fst (hd r)"
proof -
  have top: "fst q \<le> v" if "q \<in> set r" for q
  proof -
    have "fst q \<le> last (map fst r)" using that by (intro sorted_last [OF assms(1)]) simp
    also have "\<dots> = fst (last r)" using that by (cases r) (auto simp: last_map)
    also have "\<dots> \<le> v" using assms(2) that by (cases r) (auto simp: not_less)
    finally show ?thesis .
  qed
  have first: "fst (hd r) \<le> fst q" if "q \<in> set r" for q using assms(1) that by (cases r) auto
  show "r \<noteq> [] \<Longrightarrow> \<not> v < fst (hd r)" using top [of "hd r"] by (simp add: not_less)
  show "(\<exists>q\<in>set r. limit \<le> v - fst q) \<longleftrightarrow> r \<noteq> [] \<and> limit \<le> v - fst (hd r)"
  proof
    assume "\<exists>q\<in>set r. limit \<le> v - fst q"
    then obtain q where q: "q \<in> set r" "limit \<le> v - fst q" by blast
    then show "r \<noteq> [] \<and> limit \<le> v - fst (hd r)"
      using order.trans [OF q(2) word_diff_antimono [OF first [OF q(1)] top [OF q(1)]]] by auto
  qed auto
qed

lemma counter_step:
  assumes c: "1 \<le> window_size c" "threshold c \<noteq> 0" and tr: "tracks (window_size c) T hist (past_data c)"
    and t: "T \<le> t" "plausible t"
  shows "\<exists>past. counter_add_value v t c = Some (fst (ref_add (window_size c) (threshold c) (v, t) hist), c\<lparr>past_data := past\<rparr>) \<and>
    tracks (window_size c) t (snd (ref_add (window_size c) (threshold c) (v, t) hist)) past"
proof -
  let ?w = "window_size c" and ?p = "past_data c"
  define r where "r = recent ?w t ?p"
  have hist: "recent ?w t hist = r" unfolding r_def by (rule tracks_recent [OF tr t(1)])
  have s: "sorted (map snd ?p)" "\<forall>q\<in>set ?p. plausible (snd q)" "sorted (map fst ?p)"
    using tr by (auto simp: tracks_def sorted_append)
  have ex: "(if ?p \<noteq> [] then expire ?w t ?p else Some []) = Some r"
    using expire_recent [OF _ t(2) s(2,1)] c(1) by (simp add: r_def recent_def)
  have sr: "sorted (map fst r)" using s(3) unfolding r_def recent_def by (rule sorted_filter)
  have pl: "\<forall>q\<in>set r. plausible (snd q)" using s(2) by (simp add: r_def recent_def)
  show ?thesis
  proof (cases "r \<noteq> [] \<and> v < fst (last r)")
    case True
    then show ?thesis
      using tracks_one [OF t(2)]
      by (intro exI [of _ "[(v, t)]"]) (simp add: counter_add_value_def ref_add_def Let_def hist ex)
  next
    case False
    note fires = rises_since_first(1) [OF sr False] and down = rises_since_first(2) [OF sr False]
    show ?thesis
    proof (cases "r \<noteq> [] \<and> threshold c \<le> v - fst (hd r)")
      case True
      then have "in_long (t - snd (hd r)) = Some (t - snd (hd r))" using t(2) pl by simp
      with True down tracks_one [OF t(2)] False show ?thesis
        by (intro exI [of _ "[(v, t)]"]) (simp add: counter_add_value_def ref_add_def Let_def hist ex fires)
    next
      case no: False
      have up: "recent ?w t ?p = [] \<or> fst (last (recent ?w t ?p)) \<le> v" using False by (auto simp: r_def)
      have "\<not> threshold c \<le> (if r \<noteq> [] then v - fst (hd r) else 0)" using no c(2) by auto
      with no False down tracks_add [OF tr t up] show ?thesis
        by (intro exI [of _ "r @ [(v, t)]"])
          (cases "r = []"; simp add: counter_add_value_def ref_add_def Let_def hist ex fires r_def [symmetric])
    qed
  qed
qed

lemma counter_run_tracks:
  assumes "1 \<le> window_size c" "threshold c \<noteq> 0" "tracks (window_size c) T hist (past_data c)"
    and "sorted (map snd xs)" "\<forall>x\<in>set xs. plausible (snd x) \<and> T \<le> snd x"
  shows "\<exists>past. counter_run xs c = Some (ref_run (window_size c) (threshold c) hist xs, c\<lparr>past_data := past\<rparr>)"
  using assms
proof (induction xs arbitrary: T hist c)
  case Nil
  then show ?case by (intro exI [of _ "past_data c"]) simp
next
  case (Cons x xs)
  let ?r = "ref_add (window_size c) (threshold c) x hist"
  have x: "T \<le> snd x" "plausible (snd x)" using Cons.prems(5) by auto
  obtain past where p: "counter_add_value (fst x) (snd x) c = Some (fst ?r, c\<lparr>past_data := past\<rparr>)"
      "tracks (window_size c) (snd x) (snd ?r) past"
    using counter_step [OF Cons.prems(1-3) x, of "fst x"] by auto
  have "\<exists>past'. counter_run xs (c\<lparr>past_data := past\<rparr>) =
      Some (ref_run (window_size c) (threshold c) (snd ?r) xs, c\<lparr>past_data := past'\<rparr>)"
    using Cons.IH [of "c\<lparr>past_data := past\<rparr>" "snd x" "snd ?r"] Cons.prems p(2) by simp
  with p(1) show ?case by auto
qed

lemma counter_run_fresh:
  assumes "1 \<le> window_size c" "threshold c \<noteq> 0" "past_data c = []"
    and "sorted (map snd xs)" "\<forall>x\<in>set xs. plausible (snd x)"
  shows "\<exists>past. counter_run xs c = Some (ref_run (window_size c) (threshold c) [] xs, c\<lparr>past_data := past\<rparr>)"
proof -
  have "tracks (window_size c) 0 [] (past_data c)" using assms(3) by (simp add: tracks_def)
  then show ?thesis
    using assms by (intro counter_run_tracks [where T = 0]) (auto simp: plausible_def)
qed

text \<open>
  C15: a counter that drops the samples outside its window, and then looks at the first and the last only,
  fires at the same samples, with the same count, time and values, as the reference that keeps all samples, when
  the times do not go back.  No operation on it is undefined then.
\<close>

theorem counter_reference:
  assumes "1 \<le> window_size c" "threshold c \<noteq> 0" "past_data c = []"
    and "sorted (map snd xs)" "\<forall>x\<in>set xs. plausible (snd x)"
  shows "\<exists>past. counter_run xs c = Some (ref_run (window_size c) (threshold c) [] xs, c\<lparr>past_data := past\<rparr>)"
  using assms by (rule counter_run_fresh)

theorem counter_reference_witness:
  "\<exists>past. counter_run [(0, 10), (3, 11), (4, 14), (9, 15), (2, 16)] (analyze_counter\<lparr>window_size := 3, threshold := 5\<rparr>)
     = Some (ref_run 3 5 [] [(0, 10), (3, 11), (4, 14), (9, 15), (2, 16)],
         (analyze_counter\<lparr>window_size := 3, threshold := 5\<rparr>)\<lparr>past_data := past\<rparr>)
   \<and> ref_run 3 5 [] [(0, 10), (3, 11), (4, 14), (9, 15), (2, 16)] = [None, None, None, Some (5, 1, [4, 9]), None]"
proof -
  have "ref_run 3 5 [] [(0, 10), (3, 11), (4, 14), (9, 15), (2, 16)] = [None, None, None, Some (5, 1, [4, 9]), None]"
    by code_simp
  then show ?thesis
    using counter_reference [of "analyze_counter\<lparr>window_size := 3, threshold := 5\<rparr>"
        "[(0, 10), (3, 11), (4, 14), (9, 15), (2, 16)]"]
    by (simp add: analyze_counter_def plausible_def LONG_MAX_def)
qed

section \<open>Settings\<close>

lemma analyze_counter_ok: "1 \<le> window_size analyze_counter" "threshold analyze_counter \<noteq> 0" "past_data analyze_counter = []"
  by (simp_all add: analyze_counter_def)

lemma set_window_size_keeps:
  assumes "set_window_size str c = Some c'" "1 \<le> window_size c"
  shows "1 \<le> window_size c'" "threshold c' = threshold c" "past_data c' = past_data c"
  using assms by (auto simp: set_window_size_def Let_def split: if_splits bind_splits)

lemma new_counter_ok:
  "new_counter h = Some c \<Longrightarrow> 1 \<le> window_size c \<and> threshold c \<noteq> 0 \<and> past_data c = []"
  using set_window_size_keeps [OF _ analyze_counter_ok(1)] analyze_counter_ok
  by (auto simp: new_counter_def set_threshold_def split: bind_splits if_splits)

section \<open>Hosts and labels\<close>

text \<open>Samples of several hosts and labels, and the events that are reported for them.\<close>

type_synonym host_sample = "(string \<times> string) \<times> sample"

fun host_run :: "host_sample list \<Rightarrow> host_counters \<Rightarrow> (counter_event option list \<times> host_counters) option" where
  "host_run [] h = Some ([], h)"
| "host_run ((k, x) # xs) h =
     do { (ev, h) \<leftarrow> host_add_value (fst k) (snd k) (fst x) (snd x) h; (evs, h) \<leftarrow> host_run xs h; Some (ev # evs, h) }"

definition of_key :: "string \<times> string \<Rightarrow> host_sample list \<Rightarrow> sample list" where
  "of_key k xs = map snd (filter (\<lambda>x. fst x = k) xs)"

text \<open>The events of the samples with one key, in order.\<close>

definition events_of :: "string \<times> string \<Rightarrow> host_sample list \<Rightarrow> counter_event option list \<Rightarrow> counter_event option list" where
  "events_of k xs evs = map snd (filter (\<lambda>(x, ev). fst x = k) (zip xs evs))"

abbreviation counter_for :: "host_counters \<Rightarrow> string \<times> string \<Rightarrow> counter option" where
  "counter_for h k \<equiv> (case data_db h k of Some c \<Rightarrow> Some c | None \<Rightarrow> new_counter h)"

lemma host_run_counters:
  assumes "\<forall>x\<in>set xs. fst (fst x) \<noteq> [] \<and> snd (fst x) \<noteq> []"
    and "\<forall>k. \<exists>c evs c'. counter_for h k = Some c \<and> counter_run (of_key k xs) c = Some (evs, c')"
  shows "\<exists>evs h'. host_run xs h = Some (evs, h') \<and> length evs = length xs \<and>
    (\<forall>k. \<exists>c c'. counter_for h k = Some c \<and> counter_run (of_key k xs) c = Some (events_of k xs evs, c'))"
  using assms
proof (induction xs arbitrary: h)
  case Nil
  then show ?case by (auto simp: of_key_def events_of_def)
next
  case (Cons x xs)
  obtain k v t where x: "x = (k, (v, t))" by (cases x) auto
  obtain c ev c1 where c: "counter_for h k = Some c" "counter_add_value v t c = Some (ev, c1)"
    and rest: "\<exists>evs c'. counter_run (of_key k xs) c1 = Some (evs, c')"
  proof -
    obtain c evs c' where "counter_for h k = Some c" "counter_run ((v, t) # of_key k xs) c = Some (evs, c')"
      using Cons.prems(2) [rule_format, of k] by (auto simp: x of_key_def)
    then show thesis using that by (cases "counter_add_value v t c") (auto split: bind_splits)
  qed
  define h1 where "h1 = h\<lparr>data_db := (data_db h)(k \<mapsto> c1)\<rparr>"
  have step: "host_add_value (fst k) (snd k) v t h = Some (ev, h1)"
    using Cons.prems(1) c by (simp add: x host_add_value_def h1_def)
  have new: "new_counter h1 = new_counter h" by (simp add: new_counter_def h1_def)
  have for1: "counter_for h1 k = Some c1" "j \<noteq> k \<Longrightarrow> counter_for h1 j = counter_for h j" for j
    unfolding new by (simp_all add: h1_def)
  have other: "j \<noteq> k \<Longrightarrow> of_key j (x # xs) = of_key j xs" for j by (simp add: x of_key_def)
  have "\<exists>c evs c'. counter_for h1 j = Some c \<and> counter_run (of_key j xs) c = Some (evs, c')" for j
  proof (cases "j = k")
    case False
    with Cons.prems(2) [rule_format, of j] for1(2) [OF False] other [OF False] show ?thesis by simp
  qed (use rest for1(1) in simp)
  then have "\<forall>j. \<exists>c evs c'. counter_for h1 j = Some c \<and> counter_run (of_key j xs) c = Some (evs, c')" by simp
  from Cons.IH [OF _ this] Cons.prems(1) obtain evs h' where ih: "host_run xs h1 = Some (evs, h')" "length evs = length xs"
      "\<And>j. \<exists>c c'. counter_for h1 j = Some c \<and> counter_run (of_key j xs) c = Some (events_of j xs evs, c')"
    by auto
  have "\<exists>c c'. counter_for h j = Some c \<and> counter_run (of_key j (x # xs)) c = Some (events_of j (x # xs) (ev # evs), c')" for j
  proof (cases "j = k")
    case True
    with ih(3) [of k] for1(1) c show ?thesis by (auto simp: x of_key_def events_of_def)
  next
    case False
    with ih(3) [of j] for1(2) [OF False] show ?thesis by (auto simp: x of_key_def events_of_def)
  qed
  with ih(1,2) step show ?case by (intro exI [of _ "ev # evs"] exI [of _ h']) (simp add: x)
qed

text \<open>
  C16: the analyzer keeps one counter per host and label.  Samples of several hosts and labels may arrive in any
  order, as long as those of one host and label do not go back in time.  Nothing is undefined then, and the
  events of each host and label are those of the reference for its own samples: no other host or label can
  cause, suppress or change them.
\<close>

theorem hosts_independent:
  assumes "data_db h = (\<lambda>_. None)" "new_counter h = Some c"
    and "\<forall>x\<in>set xs. fst (fst x) \<noteq> [] \<and> snd (fst x) \<noteq> [] \<and> plausible (snd (snd x))"
    and "\<forall>k. sorted (map snd (of_key k xs))"
  shows "\<exists>evs h'. host_run xs h = Some (evs, h') \<and> length evs = length xs \<and>
    (\<forall>k. events_of k xs evs = ref_run (window_size c) (threshold c) [] (of_key k xs))"
proof -
  have run: "\<exists>past. counter_run (of_key k xs) c = Some (ref_run (window_size c) (threshold c) [] (of_key k xs), c\<lparr>past_data := past\<rparr>)" for k
  proof -
    have "\<forall>x\<in>set (of_key k xs). plausible (snd x)" using assms(3) by (auto simp: of_key_def)
    then show ?thesis
      using new_counter_ok [OF assms(2)] assms(4) [rule_format, of k] by (intro counter_run_fresh) auto
  qed
  have "\<forall>k. \<exists>c evs c'. counter_for h k = Some c \<and> counter_run (of_key k xs) c = Some (evs, c')"
    using assms(1,2) run by (simp add: split_paired_Ex) blast
  from host_run_counters [OF _ this] assms(3) obtain evs h' where
    r: "host_run xs h = Some (evs, h')" "length evs = length xs"
      "\<forall>k. \<exists>c c'. counter_for h k = Some c \<and> counter_run (of_key k xs) c = Some (events_of k xs evs, c')"
    by auto
  have "events_of k xs evs = ref_run (window_size c) (threshold c) [] (of_key k xs)" for k
    using r(3) [rule_format, of k] run [of k] assms(1,2) by auto
  with r(1,2) show ?thesis by blast
qed

theorem hosts_independent_witness:
  "\<exists>evs h'. host_run [((''a'', ''x''), 1, 10), ((''b'', ''x''), 7, 10), ((''a'', ''x''), 2, 12), ((''b'', ''x''), 7, 11)]
       host_analyze_counters = Some (evs, h') \<and>
     events_of (''a'', ''x'') [((''a'', ''x''), 1, 10), ((''b'', ''x''), 7, 10), ((''a'', ''x''), 2, 12), ((''b'', ''x''), 7, 11)] evs
       = [None, Some (1, 2, [1, 2])] \<and>
     events_of (''b'', ''x'') [((''a'', ''x''), 1, 10), ((''b'', ''x''), 7, 10), ((''a'', ''x''), 2, 12), ((''b'', ''x''), 7, 11)] evs
       = [None, None]"
proof -
  let ?xs = "[((''a'', ''x''), 1, 10), ((''b'', ''x''), 7, 10), ((''a'', ''x''), 2, 12), ((''b'', ''x''), 7, 11)] :: host_sample list"
  have c: "new_counter host_analyze_counters = Some \<lparr>window_size = 5, threshold = 1, past_data = []\<rparr>" by code_simp
  have k: "of_key (''a'', ''x'') ?xs = [(1, 10), (2, 12)]" "of_key (''b'', ''x'') ?xs = [(7, 10), (7, 11)]"
    by (simp_all add: of_key_def)
  have r: "ref_run 5 1 [] [(1, 10), (2, 12)] = [None, Some (1, 2, [1, 2])]" "ref_run 5 1 [] [(7, 10), (7, 11)] = [None, None]"
    by code_simp+
  have p: "\<forall>x\<in>set ?xs. fst (fst x) \<noteq> [] \<and> snd (fst x) \<noteq> [] \<and> plausible (snd (snd x))"
    by (simp add: plausible_def LONG_MAX_def)
  have s: "\<forall>k. sorted (map snd (of_key k ?xs))" by (simp add: of_key_def)
  from hosts_independent [OF _ c p s] obtain evs h' where
    e: "host_run ?xs host_analyze_counters = Some (evs, h')" "\<forall>k. events_of k ?xs evs = ref_run 5 1 [] (of_key k ?xs)"
    by (auto simp: host_analyze_counters_def)
  show ?thesis
  proof (intro exI conjI)
    show "host_run ?xs host_analyze_counters = Some (evs, h')" by (rule e(1))
    show "events_of (''a'', ''x'') ?xs evs = [None, Some (1, 2, [1, 2])]" using e(2) k r by simp
    show "events_of (''b'', ''x'') ?xs evs = [None, None]" using e(2) k r by simp
  qed
qed

section \<open>The label mask\<close>

text \<open>A pattern matches the whole text; the asterisk stands for any text.\<close>

fun glob :: "string \<Rightarrow> string \<Rightarrow> bool" where
  "glob [] s \<longleftrightarrow> s = []"
| "glob (p # ps) [] \<longleftrightarrow> p = CHR ''*'' \<and> glob ps []"
| "glob (p # ps) (c # s) \<longleftrightarrow> (if p = CHR ''*'' then glob ps (c # s) \<or> glob (p # ps) s else p = c \<and> glob ps s)"

lemma glob_star: "glob (CHR ''*'' # q) s \<longleftrightarrow> (\<exists>a b. s = a @ b \<and> glob q b)"
proof (induction s)
  case (Cons c s)
  have "(\<exists>a b. c # s = a @ b \<and> glob q b) \<longleftrightarrow> glob q (c # s) \<or> (\<exists>a b. s = a @ b \<and> glob q b)"
    by (auto simp: Cons_eq_append_conv)
  with Cons show ?case by simp
qed simp

lemma glob_literal: "CHR ''*'' \<notin> set lit \<Longrightarrow> glob (lit @ q) s \<longleftrightarrow> (\<exists>b. s = lit @ b \<and> glob q b)"
proof (induction lit arbitrary: s)
  case (Cons c lit)
  then show ?case by (cases s) auto
qed simp

text \<open>The parts occur in the text one after the other.\<close>

fun in_order :: "string list \<Rightarrow> string \<Rightarrow> bool" where
  "in_order [] s = True"
| "in_order (p # ps) s = (\<exists>a b. s = a @ p @ b \<and> in_order ps b)"

lemma in_order_prefix: "in_order ps b \<Longrightarrow> in_order ps (a @ b)"
  by (cases ps) (auto, metis append.assoc)

lemma after_first_prefix [simp]: "after_first p (p @ s) = Some s"
  by (subst after_first.simps) simp

lemma after_first_skip: "\<not> prefix p (c # s) \<Longrightarrow> after_first p (c # s) = after_first p s"
  by (subst after_first.simps) simp

lemma after_first_sound: "after_first p s = Some r \<Longrightarrow> \<exists>a. s = a @ p @ r"
proof (induction s)
  case Nil
  then show ?case by (subst (asm) after_first.simps) (auto split: if_splits)
next
  case (Cons c s)
  show ?case
  proof (cases "prefix p (c # s)")
    case True
    then obtain t where t: "c # s = p @ t" by (auto simp: prefix_def)
    with Cons.prems have "r = t" by simp
    with t show ?thesis by (intro exI [of _ "[]"]) simp
  next
    case False
    with Cons obtain a where "s = a @ p @ r" by (auto simp: after_first_skip)
    then show ?thesis by (intro exI [of _ "c # a"]) simp
  qed
qed

lemma after_first_complete: "\<exists>x. after_first p (a @ p @ b) = Some (x @ b)"
proof (induction a)
  case (Cons c a)
  show ?case
  proof (cases "prefix p (c # a @ p @ b)")
    case True
    then obtain t where t: "c # a @ p @ b = p @ t" by (auto simp: prefix_def)
    have "length b \<le> length t" using arg_cong [OF t, of length] by simp
    moreover have "suffix b (p @ t)" unfolding t [symmetric] by (simp add: suffix_def)
    ultimately have "suffix b t" using suffix_length_suffix [of b "p @ t" t] by (simp add: suffix_def)
    then show ?thesis using t by (auto simp: suffix_def)
  next
    case False
    with Cons show ?thesis by (simp add: after_first_skip)
  qed
qed (intro exI [of _ "[]"], simp)

lemma scan_parts_complete: "scan_parts ps s \<longleftrightarrow> in_order ps s"
proof (induction ps arbitrary: s)
  case (Cons p ps)
  show ?case
  proof (cases "after_first p s")
    case None
    then have "s \<noteq> a @ p @ b" for a b using after_first_complete [of p a b] by auto
    with None show ?thesis by simp
  next
    case (Some r)
    from after_first_sound [OF Some] obtain a where a: "s = a @ p @ r" by blast
    have "in_order ps r" if "s = a' @ p @ b" "in_order ps b" for a' b
      using after_first_complete [of p a' b] Some in_order_prefix [OF that(2)] that(1) by auto
    with Some a Cons show ?thesis by auto
  qed
qed simp

lemma parts_loop_last: "CHR ''*'' \<notin> set str \<Longrightarrow> parts_loop True str = (if str = [] then [] else [str])"
  by (subst parts_loop.simps) simp

lemma parts_loop_star:
  assumes "CHR ''*'' \<notin> set lit"
  shows "parts_loop found (lit @ CHR ''*'' # rest) = (if lit = [] then [] else [lit]) @ parts_loop True rest"
proof -
  have "takeWhile (\<lambda>c. c \<noteq> CHR ''*'') (lit @ CHR ''*'' # rest) = lit" "dropWhile (\<lambda>c. c \<noteq> CHR ''*'') (lit @ CHR ''*'' # rest) = CHR ''*'' # rest"
    using assms by (auto simp: takeWhile_append dropWhile_append)
  then show ?thesis by (subst parts_loop.simps) (simp split: list.split)
qed

text \<open>Induction over the asterisks of a mask.\<close>

lemma mask_induct [case_names last star]:
  assumes "\<And>str. CHR ''*'' \<notin> set str \<Longrightarrow> P str"
    and "\<And>lit rest. CHR ''*'' \<notin> set lit \<Longrightarrow> P rest \<Longrightarrow> P (lit @ CHR ''*'' # rest)"
  shows "P str"
proof (induction "length str" arbitrary: str rule: less_induct)
  case less
  show ?case
  proof (cases "CHR ''*'' \<in> set str")
    case True
    then obtain lit rest where "str = lit @ CHR ''*'' # rest" "CHR ''*'' \<notin> set lit" by (blast dest: split_list_first)
    with less assms(2) show ?thesis by simp
  qed (rule assms(1))
qed

lemma parts_glob: "glob (CHR ''*'' # str @ ''*'') s \<longleftrightarrow> in_order (parts_loop True str) s"
proof (induction str arbitrary: s rule: mask_induct)
  case (last str)
  have "glob ''*'' b" for b by (simp add: glob_star)
  then have "glob (CHR ''*'' # str @ ''*'') s \<longleftrightarrow> (\<exists>a b. s = a @ str @ b)"
    using glob_literal [OF last] by (auto simp: glob_star)
  with last show ?case by (cases "str = []") (auto simp: parts_loop_last)
next
  case (star lit rest)
  have "glob (CHR ''*'' # (lit @ CHR ''*'' # rest) @ ''*'') s \<longleftrightarrow>
      (\<exists>a b. s = a @ lit @ b \<and> glob (CHR ''*'' # rest @ ''*'') b)"
    by (simp only: append_assoc append_Cons glob_star [of "lit @ CHR ''*'' # rest @ ''*''"] glob_literal [OF star(1)]) blast
  also have "\<dots> \<longleftrightarrow> (\<exists>a b. s = a @ lit @ b \<and> in_order (parts_loop True rest) b)" by (simp add: star(2))
  also have "\<dots> \<longleftrightarrow> in_order (parts_loop True (lit @ CHR ''*'' # rest)) s"
    by (auto simp: parts_loop_star [OF star(1)] dest: in_order_prefix intro: exI [of _ "[]"])
  finally show ?case .
qed

lemma parts_loop_empty: "parts_loop True m = [] \<longleftrightarrow> list_all (\<lambda>c. c = CHR ''*'') m"
proof (induction m rule: mask_induct)
  case (last str)
  then show ?case by (cases str) (auto simp: parts_loop_last)
next
  case (star lit rest)
  show ?case unfolding parts_loop_star [OF star(1)] using star by (cases lit) auto
qed

text \<open>
  C18: a label is wanted exactly when the mask, taken as a pattern that may match anywhere in the label, matches it,
  when the mask has an asterisk; a mask without one is the label itself, and an empty mask takes every label.
  Searching for each part at its first place only is enough.
\<close>

theorem label_mask_matches:
  "is_wanted_label (set_value_label_mask m h) label \<longleftrightarrow>
     label \<noteq> [] \<and> (if CHR ''*'' \<in> set m then glob (''*'' @ m @ ''*'') label else m = [] \<or> label = m)"
proof (cases "CHR ''*'' \<in> set m")
  case True
  obtain lit rest where m: "m = lit @ CHR ''*'' # rest" "CHR ''*'' \<notin> set lit" using True by (blast dest: split_list_first)
  have parts: "parts_loop False m = parts_loop True m" unfolding m(1) parts_loop_star [OF m(2)] by simp
  have none: "parts_loop True m = [] \<longleftrightarrow> list_all (\<lambda>c. c = CHR ''*'') m"
    by (rule parts_loop_empty)
  show ?thesis
    using True parts_glob [of m label] none
    by (auto simp: is_wanted_label_def set_value_label_mask_def parts scan_parts_complete)
next
  case False
  have "parts_loop False m = []" using False by (subst parts_loop.simps) simp
  moreover have "list_all (\<lambda>c. c = CHR ''*'') m \<longleftrightarrow> m = []" using False by (cases m) auto
  ultimately show ?thesis using False by (auto simp: is_wanted_label_def set_value_label_mask_def)
qed

section \<open>One run of the step\<close>

text \<open>The samples of one run that are wanted, and what is reported for the events they fire.\<close>

definition wanted_samples :: "host_counters \<Rightarrow> string \<Rightarrow> int \<Rightarrow> (string \<times> 32 word) list \<Rightarrow> host_sample list" where
  "wanted_samples h host tv items = map (\<lambda>(label, v). ((host, label), v, tv)) (filter (is_wanted_label h \<circ> fst) items)"

definition fired :: "host_sample list \<Rightarrow> counter_event option list \<Rightarrow> (string \<times> 32 word) list" where
  "fired xs evs = List.map_filter (\<lambda>(x, ev). map_option (\<lambda>(n, _). (snd (fst x), n)) ev) (zip xs evs)"

definition event_actions :: "step_data \<Rightarrow> 32 word \<Rightarrow> string \<Rightarrow> string \<times> 32 word \<Rightarrow> cott_action list" where
  "event_actions conf limit host x =
     (if store_event conf then [Store_event (severity conf) (fault_type conf)] else []) @
     (if use_notifier conf
      then [Notify_event (severity conf) (fault_type conf) (fst x) (snd x) limit host (notifier_action conf)] else [])"

definition all_made :: "cott_objects \<Rightarrow> bool" where
  "all_made obj \<longleftrightarrow> value_loaded obj \<and> store_made obj \<and> notify_made obj \<and> lists_made obj"

lemma host_add_value_settings:
  assumes "host_add_value host label v t h = Some (ev, h')"
  shows "is_wanted_label h' = is_wanted_label h" "host_threshold h' = host_threshold h"
  using assms by (auto simp: host_add_value_def is_wanted_label_def split: if_splits bind_splits)

lemma callback_made:
  "all_made obj \<Longrightarrow> cott_event_fired_callback obj conf limit host label n out =
     (fst out @ [(label, n)], snd out @ event_actions conf limit host (label, n))"
  by (auto simp: cott_event_fired_callback_def all_made_def event_actions_def Let_def)

lemma add_data_values_run:
  assumes "all_made obj" "host_run (wanted_samples h host tv items) h = Some (evs, h')"
  shows "add_data_values obj host tv items conf h out =
    Some ((fst out @ fired (wanted_samples h host tv items) evs,
           snd out @ concat (map (event_actions conf (host_threshold h) host) (fired (wanted_samples h host tv items) evs))), h')"
  using assms(2)
proof (induction items arbitrary: h evs out)
  case Nil
  then show ?case by (simp add: wanted_samples_def fired_def map_filter_def)
next
  case (Cons x items)
  obtain label v where x: "x = (label, v)" by (cases x)
  show ?case
  proof (cases "is_wanted_label h label")
    case False
    with Cons x show ?thesis by (simp add: wanted_samples_def)
  next
    case True
    then have ws: "wanted_samples h host tv (x # items) = ((host, label), v, tv) # wanted_samples h host tv items"
      by (simp add: x wanted_samples_def)
    obtain ev h1 evs' where r: "host_add_value host label v tv h = Some (ev, h1)"
        "host_run (wanted_samples h host tv items) h1 = Some (evs', h')" "evs = ev # evs'"
      using Cons.prems unfolding ws by (auto split: bind_splits)
    note same = host_add_value_settings [OF r(1)]
    have ws1: "wanted_samples h1 host tv items = wanted_samples h host tv items" by (simp add: wanted_samples_def same)
    note IH = Cons.IH [of h1 evs', unfolded ws1 same, OF r(2)]
    show ?thesis
      unfolding ws r(3) using True r(1)
      by (cases ev) (auto simp: x IH same fired_def map_filter_def callback_made [OF assms(1)])
  qed
qed

text \<open>
  C17: a run of the step on data with a host name and a time hands each wanted sample to the counters in order, and
  passes on exactly the counts that fired, in that order.  For each of them it makes the events the
  step is configured for, and no other.
\<close>

theorem cott_step_reports:
  assumes "all_made obj" "caddy_ok d = SUCCESS" "get_hostname_from_caddy d = host" "host \<noteq> []"
    and "get_timeval_from_caddy d = tv" "tv \<noteq> 0"
    and "set_attributes (step_attributes d) g = Some g'" "counter_analyzer g' = Some h"
    and "host_run (wanted_samples h host tv (compute_data d)) h = Some (evs, h')"
  shows "cott_analyze obj d g =
    Some (SUCCESS,
      Some (fired (wanted_samples h host tv (compute_data d)) evs,
            concat (map (event_actions (step_conf g') (host_threshold h) host) (fired (wanted_samples h host tv (compute_data d)) evs))),
      g'\<lparr>counter_analyzer := Some h'\<rparr>)"
proof (cases "compute_data d = []")
  case True
  then have "h' = h" "fired (wanted_samples h host tv (compute_data d)) evs = []"
    using assms(9) by (simp_all add: wanted_samples_def fired_def map_filter_def)
  moreover have "g'\<lparr>counter_analyzer := Some h\<rparr> = g'" using assms(8) by (cases g') simp
  ultimately show ?thesis using assms True by (simp add: cott_analyze_def Let_def all_made_def)
next
  case False
  then show ?thesis
    using assms add_data_values_run [OF assms(1,9), of "step_conf g'" "([], [])"]
    by (simp add: cott_analyze_def Let_def all_made_def)
qed

definition sample_caddy :: cott_caddy where
  "sample_caddy = \<lparr>caddy_ok = SUCCESS, step_attributes = [(''label_mask'', ''CPU*_CE''), (''notifier_action'', ''email'')],
     data_key = [(''hostname'', ''n1'')], non_compute_data = [(''ctime'', 100)],
     compute_data = [(''CPU1_CE'', 4), (''other'', 9), (''CPU1_CE'', 6)]\<rparr>"

definition sample_globals :: cott_globals where
  "sample_globals = \<lparr>counter_analyzer = Some host_analyze_counters, step_conf = global_step_data\<rparr>"

theorem cott_step_reports_witness:
  "\<exists>g. cott_analyze \<lparr>value_loaded = True, store_made = True, notify_made = True, lists_made = True\<rparr> sample_caddy sample_globals =
     Some (SUCCESS, Some ([(''CPU1_CE'', 2)], [Store_event 3 1, Notify_event 3 1 ''CPU1_CE'' 2 1 ''n1'' ''email'']), g)"
proof -
  let ?obj = "\<lparr>value_loaded = True, store_made = True, notify_made = True, lists_made = True\<rparr>"
  let ?h = "set_value_label_mask ''CPU*_CE'' host_analyze_counters"
  let ?g = "\<lparr>counter_analyzer = Some ?h, step_conf = global_step_data\<lparr>use_notifier := True, notifier_action := ''email''\<rparr>\<rparr>"
  let ?xs = "[((''n1'', ''CPU1_CE''), 4, 100), ((''n1'', ''CPU1_CE''), 6, 100)] :: host_sample list"
  have ws: "wanted_samples ?h ''n1'' 100 (compute_data sample_caddy) = ?xs" by code_simp
  have "map_option fst (host_run ?xs ?h) = Some [None, Some (2, 0, [4, 6])]" by code_simp
  then obtain h' where run: "host_run ?xs ?h = Some ([None, Some (2, 0, [4, 6])], h')" by auto
  have attrs: "set_attributes (step_attributes sample_caddy) sample_globals = Some ?g"
    by (simp add: sample_caddy_def sample_globals_def set_attribute_def)
  have made: "all_made ?obj" by (simp add: all_made_def)
  have d: "caddy_ok sample_caddy = SUCCESS" "get_hostname_from_caddy sample_caddy = ''n1''" "get_timeval_from_caddy sample_caddy = 100"
    by (simp_all add: sample_caddy_def get_hostname_from_caddy_def get_timeval_from_caddy_def)
  have f: "fired ?xs [None, Some (2, 0, [4, 6])] = [(''CPU1_CE'', 2)]" by (simp add: fired_def map_filter_def)
  have a: "event_actions (step_conf ?g) (host_threshold ?h) ''n1'' (''CPU1_CE'', 2) =
      [Store_event 3 1, Notify_event 3 1 ''CPU1_CE'' 2 1 ''n1'' ''email'']"
    by (simp add: event_actions_def global_step_data_def set_value_label_mask_def host_analyze_counters_def)
  show ?thesis
    using cott_step_reports [OF made d(1,2) _ d(3) _ attrs, of ?h "[None, Some (2, 0, [4, 6])]" h']
    by (simp del: host_run.simps add: ws run f a [simplified])
qed

section \<open>Corner cases\<close>

text \<open>
  The default window is five seconds.  There is one analyzer: after any step has been finalized, the next step with an
  attribute for it, or with data, calls it through a pointer that is no longer valid; and a step that is
  initialized discards the counters of the others.
\<close>

lemma default_window: "map_option window_size (new_counter host_analyze_counters) = Some 5"
  by code_simp

lemma finalized_step_undefined:
  assumes "caddy_ok d = SUCCESS" "step_attributes d = []" "lists_made obj" "compute_data d \<noteq> []"
    and "get_hostname_from_caddy d \<noteq> []" "get_timeval_from_caddy d \<noteq> 0"
  shows "cott_analyze obj d (cott_finalize g) = None"
  using assms by (simp add: cott_analyze_def cott_finalize_def Let_def)

lemma init_discards_counters:
  "cott_init SUCCESS g = (SUCCESS, g') \<Longrightarrow> \<exists>h. counter_analyzer g' = Some h \<and> data_db h = (\<lambda>_. None) \<and> label_mask h = []"
  by (auto simp: cott_init_def host_analyze_counters_def)

text \<open>A mask is found anywhere in a label, so a label with more text before and after it is wanted too.\<close>

lemma mask_not_anchored:
  "is_wanted_label (set_value_label_mask ''CPU*_CE'' h) ''myCPU1_CE_old''"
  by (simp add: is_wanted_label_def set_value_label_mask_def parts_loop.simps after_first.simps)

end
