(* ===== verification/C_Double.thy ===== *)
theory C_Double
  imports Orcm_Prelude
begin

unbundle bit_operations_syntax

text \<open>
  The type \<^verbatim>\<open>double\<close>: IEEE 754 binary64, kept as its 64 bits.  Comparisons work on the bits; arithmetic
  computes the exact result and rounds it to the nearest value, ties to even.  A result that is not a number
  is always the same quiet one; nothing in the program looks at the payload or the sign of it.
\<close>

section \<open>Bits\<close>

type_synonym double = "64 word"

definition d_neg :: "double \<Rightarrow> bool" where
  "d_neg x \<longleftrightarrow> 2 ^ 63 \<le> uint x"

definition d_mag :: "double \<Rightarrow> int" where
  "d_mag x = uint x mod 2 ^ 63"

definition d_bits :: "bool \<Rightarrow> int \<Rightarrow> double" where
  "d_bits neg m = word_of_int (if neg then m + 2 ^ 63 else m)"

text \<open>The magnitude of infinity; anything above is not a number.\<close>

definition inf_mag :: int where "inf_mag = 2047 * 2 ^ 52"

definition d_nan :: "double \<Rightarrow> bool" where
  "d_nan x \<longleftrightarrow> inf_mag < d_mag x"

definition d_inf :: "double \<Rightarrow> bool" where
  "d_inf x \<longleftrightarrow> d_mag x = inf_mag"

definition NAN :: double where "NAN = d_bits False (inf_mag + 2 ^ 51)"

definition DBL_MAX :: double where "DBL_MAX = d_bits False (inf_mag - 1)"

text \<open>The smallest positive value that is not subnormal, as in \<^verbatim>\<open>float.h\<close>.\<close>

definition DBL_MIN :: double where "DBL_MIN = d_bits False (2 ^ 52)"

definition d_zero :: double where "d_zero = 0"

definition d_flip :: "double \<Rightarrow> double" where
  "d_flip x = d_bits (\<not> d_neg x) (d_mag x)"

section \<open>Comparison\<close>

text \<open>Both zeros have the key 0; a number is less than another when its key is.\<close>

definition d_key :: "double \<Rightarrow> int" where
  "d_key x = (if d_neg x then - d_mag x else d_mag x)"

definition d_less :: "double \<Rightarrow> double \<Rightarrow> bool" where
  "d_less x y \<longleftrightarrow> \<not> d_nan x \<and> \<not> d_nan y \<and> d_key x < d_key y"

definition d_le :: "double \<Rightarrow> double \<Rightarrow> bool" where
  "d_le x y \<longleftrightarrow> \<not> d_nan x \<and> \<not> d_nan y \<and> d_key x \<le> d_key y"

definition d_eq :: "double \<Rightarrow> double \<Rightarrow> bool" where
  "d_eq x y \<longleftrightarrow> \<not> d_nan x \<and> \<not> d_nan y \<and> d_key x = d_key y"

section \<open>Rounding\<close>

function bit_length :: "int \<Rightarrow> int" where
  "bit_length n = (if n \<le> 0 then 0 else 1 + bit_length (n div 2))"
  by pat_completeness auto
termination by (relation "measure nat") auto

declare bit_length.simps [simp del]

text \<open>\<open>n / d\<close> as a fraction with the power of two \<open>e\<close> divided out.\<close>

definition scale_down :: "int \<Rightarrow> int \<Rightarrow> int \<Rightarrow> int \<times> int" where
  "scale_down e n d = (if 0 \<le> e then (n, d * 2 ^ nat e) else (n * 2 ^ nat (- e), d))"

definition floor_log :: "int \<Rightarrow> int \<Rightarrow> int" where
  "floor_log n d =
     (let k = bit_length n - bit_length d; (a, b) = scale_down k n d in if b \<le> a then k else k - 1)"

definition round_even :: "int \<Rightarrow> int \<Rightarrow> int" where
  "round_even a b = (let q = a div b; r = 2 * (a mod b) in if r < b \<or> r = b \<and> even q then q else q + 1)"

text \<open>The magnitude of the value nearest to \<open>n / d\<close>, with 52 bits after the first, or fewer near zero.\<close>

definition round_mag :: "int \<Rightarrow> int \<Rightarrow> int" where
  "round_mag n d =
     (if n = 0 then 0
      else let e = max (- 1074) (floor_log n d - 52); (a, b) = scale_down e n d
           in min inf_mag ((e + 1074) * 2 ^ 52 + round_even a b))"

definition d_ratio :: "bool \<Rightarrow> int \<Rightarrow> int \<Rightarrow> double" where
  "d_ratio neg n d = d_bits neg (round_mag n d)"

definition d_scaled :: "bool \<Rightarrow> int \<Rightarrow> int \<Rightarrow> double" where
  "d_scaled neg m e = (if 0 \<le> e then d_ratio neg (m * 2 ^ nat e) 1 else d_ratio neg m (2 ^ nat (- e)))"

section \<open>Arithmetic\<close>

definition d_of_int :: "int \<Rightarrow> double" where
  "d_of_int z = d_ratio (z < 0) \<bar>z\<bar> 1"

text \<open>A finite value is its significand times two to the power of its exponent.\<close>

definition d_sig :: "double \<Rightarrow> int" where
  "d_sig x = (if d_mag x < 2 ^ 52 then d_mag x else d_mag x mod 2 ^ 52 + 2 ^ 52)"

definition d_expo :: "double \<Rightarrow> int" where
  "d_expo x = max 1 (d_mag x div 2 ^ 52) - 1075"

definition d_add :: "double \<Rightarrow> double \<Rightarrow> double" where
  "d_add x y =
     (if d_nan x \<or> d_nan y \<or> d_inf x \<and> d_inf y \<and> d_neg x \<noteq> d_neg y then NAN
      else if d_inf x then x
      else if d_inf y then y
      else let e = min (d_expo x) (d_expo y);
               sx = d_sig x * 2 ^ nat (d_expo x - e);
               sy = d_sig y * 2 ^ nat (d_expo y - e);
               s = (if d_neg x then - sx else sx) + (if d_neg y then - sy else sy)
           in if s = 0 then d_bits (d_neg x \<and> d_neg y) 0 else d_scaled (s < 0) \<bar>s\<bar> e)"

definition d_sub :: "double \<Rightarrow> double \<Rightarrow> double" where
  "d_sub x y = d_add x (d_flip y)"

definition d_mul :: "double \<Rightarrow> double \<Rightarrow> double" where
  "d_mul x y =
     (if d_nan x \<or> d_nan y \<or> d_inf x \<and> d_mag y = 0 \<or> d_inf y \<and> d_mag x = 0 then NAN
      else if d_inf x \<or> d_inf y then d_bits (d_neg x \<noteq> d_neg y) inf_mag
      else d_scaled (d_neg x \<noteq> d_neg y) (d_sig x * d_sig y) (d_expo x + d_expo y))"

definition d_div :: "double \<Rightarrow> double \<Rightarrow> double" where
  "d_div x y =
     (if d_nan x \<or> d_nan y \<or> d_inf x \<and> d_inf y \<or> d_mag x = 0 \<and> d_mag y = 0 then NAN
      else if d_inf x \<or> d_mag y = 0 then d_bits (d_neg x \<noteq> d_neg y) inf_mag
      else if d_inf y then d_bits (d_neg x \<noteq> d_neg y) 0
      else let (a, b) = scale_down (d_expo y - d_expo x) (d_sig x) (d_sig y)
           in d_ratio (d_neg x \<noteq> d_neg y) a b)"

text \<open>Conversion of a \<^verbatim>\<open>float\<close>, which is exact.\<close>

definition d_of_float :: "32 word \<Rightarrow> double" where
  "d_of_float f =
     (let neg = 2 ^ 31 \<le> uint f; m = uint f mod 2 ^ 31; e = m div 2 ^ 23
      in if e = 255 then if m mod 2 ^ 23 = 0 then d_bits neg inf_mag else NAN
         else if e = 0 then d_scaled neg m (- 149)
         else d_scaled neg (m mod 2 ^ 23 + 2 ^ 23) (e - 150))"

end
