(* ===== verification/Orcm_Values.thy ===== *)
theory Orcm_Values
  imports C_Double C_Strings "HOL-Library.Sublist"
begin

text \<open>
  The data that flows through the analytics framework: values with a key and units
  (\<^verbatim>\<open>orcm_value_t\<close>), the three lists of a sample (\<^verbatim>\<open>orcm_analytics_value_t\<close>), and the functions on
  them in \<^verbatim>\<open>orcm/util/utils.c\<close>, \<^verbatim>\<open>opal/dss/dss_load_unload.c\<close>,
  \<^verbatim>\<open>analytics_base_stubs.c\<close> and \<^verbatim>\<open>analytics_base_db.c\<close>.

  A C string is the list of its characters before the NUL, and \<open>None\<close> in its place is NULL; so it is for
  lists.  What is undefined in C is \<open>None\<close> as the result of an operation.  An operation that allocates memory
  takes a function that says which requests are granted.  Reference counts are not modelled: a list that two
  samples share is the same list in both, and no operation here changes a list that is shared.
\<close>

section \<open>Values\<close>

datatype request = New_value | New_list | New_analytics | New_event | New_filter | New_window | Chars nat

type_synonym memory = "request \<Rightarrow> bool"

text \<open>
  What \<^verbatim>\<open>type\<close> and \<^verbatim>\<open>data\<close> of an \<^verbatim>\<open>opal_value_t\<close> hold.  Integers are the bits of their
  width.  \<open>P_other\<close> is a type that the functions below do not know.
\<close>

datatype payload =
    P_bool bool
  | P_byte byte
  | P_string "string option"
  | P_size "64 word"
  | P_pid "32 word"
  | P_int "32 word"
  | P_int8 "8 word"
  | P_int16 "16 word"
  | P_int32 "32 word"
  | P_int64 "64 word"
  | P_uint "32 word"
  | P_uint8 "8 word"
  | P_uint16 "16 word"
  | P_uint32 "32 word"
  | P_uint64 "64 word"
  | P_float "32 word"
  | P_double double
  | P_timeval int int
  | P_bo "byte list"
  | P_ptr
  | P_other nat

record orcm_value =
  v_key :: "string option"
  v_data :: payload
  v_units :: "string option"

text \<open>\<^verbatim>\<open>strdup\<close>; of NULL where the code does not call it.\<close>

fun dup :: "memory \<Rightarrow> string option \<Rightarrow> string option" where
  "dup mem None = None"
| "dup mem (Some s) = (if mem (Chars (length s + 1)) then Some s else None)"

text \<open>A string that cannot be copied becomes NULL without an error; bytes are copied without a check.\<close>

definition opal_value_load :: "memory \<Rightarrow> payload \<Rightarrow> (status \<times> payload) option" where
  "opal_value_load mem p =
     (case p of
        P_string s \<Rightarrow> Some (SUCCESS, P_string (dup mem s))
      | P_bo bs \<Rightarrow> if bs = [] \<or> mem (Chars (length bs)) then Some (SUCCESS, P_bo bs) else None
      | P_other c \<Rightarrow> Some (ERR_NOT_SUPPORTED, P_other c)
      | _ \<Rightarrow> Some (SUCCESS, p))"

definition orcm_util_copy_opal_value_data :: "memory \<Rightarrow> payload \<Rightarrow> (status \<times> payload) option" where
  "orcm_util_copy_opal_value_data mem p =
     (case p of
        P_string s \<Rightarrow> Some (if s \<noteq> None \<and> dup mem s = None then ERR_OUT_OF_RESOURCE else SUCCESS, P_string (dup mem s))
      | P_bo bs \<Rightarrow> if bs = [] \<or> mem (Chars (length bs)) then Some (SUCCESS, P_bo bs) else None
      | P_other c \<Rightarrow> Some (ERR_NOT_SUPPORTED, P_other c)
      | _ \<Rightarrow> Some (SUCCESS, p))"

text \<open>The new value, or NULL.\<close>

definition orcm_util_load_orcm_value ::
  "memory \<Rightarrow> string option \<Rightarrow> payload \<Rightarrow> string option \<Rightarrow> orcm_value option option" where
  "orcm_util_load_orcm_value mem key p units =
     (if \<not> mem New_value \<or> key \<noteq> None \<and> dup mem key = None then Some None
      else do { (rc, p) \<leftarrow> opal_value_load mem p;
                Some (if rc \<noteq> SUCCESS \<or> units \<noteq> None \<and> dup mem units = None then None
                      else Some \<lparr>v_key = key, v_data = p, v_units = units\<rparr>) })"

definition orcm_util_copy_orcm_value :: "memory \<Rightarrow> orcm_value \<Rightarrow> orcm_value option option" where
  "orcm_util_copy_orcm_value mem src =
     (if \<not> mem New_value \<or> v_key src \<noteq> None \<and> dup mem (v_key src) = None then Some None
      else do { (rc, p) \<leftarrow> orcm_util_copy_opal_value_data mem (v_data src);
                Some (if rc \<noteq> SUCCESS \<or> v_units src \<noteq> None \<and> dup mem (v_units src) = None then None
                      else Some (src\<lparr>v_data := p\<rparr>)) })"

definition orcm_util_append_orcm_value ::
  "memory \<Rightarrow> orcm_value list \<Rightarrow> string option \<Rightarrow> payload \<Rightarrow> string option \<Rightarrow> (status \<times> orcm_value list) option" where
  "orcm_util_append_orcm_value mem l key p units =
     (if key = None then Some (ERR_BAD_PARAM, l)
      else do { v \<leftarrow> orcm_util_load_orcm_value mem key p units;
                Some (case v of None \<Rightarrow> (ERR_OUT_OF_RESOURCE, l) | Some v \<Rightarrow> (SUCCESS, l @ [v])) })"

definition orcm_util_prepend_orcm_value ::
  "memory \<Rightarrow> orcm_value list \<Rightarrow> string option \<Rightarrow> payload \<Rightarrow> string option \<Rightarrow> (status \<times> orcm_value list) option" where
  "orcm_util_prepend_orcm_value mem l key p units =
     (if key = None then Some (ERR_BAD_PARAM, l)
      else do { v \<leftarrow> orcm_util_load_orcm_value mem key p units;
                Some (case v of None \<Rightarrow> (ERR_OUT_OF_RESOURCE, l) | Some v \<Rightarrow> (SUCCESS, v # l)) })"

text \<open>The copies made before a failure stay in the destination.\<close>

fun orcm_util_copy_list_items :: "memory \<Rightarrow> orcm_value list \<Rightarrow> orcm_value list \<Rightarrow> (status \<times> orcm_value list) option" where
  "orcm_util_copy_list_items mem [] dest = Some (SUCCESS, dest)"
| "orcm_util_copy_list_items mem (v # src) dest =
     do { c \<leftarrow> orcm_util_copy_orcm_value mem v;
          case c of None \<Rightarrow> Some (ERR_OUT_OF_RESOURCE, dest)
                  | Some c \<Rightarrow> orcm_util_copy_list_items mem src (dest @ [c]) }"

definition orcm_util_copy_opal_list :: "memory \<Rightarrow> orcm_value list option \<Rightarrow> orcm_value list option option" where
  "orcm_util_copy_opal_list mem src =
     (case src of
        None \<Rightarrow> Some None
      | Some l \<Rightarrow> if \<not> mem New_list then Some None
                  else do { (rc, d) \<leftarrow> orcm_util_copy_list_items mem l []; Some (if rc = SUCCESS then Some d else None) })"

section \<open>Numbers\<close>

text \<open>An unsigned 64-bit value is read through the signed member of the union.\<close>

definition orcm_util_get_number_orcm_value :: "orcm_value \<Rightarrow> double" where
  "orcm_util_get_number_orcm_value v =
     (case v_data v of
        P_int w \<Rightarrow> d_of_int (sint w)
      | P_int8 w \<Rightarrow> d_of_int (sint w)
      | P_int16 w \<Rightarrow> d_of_int (sint w)
      | P_int32 w \<Rightarrow> d_of_int (sint w)
      | P_int64 w \<Rightarrow> d_of_int (sint w)
      | P_uint w \<Rightarrow> d_of_int (uint w)
      | P_uint8 w \<Rightarrow> d_of_int (uint w)
      | P_uint16 w \<Rightarrow> d_of_int (uint w)
      | P_uint32 w \<Rightarrow> d_of_int (uint w)
      | P_uint64 w \<Rightarrow> d_of_int (sint w)
      | P_float f \<Rightarrow> d_of_float f
      | P_double x \<Rightarrow> x
      | _ \<Rightarrow> d_zero)"

definition orcm_util_time_diff :: "int \<times> int \<Rightarrow> int \<times> int \<Rightarrow> double" where
  "orcm_util_time_diff time1 time2 =
     (let sec = (\<lambda>t. d_add (d_of_int (fst t)) (d_div (d_of_int (snd t)) (d_of_int 1000000)))
      in d_sub (sec time2) (sec time1))"

definition ORCM_UTIL_HASH_MULTIPLIER :: "64 word" where "ORCM_UTIL_HASH_MULTIPLIER = 31"

definition orcm_util_create_hash_key :: "byte list \<Rightarrow> 64 word" where
  "orcm_util_create_hash_key bs = foldl (\<lambda>h b. ORCM_UTIL_HASH_MULTIPLIER * h + ucast b) 0 bs"

section \<open>Times as text\<close>

definition get_seconds_multiplier :: "char \<Rightarrow> int" where
  "get_seconds_multiplier c =
     (if c = CHR ''d'' then 86400 else if c = CHR ''h'' then 3600 else if c = CHR ''m'' then 60 else 1)"

definition check_numeric :: "string option \<Rightarrow> status" where
  "check_numeric s = (case s of None \<Rightarrow> ERROR | Some s \<Rightarrow> if list_all isdigit s then SUCCESS else ERR_BAD_PARAM)"

text \<open>\<^verbatim>\<open>strtol(s, NULL, 0)\<close> of a string of digits: octal after a leading zero.\<close>

definition isoctal :: "char \<Rightarrow> bool" where
  "isoctal c \<longleftrightarrow> 48 \<le> (of_char c :: nat) \<and> (of_char c :: nat) \<le> 55"

definition strtol_0 :: "string \<Rightarrow> int" where
  "strtol_0 s =
     (if s \<noteq> [] \<and> hd s = CHR ''0''
      then clamp_long (int (foldl (\<lambda>n c. 8 * n + digit_value c) 0 (takeWhile isoctal s)))
      else clamp_long (int (digits_value (takeWhile isdigit s))))"

text \<open>The last character of an empty string is read before its start; a product out of range is undefined.\<close>

definition orcm_util_get_time_in_sec :: "memory \<Rightarrow> string option \<Rightarrow> 64 word option" where
  "orcm_util_get_time_in_sec mem time =
     (case time of
        None \<Rightarrow> Some 0
      | Some [] \<Rightarrow> None
      | Some str \<Rightarrow>
          let type = last str;
              timeval = (if isdigit type then dup mem (Some str)
                         else if mem (Chars (length str)) then Some (butlast str) else None)
          in if check_numeric timeval = SUCCESS
             then let n = strtol_0 (the timeval) * get_seconds_multiplier type
                  in if n \<le> LONG_MAX then Some (word_of_int n) else None
             else Some 0)"

definition get_port_number :: "string \<Rightarrow> int" where
  "get_port_number s =
     (let port = to_int (fst (strtol s))
      in if port < 0 \<or> 65535 < port
         then let overflow = port mod 2 ^ 16 in if overflow < 1024 then overflow + 1024 else overflow
         else port)"

section \<open>Samples\<close>

record analytics_value =
  a_key :: "orcm_value list option"
  a_non_compute :: "orcm_value list option"
  a_compute :: "orcm_value list option"

text \<open>A missing list is replaced by a new one.\<close>

definition list_or_new :: "memory \<Rightarrow> orcm_value list option \<Rightarrow> orcm_value list option" where
  "list_or_new mem l = (case l of Some l \<Rightarrow> Some l | None \<Rightarrow> if mem New_list then Some [] else None)"

definition orcm_util_load_orcm_analytics_value ::
  "memory \<Rightarrow> orcm_value list option \<Rightarrow> orcm_value list option \<Rightarrow> orcm_value list option \<Rightarrow> analytics_value option" where
  "orcm_util_load_orcm_analytics_value mem key non_compute compute =
     (if \<not> mem New_analytics then None
      else do { k \<leftarrow> list_or_new mem key; n \<leftarrow> list_or_new mem non_compute; c \<leftarrow> list_or_new mem compute;
                Some \<lparr>a_key = Some k, a_non_compute = Some n, a_compute = Some c\<rparr> })"

definition orcm_util_load_orcm_analytics_value_compute ::
  "memory \<Rightarrow> orcm_value list option \<Rightarrow> orcm_value list option \<Rightarrow> orcm_value list option \<Rightarrow> analytics_value option" where
  "orcm_util_load_orcm_analytics_value_compute mem key non_compute compute =
     (if mem New_analytics then Some \<lparr>a_key = key, a_non_compute = non_compute, a_compute = compute\<rparr> else None)"

text \<open>The copies of the items whose key does not start with \<^verbatim>\<open>ctime\<close>, or NULL.\<close>

fun copy_without_time :: "memory \<Rightarrow> orcm_value list \<Rightarrow> orcm_value list \<Rightarrow> orcm_value list option option" where
  "copy_without_time mem [] dest = Some (Some dest)"
| "copy_without_time mem (v # src) dest =
     (if (case v_key v of None \<Rightarrow> True | Some k \<Rightarrow> \<not> strncmp_eq k ''ctime'' 5)
      then do { c \<leftarrow> orcm_util_copy_orcm_value mem v;
                case c of None \<Rightarrow> Some None | Some c \<Rightarrow> copy_without_time mem src (dest @ [c]) }
      else copy_without_time mem src dest)"

definition orcm_util_update_analytics_time ::
  "memory \<Rightarrow> int \<times> int \<Rightarrow> orcm_value list option \<Rightarrow> orcm_value list option option" where
  "orcm_util_update_analytics_time mem now non_compute =
     (if \<not> mem New_list then Some None
      else do { l \<leftarrow> copy_without_time mem (case non_compute of None \<Rightarrow> [] | Some l \<Rightarrow> l) [];
                case l of
                  None \<Rightarrow> Some None
                | Some l \<Rightarrow>
                    do { (rc, l) \<leftarrow> orcm_util_append_orcm_value mem l (Some ''ctime'') (P_timeval (fst now) (snd now)) None;
                         Some (if rc = SUCCESS then Some l else None) } })"

definition orcm_util_load_analytics_time_compute ::
  "memory \<Rightarrow> int \<times> int \<Rightarrow> orcm_value list option \<Rightarrow> orcm_value list option \<Rightarrow> orcm_value list option
     \<Rightarrow> analytics_value option option" where
  "orcm_util_load_analytics_time_compute mem now key non_compute compute =
     (if \<not> mem New_analytics then Some None
      else do { n \<leftarrow> orcm_util_update_analytics_time mem now non_compute;
                Some (Some \<lparr>a_key = key, a_non_compute = n, a_compute = compute\<rparr>) })"

end
