(* ===== verification/Orcm_Values_Laws.thy ===== *)
theory Orcm_Values_Laws
  imports Orcm_Values
begin

text \<open>
  What the functions on values promise: a copy equals its source, a list whose copying fails keeps the copies made
  before the failure, and the text of a time means the number of seconds it shows.
\<close>

section \<open>Copies\<close>

lemma copied_data:
  assumes "orcm_util_copy_opal_value_data mem p = Some (SUCCESS, q)"
  shows "q = p"
proof (cases p)
  case (P_string s)
  with assms show ?thesis by (cases s) (auto simp: orcm_util_copy_opal_value_data_def split: if_splits)
qed (use assms in \<open>auto simp: orcm_util_copy_opal_value_data_def split: if_splits\<close>)

lemma copied_value:
  assumes "orcm_util_copy_orcm_value mem v = Some (Some c)"
  shows "c = v"
  using assms copied_data
  by (auto simp: orcm_util_copy_orcm_value_def bind_eq_Some_conv split: if_splits)

text \<open>
  Copying the items of a list never invents or changes one: what is appended to the destination is a prefix
  of the source, the whole of it exactly when the status is success, and the only other status is the one for
  exhausted memory.
\<close>

lemma copied_items:
  assumes "orcm_util_copy_list_items mem src dest = Some (rc, d)"
  shows "\<exists>n. d = dest @ take n src \<and> (if length src \<le> n then rc = SUCCESS else rc = ERR_OUT_OF_RESOURCE)"
  using assms
proof (induction src arbitrary: dest)
  case Nil
  then show ?case by simp
next
  case (Cons v src)
  then obtain c where c: "orcm_util_copy_orcm_value mem v = Some c" by (auto simp: bind_eq_Some_conv)
  show ?case
  proof (cases c)
    case None
    with Cons.prems c show ?thesis by (auto intro!: exI [of _ 0])
  next
    case (Some c')
    with c have "c' = v" using copied_value by simp
    with Cons.prems c Some have "orcm_util_copy_list_items mem src (dest @ [v]) = Some (rc, d)" by simp
    from Cons.IH [OF this] obtain n where
      "d = (dest @ [v]) @ take n src" "if length src \<le> n then rc = SUCCESS else rc = ERR_OUT_OF_RESOURCE" by blast
    then show ?thesis by (intro exI [of _ "Suc n"]) simp
  qed
qed

section \<open>Times\<close>

lemma decimal_no_zero:
  assumes "0 < n"
  shows "hd (decimal n) \<noteq> CHR ''0''"
  using assms
proof (induction n rule: decimal.induct)
  case (1 n)
  show ?case
  proof (cases "n < 10")
    case True
    have "digit_char n \<noteq> CHR ''0''"
      using True "1.prems" digit_value_digit_char [OF True] by (auto simp: digit_value_def)
    then show ?thesis using True by (subst decimal.simps) simp
  next
    case False
    then show ?thesis using 1 by (subst decimal.simps) simp
  qed
qed

lemma strtol_0_decimal:
  assumes "0 < n" "int n \<le> LONG_MAX"
  shows "strtol_0 (decimal n) = int n"
proof -
  have digits: "takeWhile isdigit (decimal n) = decimal n" using decimal_digits by (simp add: takeWhile_eq_all_conv)
  show ?thesis unfolding strtol_0_def digits using assms decimal_no_zero [OF assms(1)] by (simp add: clamp_long_def LONG_MIN_def)
qed

lemma time_not_empty:
  assumes "s \<noteq> []"
  shows "orcm_util_get_time_in_sec mem (Some s) =
    (let type = last s;
         timeval = (if isdigit type then dup mem (Some s) else if mem (Chars (length s)) then Some (butlast s) else None)
     in if check_numeric timeval = SUCCESS
        then let n = strtol_0 (the timeval) * get_seconds_multiplier type
             in if n \<le> LONG_MAX then Some (word_of_int n) else None
        else Some 0)"
  using assms by (cases s) (simp_all only: orcm_util_get_time_in_sec_def option.case list.case simp_thms)

definition unit_seconds :: "string \<Rightarrow> nat" where
  "unit_seconds u = (if u = ''d'' then 86400 else if u = ''h'' then 3600 else if u = ''m'' then 60 else 1)"

text \<open>
  C34: a positive number written in decimal without leading zeros, followed by one of the letters for days, hours,
  minutes and seconds or by none, is read as that number of seconds, as long as it fits a \<^verbatim>\<open>long\<close>.
\<close>

theorem time_in_seconds:
  assumes "0 < n" "int (n * unit_seconds u) \<le> LONG_MAX" "u \<in> {[], ''s'', ''m'', ''h'', ''d''}"
    and "\<forall>k. mem (Chars k)"
  shows "orcm_util_get_time_in_sec mem (Some (decimal n @ u)) = Some (of_nat (n * unit_seconds u))"
proof -
  have n: "strtol_0 (decimal n) = int n"
  proof (rule strtol_0_decimal [OF assms(1)])
    have "n \<le> n * unit_seconds u" by (simp add: unit_seconds_def)
    then show "int n \<le> LONG_MAX" using assms(2) by linarith
  qed
  have digits: "check_numeric (Some (decimal n)) = SUCCESS" "isdigit (last (decimal n))"
    using decimal_digits [of n] last_in_set [of "decimal n"] by (auto simp: check_numeric_def list_all_iff)
  have mult: "get_seconds_multiplier (last (decimal n @ u)) = int (unit_seconds u)"
  proof (cases u)
    case Nil
    have "last (decimal n) \<notin> {CHR ''d'', CHR ''h'', CHR ''m''}" using digits(2) by (auto simp: isdigit_def)
    with Nil show ?thesis by (simp add: get_seconds_multiplier_def unit_seconds_def)
  next
    case Cons
    with assms(3) show ?thesis by (auto simp: get_seconds_multiplier_def unit_seconds_def)
  qed
  have number: "(if isdigit (last (decimal n @ u)) then dup mem (Some (decimal n @ u))
      else if mem (Chars (length (decimal n @ u))) then Some (butlast (decimal n @ u)) else None) = Some (decimal n)"
    using assms(3,4) digits(2) by (auto simp: butlast_append isdigit_def)
  have ne: "decimal n @ u \<noteq> []" by simp
  show ?thesis
    using assms(2) digits(1) unfolding time_not_empty [OF ne] Let_def number mult
    by (simp add: n)
qed

theorem time_in_seconds_witness: "orcm_util_get_time_in_sec (\<lambda>_. True) (Some (decimal 90 @ ''m'')) = Some 5400"
  using time_in_seconds [of 90 "''m''" "\<lambda>_. True"] by (simp add: unit_seconds_def LONG_MAX_def)

text \<open>A leading zero makes the number octal; an unsigned number of 64 bits is taken as a signed one.\<close>

lemma time_leading_zero: "orcm_util_get_time_in_sec (\<lambda>_. True) (Some ''010s'') = Some 8"
  by code_simp

lemma unsigned_as_signed:
  "orcm_util_get_number_orcm_value \<lparr>v_key = k, v_data = P_uint64 (2 ^ 63), v_units = u\<rparr> = d_of_int (- (2 ^ 63))"
  by (simp add: orcm_util_get_number_orcm_value_def)

end
