(* ===== verification/Orcm_Events.thy ===== *)
theory Orcm_Events
  imports Orcm_Values Opal_Hash_Table
begin

text \<open>
  Events of the analytics framework, \<^verbatim>\<open>orcm/mca/analytics/base/analytics_base_event.c\<close>: making an event
  from a sample, describing it, and raising the events of a step, where repeated ones may be suppressed.  The times
  of the last events are kept in a hash table; its values are pointers to allocated times.
\<close>

section \<open>Events\<close>

record ras_event =
  e_reporter :: "orcm_value list"
  e_type :: int
  e_timestamp :: int
  e_severity :: int
  e_description :: "orcm_value list"
  e_data :: "orcm_value list"

definition ORCM_RAS_SEVERITY_INFO :: int where "ORCM_RAS_SEVERITY_INFO = 6"
definition ORCM_RAS_SEVERITY_UNKNOWN :: int where "ORCM_RAS_SEVERITY_UNKNOWN = 8"
definition ORCM_RAS_EVENT_SENSOR :: int where "ORCM_RAS_EVENT_SENSOR = 0"
definition ORCM_RAS_EVENT_EXCEPTION :: int where "ORCM_RAS_EVENT_EXCEPTION = 1"
definition ORCM_STORAGE_TYPE_DATABASE :: nat where "ORCM_STORAGE_TYPE_DATABASE = 0"
definition ORCM_STORAGE_TYPE_NOTIFICATION :: nat where "ORCM_STORAGE_TYPE_NOTIFICATION = 1"
definition ORCM_STORAGE_TYPE_UNDEFINED :: nat where "ORCM_STORAGE_TYPE_UNDEFINED = 3"

text \<open>Reading \<^verbatim>\<open>data.string\<close> of a value of another type is undefined.\<close>

definition str_of :: "orcm_value \<Rightarrow> string option option" where
  "str_of v = (case v_data v of P_string s \<Rightarrow> Some s | _ \<Rightarrow> None)"

definition orcm_analytics_base_event_set_reporter ::
  "memory \<Rightarrow> ras_event \<Rightarrow> string \<Rightarrow> payload \<Rightarrow> string option \<Rightarrow> (status \<times> ras_event) option" where
  "orcm_analytics_base_event_set_reporter mem ev key p units =
     do { v \<leftarrow> orcm_util_load_orcm_value mem (Some key) p units;
          Some (case v of None \<Rightarrow> (ERR_OUT_OF_RESOURCE, ev)
                        | Some v \<Rightarrow> (SUCCESS, ev\<lparr>e_reporter := e_reporter ev @ [v]\<rparr>)) }"

definition orcm_analytics_base_event_set_description ::
  "memory \<Rightarrow> ras_event \<Rightarrow> string \<Rightarrow> payload \<Rightarrow> string option \<Rightarrow> (status \<times> ras_event) option" where
  "orcm_analytics_base_event_set_description mem ev key p units =
     do { v \<leftarrow> orcm_util_load_orcm_value mem (Some key) p units;
          Some (case v of None \<Rightarrow> (ERR_OUT_OF_RESOURCE, ev)
                        | Some v \<Rightarrow> (SUCCESS, ev\<lparr>e_description := e_description ev @ [v]\<rparr>)) }"

fun orcm_analytics_base_event_set_time :: "orcm_value list \<Rightarrow> int option" where
  "orcm_analytics_base_event_set_time [] = Some 0"
| "orcm_analytics_base_event_set_time (v # vs) =
     do { k \<leftarrow> v_key v;
          if k = ''ctime'' then (case v_data v of P_timeval sec usec \<Rightarrow> Some sec | _ \<Rightarrow> None)
          else orcm_analytics_base_event_set_time vs }"

text \<open>The event, or NULL; a sample without a list of times is undefined.\<close>

definition orcm_analytics_base_event_create ::
  "memory \<Rightarrow> analytics_value \<Rightarrow> int \<Rightarrow> int \<Rightarrow> ras_event option option" where
  "orcm_analytics_base_event_create mem a type severity =
     (if \<not> mem New_event then Some None
      else case a_key a of
        None \<Rightarrow> Some None
      | Some key \<Rightarrow>
          do { (rc, reporter) \<leftarrow> orcm_util_copy_list_items mem key [];
               if rc \<noteq> SUCCESS then Some None
               else case a_compute a of
                 None \<Rightarrow> Some None
               | Some compute \<Rightarrow>
                   do { (rc, data) \<leftarrow> orcm_util_copy_list_items mem compute [];
                        if rc \<noteq> SUCCESS then Some None
                        else do { non \<leftarrow> a_non_compute a;
                                  time \<leftarrow> orcm_analytics_base_event_set_time non;
                                  (rc, desc) \<leftarrow> (if 0 < time \<and> length non = 1 then Some (SUCCESS, [])
                                                 else orcm_util_copy_list_items mem non []);
                                  Some (if rc \<noteq> SUCCESS then None
                                        else Some \<lparr>e_reporter = reporter, e_type = type, e_timestamp = time,
                                                   e_severity = severity, e_description = desc, e_data = data\<rparr>) } } })"

definition event_categories :: "(nat \<times> string) list" where
  "event_categories = [(0, ''SOFT_FAULT''), (1, ''HARD_FAULT''), (2, ''UNKOWN_FAULT'')]"

definition orcm_analytics_base_event_set_category :: "memory \<Rightarrow> ras_event \<Rightarrow> nat \<Rightarrow> (status \<times> ras_event) option" where
  "orcm_analytics_base_event_set_category mem ev category =
     (case map_of event_categories category of
        None \<Rightarrow> Some (ERROR, ev)
      | Some s \<Rightarrow> orcm_analytics_base_event_set_description mem ev ''event_category'' (P_string (Some s)) None)"

definition orcm_analytics_base_event_set_storage :: "memory \<Rightarrow> ras_event \<Rightarrow> nat \<Rightarrow> (status \<times> ras_event) option" where
  "orcm_analytics_base_event_set_storage mem ev storage =
     (if ORCM_STORAGE_TYPE_UNDEFINED \<le> storage then Some (ERROR, ev)
      else orcm_analytics_base_event_set_description mem ev ''storage_type'' (P_uint (of_nat storage)) None)"

definition orcm_analytics_event_get_severity :: "string \<Rightarrow> int" where
  "orcm_analytics_event_get_severity s =
     (case map_of [(''emerg'', 0), (''alert'', 1), (''crit'', 2), (''error'', 3), (''warn'', 4), (''notice'', 5),
        (''info'', 6), (''debug'', 7)] s of
        Some n \<Rightarrow> n | None \<Rightarrow> ORCM_RAS_SEVERITY_UNKNOWN)"

section \<open>Notifications\<close>

definition orcm_analytics_base_set_event_attr ::
  "memory \<Rightarrow> ras_event \<Rightarrow> orcm_value \<Rightarrow> string \<Rightarrow> (status \<times> ras_event) option" where
  "orcm_analytics_base_set_event_attr mem ev attr key =
     do { s \<leftarrow> str_of attr;
          case s of None \<Rightarrow> Some (ERR_BAD_PARAM, ev)
                  | Some s \<Rightarrow> orcm_analytics_base_event_set_description mem ev key (P_string (Some s)) None }"

text \<open>The loop over the attributes of the step; the flags say which of the two attributes were seen.\<close>

fun exec_attrs :: "memory \<Rightarrow> orcm_value list \<Rightarrow> bool \<Rightarrow> bool \<Rightarrow> ras_event \<Rightarrow> (status \<times> bool \<times> ras_event) option" where
  "exec_attrs mem [] name args ev = Some (SUCCESS, name, ev)"
| "exec_attrs mem (v # vs) name args ev =
     (case v_key v of
        None \<Rightarrow> Some (ERR_BAD_PARAM, True, ev)
      | Some k \<Rightarrow>
          do { (rc, name, args, ev) \<leftarrow>
                 (if prefix k ''exec_name''
                  then do { (rc, ev) \<leftarrow> orcm_analytics_base_set_event_attr mem ev v ''exec_name''; Some (rc, True, args, ev) }
                  else if prefix k ''exec_argv''
                  then do { (rc, ev) \<leftarrow> orcm_analytics_base_set_event_attr mem ev v ''exec_argv''; Some (rc, name, True, ev) }
                  else Some (SUCCESS, name, args, ev));
               if rc \<noteq> SUCCESS then Some (rc, True, ev)
               else if name \<and> args then Some (SUCCESS, name, ev)
               else exec_attrs mem vs name args ev })"

definition orcm_analytics_base_event_set_exec_attr ::
  "memory \<Rightarrow> orcm_value list \<Rightarrow> ras_event \<Rightarrow> (status \<times> ras_event) option" where
  "orcm_analytics_base_event_set_exec_attr mem attrs ev =
     do { (rc, name, ev) \<leftarrow> exec_attrs mem attrs False False ev;
          Some (if rc \<noteq> SUCCESS then rc else if \<not> name then ERR_BAD_PARAM else SUCCESS, ev) }"

text \<open>The action is compared up to its own length, so each prefix of \<^verbatim>\<open>exec\<close> counts.\<close>

definition orcm_analytics_base_event_set_notifier_attr ::
  "memory \<Rightarrow> orcm_value list \<Rightarrow> ras_event \<Rightarrow> string option \<Rightarrow> string \<Rightarrow> (status \<times> ras_event) option" where
  "orcm_analytics_base_event_set_notifier_attr mem attrs ev msg action =
     do { (rc, ev) \<leftarrow> orcm_analytics_base_event_set_storage mem ev ORCM_STORAGE_TYPE_NOTIFICATION;
          if rc \<noteq> SUCCESS then Some (rc, ev)
          else
            do { (rc, ev) \<leftarrow> orcm_analytics_base_event_set_description mem ev ''notifier_msg'' (P_string msg) None;
                 if rc \<noteq> SUCCESS then Some (rc, ev)
                 else
                   do { (rc, ev) \<leftarrow> orcm_analytics_base_event_set_description mem ev ''notifier_action'' (P_string (Some action)) None;
                        if rc \<noteq> SUCCESS then Some (rc, ev)
                        else if prefix action ''exec'' then orcm_analytics_base_event_set_exec_attr mem attrs ev
                        else Some (SUCCESS, ev) } } }"

text \<open>A sample with the one value, or without it when it cannot be copied.\<close>

definition orcm_analytics_base_get_analytics_value ::
  "memory \<Rightarrow> orcm_value \<Rightarrow> analytics_value \<Rightarrow> analytics_value option option" where
  "orcm_analytics_base_get_analytics_value mem v a =
     (if \<not> mem New_list then Some None
      else do { c \<leftarrow> orcm_util_copy_orcm_value mem v;
                Some (orcm_util_load_orcm_analytics_value_compute mem (a_key a) (a_non_compute a)
                  (Some (case c of None \<Rightarrow> [] | Some c \<Rightarrow> [c]))) })"

definition event_list_append :: "memory \<Rightarrow> ras_event list \<Rightarrow> ras_event \<Rightarrow> status \<times> ras_event list" where
  "event_list_append mem evs ev = (if mem New_value then (SUCCESS, evs @ [ev]) else (ERR_OUT_OF_RESOURCE, evs))"

definition orcm_analytics_base_gen_notifier_event ::
  "memory \<Rightarrow> orcm_value list \<Rightarrow> analytics_value \<Rightarrow> orcm_value \<Rightarrow> int \<Rightarrow> string option \<Rightarrow> string option \<Rightarrow> ras_event list
     \<Rightarrow> (status \<times> ras_event list) option" where
  "orcm_analytics_base_gen_notifier_event mem attrs a v severity msg action evs =
     (case action of
        None \<Rightarrow> Some (ERROR, evs)
      | Some act \<Rightarrow>
          if prefix act ''none'' then Some (SUCCESS, evs)
          else
            do { a' \<leftarrow> orcm_analytics_base_get_analytics_value mem v a;
                 case a' of
                   None \<Rightarrow> Some (ERR_OUT_OF_RESOURCE, evs)
                 | Some a' \<Rightarrow>
                     do { ev \<leftarrow> orcm_analytics_base_event_create mem a' ORCM_RAS_EVENT_EXCEPTION severity;
                          case ev of
                            None \<Rightarrow> Some (ERR_OUT_OF_RESOURCE, evs)
                          | Some ev \<Rightarrow>
                              do { (rc, ev) \<leftarrow> orcm_analytics_base_event_set_notifier_attr mem attrs ev msg act;
                                   Some (if rc \<noteq> SUCCESS then (rc, evs) else event_list_append mem evs ev) } } })"

text \<open>An event for the database: the status and the event that is raised.\<close>

definition orcm_analytics_base_log_to_database_event ::
  "memory \<Rightarrow> analytics_value \<Rightarrow> (status \<times> ras_event list) option" where
  "orcm_analytics_base_log_to_database_event mem a =
     do { ev \<leftarrow> orcm_analytics_base_event_create mem a ORCM_RAS_EVENT_SENSOR ORCM_RAS_SEVERITY_INFO;
          case ev of
            None \<Rightarrow> Some (ERROR, [])
          | Some ev \<Rightarrow>
              do { (rc, ev) \<leftarrow> orcm_analytics_base_event_set_storage mem ev ORCM_STORAGE_TYPE_DATABASE;
                   Some (if rc \<noteq> SUCCESS then (rc, []) else (SUCCESS, [ev])) } }"

section \<open>Repeated events\<close>

text \<open>
  The times of the last events: a table from keys to cells, and the cells allocated so far.  The environment has
  the memory for objects and for the table, and the configured interval.
\<close>

record event_store =
  ts_table :: "nat opal_hash_table"
  ts_cells :: "int list"

record event_env =
  env_mem :: memory
  env_table :: "nat \<Rightarrow> bool"
  suppress_repeat :: "string option"

record event_filter =
  f_category :: "string option"
  f_severity :: int
  f_time :: "64 word"

definition KEY_SIZE :: nat where "KEY_SIZE = 1000"

fun reporter_text :: "orcm_value list \<Rightarrow> string option" where
  "reporter_text [] = Some []"
| "reporter_text (v # vs) =
     do { s \<leftarrow> str_of v; r \<leftarrow> reporter_text vs; Some ((case s of None \<Rightarrow> [] | Some s \<Rightarrow> s) @ r) }"

definition keys_text :: "orcm_value list \<Rightarrow> string" where
  "keys_text vs = concat (map (\<lambda>v. case v_key v of None \<Rightarrow> [] | Some k \<Rightarrow> k) vs)"

text \<open>The text is built in a block of fixed size without a check; the hash of it includes the NUL.\<close>

definition generate_event_hashkey ::
  "memory \<Rightarrow> int \<Rightarrow> int \<Rightarrow> orcm_value list \<Rightarrow> orcm_value list \<Rightarrow> 64 word option" where
  "generate_event_hashkey mem ev_type severity reporter compute =
     (if \<not> mem (Chars KEY_SIZE) then Some 0
      else
        do { r \<leftarrow> reporter_text reporter;
             let text = r @ keys_text compute;
             let type = decimal_int ev_type;
             let sev = decimal_int severity;
             if KEY_SIZE \<le> length text then None
             else if \<not> mem (Chars (length type + 1)) \<or> \<not> mem (Chars (length sev + 1)) then Some 0
             else if KEY_SIZE \<le> length (text @ type @ sev) then None
             else Some (orcm_util_create_hash_key (cstr_bytes (text @ type @ sev))) })"

text \<open>
  The result of storing the new cell is compared with the result of the lookup instead of being assigned, so
  the outcome is the same whether the cell was stored or not.
\<close>

definition get_last_event_timestamp ::
  "event_env \<Rightarrow> event_store \<Rightarrow> 64 word \<Rightarrow> int \<Rightarrow> (status \<times> nat option \<times> event_store) option" where
  "get_last_event_timestamp env st key current_ts =
     do { (rc, ts, table) \<leftarrow> opal_hash_table_get_value_uint64 (ts_table st) key;
          let st = st\<lparr>ts_table := table\<rparr>;
          if rc = ERR_NOT_FOUND
          then if \<not> env_mem env (Chars 8) then Some (ERR_OUT_OF_RESOURCE, None, st)
               else
                 let cell = length (ts_cells st); st = st\<lparr>ts_cells := ts_cells st @ [current_ts]\<rparr>
                 in do { (rc2, table) \<leftarrow> opal_hash_table_set_value_uint64 (env_table env) (ts_table st) key cell;
                         Some (if rc \<noteq> rc2 then ERR_NOT_FOUND else ERROR, None, st\<lparr>ts_table := table\<rparr>) }
          else if rc \<noteq> SUCCESS then Some (ERROR, None, st)
          else Some (SUCCESS, ts, st) }"

text \<open>Whether the category of the event is the wanted one; a later category decides only against it.\<close>

fun category_matches :: "string \<Rightarrow> orcm_value list \<Rightarrow> bool option" where
  "category_matches c [] = Some True"
| "category_matches c (v # vs) =
     (case v_key v of
        Some k \<Rightarrow>
          if prefix k ''event_category''
          then do { s \<leftarrow> str_of v;
                    b \<leftarrow> category_matches c vs;
                    Some (b \<and> (case s of None \<Rightarrow> True | Some s \<Rightarrow> prefix c s)) }
          else category_matches c vs
      | None \<Rightarrow> category_matches c vs)"

text \<open>The interval in seconds, cut off to 32 bits.\<close>

definition filter_max_rate :: "event_env \<Rightarrow> ras_event \<Rightarrow> event_filter option \<Rightarrow> 32 word option" where
  "filter_max_rate env ev f =
     (let default = map_option ucast (orcm_util_get_time_in_sec (env_mem env) (suppress_repeat env))
      in case f of
           None \<Rightarrow> default
         | Some f \<Rightarrow>
             do { cat \<leftarrow> (case f_category f of None \<Rightarrow> Some True | Some c \<Rightarrow> category_matches c (e_description ev));
                  if cat \<and> \<not> (e_severity ev \<noteq> ORCM_RAS_SEVERITY_UNKNOWN \<and> f_severity f < e_severity ev)
                  then Some (ucast (f_time f)) else default })"

definition is_repeat_event ::
  "event_env \<Rightarrow> event_filter option \<Rightarrow> ras_event \<Rightarrow> event_store \<Rightarrow> (bool \<times> event_store) option" where
  "is_repeat_event env f ev st =
     do { key \<leftarrow> generate_event_hashkey (env_mem env) (e_type ev) (e_severity ev) (e_reporter ev) (e_data ev);
          if key = 0 then Some (False, st)
          else
            do { (rc, ts, st) \<leftarrow> get_last_event_timestamp env st key (e_timestamp ev);
                 interval \<leftarrow> filter_max_rate env ev f;
                 case ts of
                   Some cell \<Rightarrow>
                     let limit = ts_cells st ! cell + uint interval
                     in if LONG_MAX < limit \<or> length (ts_cells st) \<le> cell then None
                        else if e_timestamp ev < limit then Some (True, st)
                        else Some (False, st\<lparr>ts_cells := (ts_cells st)[cell := e_timestamp ev]\<rparr>)
                 | None \<Rightarrow> Some (False, st) } }"

text \<open>The events that are raised, in order.\<close>

fun raise_new :: "event_env \<Rightarrow> event_filter option \<Rightarrow> ras_event list \<Rightarrow> event_store \<Rightarrow> (ras_event list \<times> event_store) option" where
  "raise_new env f [] st = Some ([], st)"
| "raise_new env f (ev # evs) st =
     do { (again, st) \<leftarrow> is_repeat_event env f ev st;
          (out, st) \<leftarrow> raise_new env f evs st;
          Some (if again then out else ev # out, st) }"

definition generate_events ::
  "event_env \<Rightarrow> event_filter option \<Rightarrow> bool \<Rightarrow> ras_event list \<Rightarrow> event_store option
     \<Rightarrow> (ras_event list \<times> event_store option) option" where
  "generate_events env f suppress evs st =
     (if \<not> suppress then Some (evs, st)
      else case st of
             None \<Rightarrow> if evs = [] then Some ([], None) else None
           | Some st \<Rightarrow> do { (out, st) \<leftarrow> raise_new env f evs st; Some (out, Some st) })"

definition event_filter_con :: "event_env \<Rightarrow> event_filter option" where
  "event_filter_con env =
     do { t \<leftarrow> orcm_util_get_time_in_sec (env_mem env) (suppress_repeat env);
          Some \<lparr>f_category = None, f_severity = ORCM_RAS_SEVERITY_UNKNOWN, f_time = t\<rparr> }"

text \<open>Keys are compared up to their own length, so a prefix of a name counts as the name.\<close>

definition assign_filter_value ::
  "event_env \<Rightarrow> string \<Rightarrow> string option \<Rightarrow> event_filter \<Rightarrow> (status \<times> event_filter) option" where
  "assign_filter_value env key val f =
     (case val of
        None \<Rightarrow> Some (ERROR, f)
      | Some s \<Rightarrow>
          if prefix key ''category'' then Some (SUCCESS, f\<lparr>f_category := dup (env_mem env) (Some s)\<rparr>)
          else if prefix key ''severity'' then Some (SUCCESS, f\<lparr>f_severity := orcm_analytics_event_get_severity s\<rparr>)
          else if prefix key ''time''
          then do { t \<leftarrow> orcm_util_get_time_in_sec (env_mem env) (Some s);
                    t \<leftarrow> (if t = 0 then orcm_util_get_time_in_sec (env_mem env) (suppress_repeat env) else Some t);
                    Some (SUCCESS, f\<lparr>f_time := t\<rparr>) }
          else Some (ERROR, f))"

text \<open>The loop over the attributes of the step: whether to suppress, and the filter.\<close>

fun filter_attributes ::
  "event_env \<Rightarrow> orcm_value list \<Rightarrow> bool \<Rightarrow> event_filter option \<Rightarrow> (bool \<times> event_filter option) option" where
  "filter_attributes env [] suppress f = Some (suppress, f)"
| "filter_attributes env (v # vs) suppress f =
     (case v_key v of
        None \<Rightarrow> Some (suppress, f)
      | Some k \<Rightarrow>
          if k = ''suppress_repeat''
          then do { s \<leftarrow> str_of v; s \<leftarrow> s; filter_attributes env vs (suppress \<or> s = ''yes'') f }
          else if k \<in> {''category'', ''severity'', ''time''}
          then if \<not> suppress then Some (suppress, f)
               else if f = None \<and> \<not> env_mem env New_filter then Some (suppress, None)
               else
                 do { fl \<leftarrow> (case f of Some fl \<Rightarrow> Some fl | None \<Rightarrow> event_filter_con env);
                      s \<leftarrow> str_of v;
                      (rc, fl) \<leftarrow> assign_filter_value env k s fl;
                      if rc \<noteq> SUCCESS then Some (suppress, Some fl) else filter_attributes env vs suppress (Some fl) }
          else filter_attributes env vs suppress f)"

definition orcm_analytics_base_filter_events ::
  "event_env \<Rightarrow> orcm_value list \<Rightarrow> ras_event list \<Rightarrow> event_store option \<Rightarrow> (ras_event list \<times> event_store option) option" where
  "orcm_analytics_base_filter_events env attrs evs st =
     do { (suppress, f) \<leftarrow> filter_attributes env attrs False None; generate_events env f suppress evs st }"

end
