(* ===== verification/Orcm_Events_Laws.thy ===== *)
theory Orcm_Events_Laws
  imports Orcm_Events
begin

text \<open>
  Suppression of repeated events.  The hash table and the cells its values point to implement the map from
  keys to the times of the last events that were raised; the proof uses the contract of the table only.
\<close>

section \<open>The specification\<close>

text \<open>
  Events as keys, times and intervals.  \<open>shown\<close> has the events raised so far, the latest first: an event is
  raised unless the last one raised with its key is less than the interval old.
\<close>

type_synonym event_info = "64 word \<times> int \<times> int"

definition is_new :: "(64 word \<times> int) list \<Rightarrow> event_info \<Rightarrow> bool" where
  "is_new shown x = (case map_of shown (fst x) of None \<Rightarrow> True | Some t \<Rightarrow> t + snd (snd x) \<le> fst (snd x))"

fun show_new :: "(64 word \<times> int) list \<Rightarrow> event_info list \<Rightarrow> bool list \<times> (64 word \<times> int) list" where
  "show_new shown [] = ([], shown)"
| "show_new shown (x # xs) =
     (let r = show_new (if is_new shown x then (fst x, fst (snd x)) # shown else shown) xs
      in (is_new shown x # fst r, snd r))"

definition raised :: "bool list \<Rightarrow> 'a list \<Rightarrow> 'a list" where
  "raised bs xs = map snd (filter fst (zip bs xs))"

lemma raised_simps [simp]:
  "raised [] xs = []" "raised (b # bs) (x # xs) = (if b then x # raised bs xs else raised bs xs)"
  by (simp_all add: raised_def)

section \<open>The table and the cells\<close>

text \<open>Each key of the table has its own cell, which holds the time.\<close>

definition store_ok :: "event_store \<Rightarrow> bool" where
  "store_ok st \<longleftrightarrow> table_ok Methods_uint64 (ts_table st) \<and>
     (\<forall>k c. ht_map (ts_table st) (KeyU64 k) = Some c \<longrightarrow> c < length (ts_cells st)) \<and>
     (\<forall>k k' c. ht_map (ts_table st) (KeyU64 k) = Some c \<longrightarrow> ht_map (ts_table st) (KeyU64 k') = Some c \<longrightarrow> k = k')"

definition last_time :: "event_store \<Rightarrow> 64 word \<Rightarrow> int option" where
  "last_time st k = map_option ((!) (ts_cells st)) (ht_map (ts_table st) (KeyU64 k))"

text \<open>The table takes \<open>n\<close> more keys without growing.\<close>

definition spare :: "nat \<Rightarrow> event_store \<Rightarrow> bool" where
  "spare n st \<longleftrightarrow> ht_size (ts_table st) + n < ht_growth_trigger (ts_table st)"

lemma last_event_known:
  assumes "store_ok st" "ht_map (ts_table st) (KeyU64 k) = Some c"
  shows "\<exists>t. get_last_event_timestamp env st k now = Some (SUCCESS, Some c, st\<lparr>ts_table := t\<rparr>) \<and>
    store_ok (st\<lparr>ts_table := t\<rparr>) \<and> (\<lambda>k. ht_map t (KeyU64 k)) = (\<lambda>k. ht_map (ts_table st) (KeyU64 k)) \<and>
    (\<forall>n. spare n (st\<lparr>ts_table := t\<rparr>) = spare n st)"
proof -
  have "table_ok Methods_uint64 (ts_table st)" using assms(1) by (simp add: store_ok_def)
  from u64_dict.get_present [OF this, of k c] assms(2) obtain t where
    t: "opal_hash_table_get_value_uint64 (ts_table st) k = Some (SUCCESS, Some c, t)" "table_ok Methods_uint64 t"
      "(\<lambda>k. ht_map t (KeyU64 k)) = (\<lambda>k. ht_map (ts_table st) (KeyU64 k))" by auto
  have "store_ok (st\<lparr>ts_table := t\<rparr>)"
    using assms(1) t(2) fun_cong [OF t(3)] by (simp add: store_ok_def)
  moreover have "spare n (st\<lparr>ts_table := t\<rparr>) = spare n st" for n
    using get_value_counters [OF t(1) [unfolded opal_hash_table_get_value_uint64_def]] by (simp add: spare_def)
  ultimately show ?thesis using t by (intro exI [of _ t]) (simp add: get_last_event_timestamp_def Let_def)
qed

lemma last_event_new:
  assumes st: "store_ok st" and none: "ht_map (ts_table st) (KeyU64 k) = None"
    and env: "env_mem env (Chars 8)" and sp: "spare 1 st"
  shows "\<exists>st'. get_last_event_timestamp env st k now = Some (ERR_NOT_FOUND, None, st') \<and> store_ok st' \<and>
    last_time st' = (last_time st)(k \<mapsto> now) \<and> (\<forall>n. spare (n + 1) st \<longrightarrow> spare n st')"
proof -
  have tab: "table_ok Methods_uint64 (ts_table st)" using st by (simp add: store_ok_def)
  from u64_dict.get_absent [OF tab none] obtain t where
    t: "opal_hash_table_get_value_uint64 (ts_table st) k = Some (ERR_NOT_FOUND, None, t)" "table_ok Methods_uint64 t"
      "(\<lambda>k. ht_map t (KeyU64 k)) = (\<lambda>k. ht_map (ts_table st) (KeyU64 k))" by auto
  note same = fun_cong [OF t(3)]
  have cnt: "ht_size t = ht_size (ts_table st)" "ht_growth_trigger t = ht_growth_trigger (ts_table st)"
    using get_value_counters [OF t(1) [unfolded opal_hash_table_get_value_uint64_def]] by simp_all
  let ?c = "length (ts_cells st)"
  from u64_dict.put_absent [OF t(2), of k "env_table env" ?c] same none obtain rc u where
    u: "opal_hash_table_set_value_uint64 (env_table env) t k ?c = Some (rc, u)" "rc = SUCCESS \<longrightarrow> table_ok Methods_uint64 u"
      "(\<lambda>k. ht_map u (KeyU64 k)) = (\<lambda>k. ht_map t (KeyU64 k))(k \<mapsto> ?c)" by auto
  have wf: "wf_table t" "keyed (key_methods (KeyU64 k)) t" using t(2) by (auto simp: table_ok_def)
  from set_value_counters [OF u(1) [unfolded opal_hash_table_set_value_uint64_def] _ wf] sp cnt
  have rc: "rc = SUCCESS" "ht_size u \<le> ht_size t + 1" "ht_growth_trigger u = ht_growth_trigger t" by (simp_all add: spare_def)
  let ?st = "\<lparr>ts_table = u, ts_cells = ts_cells st @ [now]\<rparr>"
  have look: "ht_map u (KeyU64 j) = (if j = k then Some ?c else ht_map (ts_table st) (KeyU64 j))" for j
    using fun_cong [OF u(3), of j] same [of j] by simp
  have cell: "c < ?c" if "ht_map (ts_table st) (KeyU64 j) = Some c" for j c using st that by (simp add: store_ok_def)
  have inj: "j = j'" if "ht_map (ts_table st) (KeyU64 j) = Some c" "ht_map (ts_table st) (KeyU64 j') = Some c" for j j' c
    using st that by (simp add: store_ok_def)
  have ok: "store_ok ?st"
    unfolding store_ok_def using u(2) rc(1) look cell inj by (auto simp: less_Suc_eq split: if_splits)
  have last: "last_time ?st = (last_time st)(k \<mapsto> now)"
  proof
    fix j
    show "last_time ?st j = ((last_time st)(k \<mapsto> now)) j"
      using look [of j] cell [of j] by (cases "ht_map (ts_table st) (KeyU64 j)") (auto simp: last_time_def nth_append)
  qed
  have "\<forall>n. spare (n + 1) st \<longrightarrow> spare n ?st" using rc cnt by (auto simp: spare_def)
  moreover have "get_last_event_timestamp env st k now = Some (ERR_NOT_FOUND, None, ?st)"
    using t(1) u(1) rc(1) env by (simp add: get_last_event_timestamp_def Let_def)
  ultimately show ?thesis using ok last by blast
qed

section \<open>One event\<close>

definition event_info :: "event_env \<Rightarrow> event_filter option \<Rightarrow> ras_event \<Rightarrow> event_info option" where
  "event_info env f ev =
     do { k \<leftarrow> generate_event_hashkey (env_mem env) (e_type ev) (e_severity ev) (e_reporter ev) (e_data ev);
          r \<leftarrow> filter_max_rate env ev f;
          Some (k, e_timestamp ev, uint r) }"

definition tracks_shown :: "(64 word \<times> int) list \<Rightarrow> event_store \<Rightarrow> bool" where
  "tracks_shown shown st \<longleftrightarrow> store_ok st \<and> last_time st = map_of shown \<and> (\<forall>x\<in>set shown. snd x < 2 ^ 62)"

lemma is_repeat_step:
  assumes st: "tracks_shown shown st" "spare 1 st" and env: "env_mem env (Chars 8)"
    and info: "event_info env f ev = Some x" "fst x \<noteq> 0" "e_timestamp ev < 2 ^ 62"
  shows "\<exists>st'. is_repeat_event env f ev st = Some (\<not> is_new shown x, st') \<and> (\<forall>n. spare (n + 1) st \<longrightarrow> spare n st') \<and>
    tracks_shown (if is_new shown x then (fst x, fst (snd x)) # shown else shown) st'"
proof -
  obtain k r where x: "generate_event_hashkey (env_mem env) (e_type ev) (e_severity ev) (e_reporter ev) (e_data ev) = Some k"
      "filter_max_rate env ev f = Some r" "x = (k, e_timestamp ev, uint r)"
    using info(1) by (auto simp: event_info_def split: bind_splits)
  have ok: "store_ok st" "last_time st = map_of shown" "\<forall>x\<in>set shown. snd x < 2 ^ 62"
    using st(1) by (auto simp: tracks_shown_def)
  show ?thesis
  proof (cases "ht_map (ts_table st) (KeyU64 k)")
    case None
    then have "map_of shown k = None" using fun_cong [OF ok(2), of k] by (simp add: last_time_def)
    then have new: "is_new shown x" by (simp add: is_new_def x(3))
    from last_event_new [OF ok(1) None env st(2), of "e_timestamp ev"] obtain st' where
      "get_last_event_timestamp env st k (e_timestamp ev) = Some (ERR_NOT_FOUND, None, st')" "store_ok st'"
      "last_time st' = (last_time st)(k \<mapsto> e_timestamp ev)" "\<forall>n. spare (n + 1) st \<longrightarrow> spare n st'" by blast
    with new x info(2,3) ok show ?thesis by (auto simp: is_repeat_event_def tracks_shown_def)
  next
    case (Some c)
    let ?t = "ts_cells st ! c"
    have lt: "map_of shown k = Some ?t" using Some fun_cong [OF ok(2), of k] by (simp add: last_time_def)
    have bound: "?t < 2 ^ 62" using map_of_SomeD [OF lt] ok(3) by auto
    have c: "c < length (ts_cells st)" using ok(1) Some by (simp add: store_ok_def)
    from last_event_known [OF ok(1) Some, of env "e_timestamp ev"] obtain t where
      t: "get_last_event_timestamp env st k (e_timestamp ev) = Some (SUCCESS, Some c, st\<lparr>ts_table := t\<rparr>)"
        "store_ok (st\<lparr>ts_table := t\<rparr>)" "(\<lambda>k. ht_map t (KeyU64 k)) = (\<lambda>k. ht_map (ts_table st) (KeyU64 k))"
        "\<forall>n. spare n (st\<lparr>ts_table := t\<rparr>) = spare n st" by blast
    note same = fun_cong [OF t(3)]
    have "uint r < 2 ^ 32" using uint_lt2p [of r] by simp
    then have lim: "\<not> LONG_MAX < ?t + uint r" using bound by (simp add: LONG_MAX_def)
    have new: "is_new shown x \<longleftrightarrow> \<not> e_timestamp ev < ?t + uint r" using lt by (auto simp: is_new_def x(3))
    have sp: "spare n st" if "spare (n + 1) st" for n using that by (simp add: spare_def)
    show ?thesis
    proof (cases "e_timestamp ev < ?t + uint r")
      case True
      have "tracks_shown shown (st\<lparr>ts_table := t\<rparr>)"
        using t(2) ok same by (auto simp: tracks_shown_def last_time_def fun_eq_iff)
      with True new x(1,2) t(1,4) info(2) x(3) lim c sp show ?thesis by (auto simp: is_repeat_event_def Let_def)
    next
      case False
      let ?st = "st\<lparr>ts_table := t, ts_cells := (ts_cells st)[c := e_timestamp ev]\<rparr>"
      have inj: "j = k" if "ht_map (ts_table st) (KeyU64 j) = Some c" for j
        using ok(1) Some that by (simp add: store_ok_def)
      have "last_time ?st j = ((last_time st)(k \<mapsto> e_timestamp ev)) j" for j
        using same [of j] Some c inj [of j]
        by (cases "ht_map (ts_table st) (KeyU64 j)") (auto simp: last_time_def nth_list_update)
      then have "last_time ?st = (map_of shown)(k \<mapsto> e_timestamp ev)" using ok(2) by (simp add: fun_eq_iff)
      moreover have "store_ok ?st" using t(2) by (simp add: store_ok_def)
      ultimately have "tracks_shown ((k, e_timestamp ev) # shown) ?st" using ok(3) info(3) by (auto simp: tracks_shown_def)
      moreover have "spare n ?st" if "spare (n + 1) st" for n using t(4) sp [OF that] by (simp add: spare_def)
      ultimately show ?thesis using False new x(1,2) t(1) info(2) x(3) lim c by (auto simp: is_repeat_event_def Let_def)
    qed
  qed
qed

lemma raise_new_shown:
  assumes "tracks_shown shown st" "spare (length evs) st" "env_mem env (Chars 8)"
    and "list_all2 (\<lambda>ev x. event_info env f ev = Some x \<and> fst x \<noteq> 0 \<and> e_timestamp ev < 2 ^ 62) evs xs"
  shows "\<exists>st'. raise_new env f evs st = Some (raised (fst (show_new shown xs)) evs, st') \<and> tracks_shown (snd (show_new shown xs)) st'"
  using assms(4,1,2)
proof (induction evs xs arbitrary: shown st rule: list_all2_induct)
  case Nil
  then show ?case by simp
next
  case (Cons ev evs x xs)
  let ?shown = "if is_new shown x then (fst x, fst (snd x)) # shown else shown"
  have "spare 1 st" using Cons.prems(2) by (simp add: spare_def)
  from is_repeat_step [OF Cons.prems(1) this assms(3)] Cons.hyps(1) obtain st1 where
    s: "is_repeat_event env f ev st = Some (\<not> is_new shown x, st1)" "\<forall>n. spare (n + 1) st \<longrightarrow> spare n st1"
      "tracks_shown ?shown st1" by blast
  have "spare (length evs) st1" using s(2) Cons.prems(2) by simp
  from Cons.IH [OF s(3) this] s(1) show ?case by (auto simp: Let_def)
qed

text \<open>
  C12: with suppression on, an event of a step is raised exactly when no event with its key was raised less
  than the interval before it, where the interval is that of the filter for events it matches and the configured one
  for others; the store then knows the events raised, for the next call.  This holds while the table has
  room for the keys of the events.
\<close>

theorem repeats_suppressed:
  assumes "filter_attributes env attrs False None = Some (True, f)"
    and "tracks_shown shown st" "spare (length evs) st" "env_mem env (Chars 8)"
    and "list_all2 (\<lambda>ev x. event_info env f ev = Some x \<and> fst x \<noteq> 0 \<and> e_timestamp ev < 2 ^ 62) evs xs"
  shows "\<exists>st'. orcm_analytics_base_filter_events env attrs evs (Some st) =
      Some (raised (fst (show_new shown xs)) evs, Some st') \<and> tracks_shown (snd (show_new shown xs)) st'"
  using raise_new_shown [OF assms(2-)] assms(1)
  by (auto simp: orcm_analytics_base_filter_events_def generate_events_def)

text \<open>A new table as the threshold plugin makes it.\<close>

definition new_store :: event_store where
  "new_store = \<lparr>ts_table = snd (opal_hash_table_init (\<lambda>_. True) opal_hash_table_construct 100), ts_cells = []\<rparr>"

lemma new_store_tracks: "tracks_shown [] new_store" "spare 99 new_store"
proof -
  let ?ht = "snd (opal_hash_table_init (\<lambda>_. True) opal_hash_table_construct 100) :: nat opal_hash_table"
  have i: "opal_hash_table_init (\<lambda>_. True) opal_hash_table_construct 100 = (SUCCESS, ?ht)"
    by (simp add: opal_hash_table_init_def opal_hash_table_init2_def opal_hash_round_capacity_up_def size_t_def calloc_ok_def)
  have "table_ok Methods_uint64 ?ht \<and> ht_map ?ht = Map.empty" by (rule table_ok_init [OF i]) simp
  then show "tracks_shown [] new_store"
    by (simp add: tracks_shown_def store_ok_def new_store_def last_time_def fun_eq_iff)
  show "spare 99 new_store"
    by (simp add: spare_def new_store_def opal_hash_table_init_def opal_hash_table_init2_def
        opal_hash_round_capacity_up_def size_t_def calloc_ok_def opal_hash_table_construct_def)
qed

definition sample_event :: "string \<Rightarrow> int \<Rightarrow> ras_event" where
  "sample_event key t = \<lparr>e_reporter = [\<lparr>v_key = Some ''hostname'', v_data = P_string (Some ''n1''), v_units = None\<rparr>],
     e_type = 1, e_timestamp = t, e_severity = 3, e_description = [],
     e_data = [\<lparr>v_key = Some key, v_data = P_int 7, v_units = None\<rparr>]\<rparr>"

definition sample_attrs :: "orcm_value list" where
  "sample_attrs = [\<lparr>v_key = Some ''suppress_repeat'', v_data = P_string (Some ''yes''), v_units = None\<rparr>,
     \<lparr>v_key = Some ''time'', v_data = P_string (Some ''1m''), v_units = None\<rparr>]"

definition sample_env :: event_env where
  "sample_env = \<lparr>env_mem = (\<lambda>_. True), env_table = (\<lambda>_. True), suppress_repeat = None\<rparr>"

theorem repeats_suppressed_witness:
  "\<exists>st'. orcm_analytics_base_filter_events sample_env sample_attrs
       [sample_event ''a'' 100, sample_event ''b'' 110, sample_event ''a'' 159, sample_event ''a'' 160] (Some new_store)
     = Some ([sample_event ''a'' 100, sample_event ''b'' 110, sample_event ''a'' 160], Some st')"
proof -
  let ?f = "Some \<lparr>f_category = None, f_severity = 8, f_time = 60\<rparr>"
  let ?evs = "[sample_event ''a'' 100, sample_event ''b'' 110, sample_event ''a'' 159, sample_event ''a'' 160]"
  have f: "filter_attributes sample_env sample_attrs False None = Some (True, ?f)" by code_simp
  have i: "event_info sample_env ?f (sample_event ''a'' t) = Some (3197397536, t, 60)"
    "event_info sample_env ?f (sample_event ''b'' t) = Some (3197427327, t, 60)" for t
  proof -
    have h: "orcm_util_create_hash_key (cstr_bytes ''n1a13'') = 3197397536" "orcm_util_create_hash_key (cstr_bytes ''n1b13'') = 3197427327"
      "decimal_int 1 = ''1''" "decimal_int 3 = ''3''" by code_simp+
    show "event_info sample_env ?f (sample_event ''a'' t) = Some (3197397536, t, 60)"
      "event_info sample_env ?f (sample_event ''b'' t) = Some (3197427327, t, 60)"
      by (simp_all add: event_info_def generate_event_hashkey_def sample_env_def sample_event_def KEY_SIZE_def str_of_def
          keys_text_def filter_max_rate_def ORCM_RAS_SEVERITY_UNKNOWN_def h)
  qed
  have "list_all2 (\<lambda>ev x. event_info sample_env ?f ev = Some x \<and> fst x \<noteq> 0 \<and> e_timestamp ev < 2 ^ 62) ?evs
      [(3197397536, 100, 60), (3197427327, 110, 60), (3197397536, 159, 60), (3197397536, 160, 60)]"
    by (simp add: i) (simp add: sample_event_def)
  moreover have "spare (length ?evs) new_store" using new_store_tracks(2) by (simp add: spare_def)
  moreover have "env_mem sample_env (Chars 8)" by (simp add: sample_env_def)
  ultimately have "\<exists>st'. orcm_analytics_base_filter_events sample_env sample_attrs ?evs (Some new_store) =
      Some (raised (fst (show_new [] [(3197397536, 100, 60), (3197427327, 110, 60), (3197397536, 159, 60), (3197397536, 160, 60)])) ?evs, Some st')"
    using repeats_suppressed [OF f new_store_tracks(1)] by blast
  then show ?thesis by (simp add: is_new_def)
qed

section \<open>Events that share a key\<close>

text \<open>
  The parts of the text that is hashed have nothing between them, so that events of different reporters on
  different data suppress each other.
\<close>

lemma event_key_ambiguous:
  "generate_event_hashkey mem ty sev [\<lparr>v_key = k, v_data = P_string (Some (a @ b)), v_units = None\<rparr>]
       (\<lparr>v_key = Some c, v_data = d, v_units = None\<rparr> # rest) =
   generate_event_hashkey mem ty sev [\<lparr>v_key = k, v_data = P_string (Some a), v_units = None\<rparr>]
       (\<lparr>v_key = Some (b @ c), v_data = d, v_units = None\<rparr> # rest)"
  by (simp add: generate_event_hashkey_def str_of_def keys_text_def Let_def add.assoc)

end
