(* ===== verification/Orcm_Steps.thy ===== *)
theory Orcm_Steps
  imports Orcm_Events Orcm_Workflow
begin

text \<open>
  What the plugins of the analytics framework share: the data a step is called with
  (\<^verbatim>\<open>orcm_workflow_caddy_t\<close>), the functions of \<^verbatim>\<open>analytics_base_stubs.c\<close> and
  \<^verbatim>\<open>analytics_base_db.c\<close> they call, and what a call gives: a status, events that are raised at once, and
  what is passed on with \<^verbatim>\<open>ORCM_ACTIVATE_NEXT_WORKFLOW_STEP\<close>.
\<close>

section \<open>Calling a step\<close>

record wf_info =
  wfi_name :: string
  wfi_id :: int
  hostname_regex :: "string option"

record step_info =
  si_id :: int
  si_analytic :: string
  si_attributes :: "orcm_value list"

text \<open>Any of the pointers of a caddy may be NULL; the type of the module is that of the plugin.\<close>

record 'm caddy =
  imod :: "'m option"
  c_wf :: "wf_info option"
  c_step :: "step_info option"
  c_value :: "analytics_value option"
  c_hash :: "64 word"

definition orcm_analytics_base_assert_caddy_data :: "'m caddy option \<Rightarrow> status" where
  "orcm_analytics_base_assert_caddy_data cd =
     (case cd of
        None \<Rightarrow> ERR_BAD_PARAM
      | Some c \<Rightarrow> if imod c = None \<or> c_wf c = None \<or> c_step c = None \<or> c_value c = None then ERR_BAD_PARAM else SUCCESS)"

text \<open>What a step passes on: the key, the sample, and the events to raise first.\<close>

record activation =
  next_hash :: "64 word"
  next_value :: analytics_value
  next_events :: "ras_event list option"

record step_result =
  r_status :: status
  r_raised :: "ras_event list"
  r_next :: "activation option"

definition stopped :: "status \<Rightarrow> step_result" where
  "stopped rc = \<lparr>r_status = rc, r_raised = [], r_next = None\<rparr>"

section \<open>Shared functions\<close>

text \<open>
  The first attribute named \<^verbatim>\<open>db\<close> decides.  The key is not checked for NULL.
\<close>

fun orcm_analytics_base_db_check :: "orcm_value list \<Rightarrow> bool option" where
  "orcm_analytics_base_db_check [] = Some False"
| "orcm_analytics_base_db_check (v # vs) =
     do { k \<leftarrow> v_key v;
          if k = ''db'' then do { s \<leftarrow> str_of v; s \<leftarrow> s; Some (s = ''yes'') }
          else orcm_analytics_base_db_check vs }"

text \<open>The first item with \<^verbatim>\<open>time\<close> in its key has the time of the sample.\<close>

fun orcm_analytics_base_get_sample_time :: "orcm_value list \<Rightarrow> (status \<times> 64 word) option" where
  "orcm_analytics_base_get_sample_time [] = Some (ERR_BAD_PARAM, 0)"
| "orcm_analytics_base_get_sample_time (v # vs) =
     (case v_key v of
        None \<Rightarrow> Some (ERR_BAD_PARAM, 0)
      | Some k \<Rightarrow>
          if sublist ''time'' k
          then (case v_data v of
                  P_timeval sec usec \<Rightarrow> Some (SUCCESS, orcm_analytics_base_timeval_to_uint64 sec usec)
                | _ \<Rightarrow> None)
          else orcm_analytics_base_get_sample_time vs)"

fun orcm_analytics_get_hostname_from_attributes :: "memory \<Rightarrow> orcm_value list \<Rightarrow> string option option" where
  "orcm_analytics_get_hostname_from_attributes mem [] = Some (dup mem (Some ''All''))"
| "orcm_analytics_get_hostname_from_attributes mem (v # vs) =
     (if v_key v = Some ''hostname''
      then do { s \<leftarrow> str_of v; s \<leftarrow> s;
                Some (case dup mem (Some s) of None \<Rightarrow> dup mem (Some ''All'') | Some h \<Rightarrow> Some h) }
      else orcm_analytics_get_hostname_from_attributes mem vs)"

text \<open>A host name that is not set is printed as the C library prints NULL.\<close>

definition orcm_analytics_base_data_key :: "memory \<Rightarrow> string \<Rightarrow> wf_info \<Rightarrow> step_info \<Rightarrow> string option" where
  "orcm_analytics_base_data_key mem key w step =
     dup mem (Some (wfi_name w @ ''_workflow'' @ decimal_int (wfi_id w) @ ''-step'' @ decimal_int (si_id step) @ ''_'' @
       si_analytic step @ '':'' @ key @ ''_'' @ (case hostname_regex w of None \<Rightarrow> ''(null)'' | Some h \<Rightarrow> h)))"

text \<open>The events a step passes on are raised, subject to its attributes, before the next step gets the sample.\<close>

definition activate_events ::
  "event_env \<Rightarrow> orcm_value list \<Rightarrow> ras_event list option \<Rightarrow> event_store option \<Rightarrow> (ras_event list \<times> event_store option) option" where
  "activate_events env attrs evs st =
     (case evs of None \<Rightarrow> Some ([], st) | Some evs \<Rightarrow> orcm_analytics_base_filter_events env attrs evs st)"

end
