(* ===== verification/Orcm_Window.thy ===== *)
theory Orcm_Window
  imports Orcm_Steps
begin

text \<open>
  The analytics plugin that computes over windows, \<^verbatim>\<open>orcm/mca/analytics/window/analytics_window.c\<close>: a window
  ends after a number of samples or of seconds, and the average, minimum, maximum or standard deviation of the values
  in it is passed on.  The functions of the mathematical library are parameters, as their results are
  approximate; \<^verbatim>\<open>sqrt\<close> and \<^verbatim>\<open>pow\<close> are used for the standard deviation only.
\<close>

section \<open>The operations\<close>

record libm =
  m_pow :: "double \<Rightarrow> double \<Rightarrow> double"
  m_sqrt :: "double \<Rightarrow> double"

record win_statistics =
  win_size :: "64 word"
  win_left :: "64 word"
  win_right :: "64 word"
  num_sample_recv :: "64 word"
  num_data_point :: "64 word"
  sum_min_max :: double
  sum_square :: double
  compute_type :: "string option"
  win_type :: "string option"

definition win_statistics_con :: win_statistics where
  "win_statistics_con = \<lparr>win_size = 0, win_left = 0, win_right = 0, num_sample_recv = 0, num_data_point = 0,
     sum_min_max = d_zero, sum_square = d_zero, compute_type = None, win_type = None\<rparr>"

definition win_init :: "memory \<Rightarrow> status \<times> win_statistics option" where
  "win_init mem = (if mem New_window then (SUCCESS, Some win_statistics_con) else (ERR_OUT_OF_RESOURCE, None))"

text \<open>Types are compared up to the length of the known name, so anything that starts with it counts.\<close>

definition reset_window :: "64 word \<Rightarrow> 64 word \<Rightarrow> win_statistics \<Rightarrow> win_statistics option" where
  "reset_window left incre ws =
     do { c \<leftarrow> compute_type ws;
          Some (ws\<lparr>win_left := left, win_right := left + incre, num_sample_recv := 0, num_data_point := 0,
                   sum_min_max := (if prefix ''min'' c then DBL_MAX else if prefix ''max'' c then DBL_MIN else d_zero),
                   sum_square := d_zero\<rparr>) }"

definition known_compute :: "string option \<Rightarrow> bool" where
  "known_compute c = (case c of None \<Rightarrow> False
     | Some c \<Rightarrow> prefix ''average'' c \<or> prefix ''min'' c \<or> prefix ''max'' c \<or> prefix ''sd'' c)"

definition fill_win_statistics :: "memory \<Rightarrow> win_statistics \<Rightarrow> (status \<times> win_statistics) option" where
  "fill_win_statistics mem ws =
     (if win_size ws = 0 then Some (ERR_BAD_PARAM, ws)
      else
        let ws = (if win_type ws = None then ws\<lparr>win_type := dup mem (Some ''time'')\<rparr> else ws)
        in case win_type ws of
             None \<Rightarrow> Some (ERR_OUT_OF_RESOURCE, ws)
           | Some t \<Rightarrow>
               if \<not> prefix ''time'' t \<and> \<not> prefix ''counter'' t then Some (ERR_BAD_PARAM, ws)
               else if \<not> known_compute (compute_type ws) then Some (ERR_BAD_PARAM, ws)
               else do { ws \<leftarrow> (if prefix ''time'' t then reset_window 0 0 ws else reset_window 0 (win_size ws) ws);
                         Some (SUCCESS, ws) })"

fun read_attributes :: "memory \<Rightarrow> orcm_value list \<Rightarrow> win_statistics \<Rightarrow> (status \<times> win_statistics) option" where
  "read_attributes mem [] ws = Some (SUCCESS, ws)"
| "read_attributes mem (v # vs) ws =
     (case v_key v of
        None \<Rightarrow> Some (ERR_BAD_PARAM, ws)
      | Some k \<Rightarrow>
          do { s \<leftarrow> str_of v;
               case s of
                 None \<Rightarrow> Some (ERR_BAD_PARAM, ws)
               | Some s \<Rightarrow>
                   if k = ''win_size''
                   then do { n \<leftarrow> orcm_util_get_time_in_sec mem (Some s); read_attributes mem vs (ws\<lparr>win_size := n\<rparr>) }
                   else if k = ''compute'' \<and> compute_type ws = None
                   then read_attributes mem vs (ws\<lparr>compute_type := dup mem (Some s)\<rparr>)
                   else if k = ''type'' \<and> win_type ws = None
                   then read_attributes mem vs (ws\<lparr>win_type := dup mem (Some s)\<rparr>)
                   else read_attributes mem vs ws })"

definition fill_attributes :: "memory \<Rightarrow> orcm_value list \<Rightarrow> win_statistics \<Rightarrow> (status \<times> win_statistics) option" where
  "fill_attributes mem attrs ws =
     do { (rc, ws) \<leftarrow> read_attributes mem attrs ws;
          if rc \<noteq> SUCCESS then Some (rc, ws) else fill_win_statistics mem ws }"

definition accumulate_data_average :: "double \<Rightarrow> win_statistics \<Rightarrow> win_statistics" where
  "accumulate_data_average num ws = ws\<lparr>sum_min_max := d_add (sum_min_max ws) num\<rparr>"

definition accumulate_data_min :: "double \<Rightarrow> win_statistics \<Rightarrow> win_statistics" where
  "accumulate_data_min num ws = (if d_less num (sum_min_max ws) then ws\<lparr>sum_min_max := num\<rparr> else ws)"

definition accumulate_data_max :: "double \<Rightarrow> win_statistics \<Rightarrow> win_statistics" where
  "accumulate_data_max num ws = (if d_less (sum_min_max ws) num then ws\<lparr>sum_min_max := num\<rparr> else ws)"

definition accumulate_data_sd :: "libm \<Rightarrow> double \<Rightarrow> win_statistics \<Rightarrow> win_statistics" where
  "accumulate_data_sd m num ws =
     (let ws = accumulate_data_average num ws in ws\<lparr>sum_square := d_add (sum_square ws) (m_pow m num (d_of_int 2))\<rparr>)"

definition accumulate_number :: "libm \<Rightarrow> string \<Rightarrow> double \<Rightarrow> win_statistics \<Rightarrow> win_statistics" where
  "accumulate_number m c num =
     (if prefix ''average'' c then accumulate_data_average num
      else if prefix ''min'' c then accumulate_data_min num
      else if prefix ''max'' c then accumulate_data_max num
      else accumulate_data_sd m num)"

definition accumulate_data :: "libm \<Rightarrow> orcm_value list \<Rightarrow> win_statistics \<Rightarrow> win_statistics option" where
  "accumulate_data m data ws =
     (let ws = ws\<lparr>num_sample_recv := num_sample_recv ws + 1, num_data_point := num_data_point ws + of_nat (length data)\<rparr>
      in if data = [] then Some ws
         else do { c \<leftarrow> compute_type ws;
                   Some (fold (\<lambda>v. accumulate_number m c (orcm_util_get_number_orcm_value v)) data ws) })"

definition computing :: "libm \<Rightarrow> win_statistics \<Rightarrow> double option" where
  "computing m ws =
     do { c \<leftarrow> compute_type ws;
          let n = d_of_int (uint (num_data_point ws));
          Some (if prefix ''average'' c then d_div (sum_min_max ws) n
                else if prefix ''min'' c \<or> prefix ''max'' c then sum_min_max ws
                else if 1 < num_data_point ws
                then let temp = d_sub (d_mul n (sum_square ws)) (m_pow m (sum_min_max ws) (d_of_int 2))
                     in if d_le d_zero temp
                        then m_sqrt m (d_div temp (d_of_int (uint (num_data_point ws * (num_data_point ws - 1)))))
                        else d_zero
                else d_zero) }"

definition window_description :: "win_statistics \<Rightarrow> (string \<times> payload) list" where
  "window_description ws =
     [(''win_size'', P_uint64 (win_size ws)), (''win_type'', P_string (win_type ws)),
      (''compute_type'', P_string (compute_type ws)), (''num_sample_recv'', P_uint64 (num_sample_recv ws)),
      (''num_data_point'', P_uint64 (num_data_point ws))]"

fun set_descriptions :: "memory \<Rightarrow> (string \<times> payload) list \<Rightarrow> ras_event \<Rightarrow> (status \<times> ras_event) option" where
  "set_descriptions mem [] ev = Some (SUCCESS, ev)"
| "set_descriptions mem ((k, p) # ds) ev =
     do { (rc, ev) \<leftarrow> orcm_analytics_base_event_set_description mem ev k p None;
          if rc \<noteq> SUCCESS then Some (rc, ev) else set_descriptions mem ds ev }"

definition set_window_description :: "memory \<Rightarrow> win_statistics \<Rightarrow> ras_event \<Rightarrow> (status \<times> ras_event) option" where
  "set_window_description mem ws ev = set_descriptions mem (window_description ws) ev"

definition send_data_to_dispatch :: "memory \<Rightarrow> win_statistics \<Rightarrow> analytics_value \<Rightarrow> (status \<times> ras_event list) option" where
  "send_data_to_dispatch mem ws a =
     do { ev \<leftarrow> orcm_analytics_base_event_create mem a ORCM_RAS_EVENT_SENSOR ORCM_RAS_SEVERITY_INFO;
          case ev of
            None \<Rightarrow> Some (ERROR, [])
          | Some ev \<Rightarrow>
              do { (rc, ev) \<leftarrow> orcm_analytics_base_event_set_storage mem ev ORCM_STORAGE_TYPE_DATABASE;
                   if rc \<noteq> SUCCESS then Some (rc, [])
                   else do { (rc, ev) \<leftarrow> set_window_description mem ws ev;
                             Some (if rc \<noteq> SUCCESS then (rc, []) else (SUCCESS, [ev])) } } }"

text \<open>
  The result of a full window is passed on with the key of the sample at hand and the current time.  When the
  sample for it cannot be made, the result is lost and the call succeeds.
\<close>

definition handle_full_window ::
  "memory \<Rightarrow> libm \<Rightarrow> int \<times> int \<Rightarrow> wf_info \<Rightarrow> step_info \<Rightarrow> analytics_value \<Rightarrow> orcm_value list \<Rightarrow> 64 word \<Rightarrow> win_statistics
     \<Rightarrow> step_result option" where
  "handle_full_window mem m now w step a compute hash ws =
     (if num_sample_recv ws = 0 then Some (stopped SUCCESS)
      else if \<not> mem New_list then Some (stopped ERR_OUT_OF_RESOURCE)
      else
        do { result \<leftarrow> computing m ws;
             c \<leftarrow> compute_type ws;
             case orcm_analytics_base_data_key mem c w step of
               None \<Rightarrow> Some (stopped ERR_OUT_OF_RESOURCE)
             | Some data_key \<Rightarrow>
                 do { item \<leftarrow> (case compute of [] \<Rightarrow> None | v # _ \<Rightarrow> Some v);
                      v \<leftarrow> orcm_util_load_orcm_value mem (Some data_key) (P_double result) (v_units item);
                      case v of
                        None \<Rightarrow> Some (stopped ERR_OUT_OF_RESOURCE)
                      | Some v \<Rightarrow>
                          do { a' \<leftarrow> orcm_util_load_analytics_time_compute mem now (a_key a) (a_non_compute a) (Some [v]);
                               case a' of
                                 None \<Rightarrow> Some (stopped SUCCESS)
                               | Some a' \<Rightarrow>
                                   do { db \<leftarrow> orcm_analytics_base_db_check (si_attributes step);
                                        (rc, evs) \<leftarrow> (if db then send_data_to_dispatch mem ws a' else Some (SUCCESS, []));
                                        Some (if rc \<noteq> SUCCESS then stopped rc
                                              else \<lparr>r_status = SUCCESS, r_raised = evs,
                                                    r_next = Some \<lparr>next_hash = hash, next_value = a', next_events = None\<rparr>\<rparr>) } } } })"

text \<open>A sample before the window is refused; one after it completes the window and starts the next.\<close>

definition do_compute_time_window ::
  "memory \<Rightarrow> libm \<Rightarrow> int \<times> int \<Rightarrow> wf_info \<Rightarrow> step_info \<Rightarrow> analytics_value \<Rightarrow> orcm_value list \<Rightarrow> orcm_value list \<Rightarrow> 64 word
     \<Rightarrow> win_statistics \<Rightarrow> (step_result \<times> win_statistics) option" where
  "do_compute_time_window mem m now w step a non_compute compute hash ws =
     do { (rc, sample_time) \<leftarrow> orcm_analytics_base_get_sample_time non_compute;
          if rc \<noteq> SUCCESS then Some (stopped rc, ws)
          else if sample_time < win_left ws then Some (stopped ERR_RECV_MORE_THAN_POSTED, ws)
          else if win_left ws = win_right ws
          then do { ws \<leftarrow> accumulate_data m compute
                      (ws\<lparr>win_left := sample_time, win_right := sample_time + win_size ws\<rparr>);
                    Some (stopped SUCCESS, ws) }
          else if win_right ws \<le> sample_time
          then do { r \<leftarrow> handle_full_window mem m now w step a compute hash ws;
                    if r_status r \<noteq> SUCCESS then Some (r, ws)
                    else
                      do { _ \<leftarrow> (if win_size ws = 0 then None else Some ());
                           ws \<leftarrow> (if win_right ws + win_size ws \<le> sample_time
                                  then reset_window (sample_time - sample_time mod win_size ws) (win_size ws) ws
                                  else reset_window (win_right ws) (win_size ws) ws);
                           ws \<leftarrow> accumulate_data m compute ws;
                           Some (r, ws) } }
          else do { ws \<leftarrow> accumulate_data m compute ws; Some (stopped SUCCESS, ws) } }"

definition do_compute_counter_window ::
  "memory \<Rightarrow> libm \<Rightarrow> int \<times> int \<Rightarrow> wf_info \<Rightarrow> step_info \<Rightarrow> analytics_value \<Rightarrow> orcm_value list \<Rightarrow> 64 word
     \<Rightarrow> win_statistics \<Rightarrow> (step_result \<times> win_statistics) option" where
  "do_compute_counter_window mem m now w step a compute hash ws =
     do { ws \<leftarrow> accumulate_data m compute ws;
          if win_right ws \<le> num_sample_recv ws
          then do { r \<leftarrow> handle_full_window mem m now w step a compute hash ws;
                    if r_status r \<noteq> SUCCESS then Some (r, ws)
                    else do { ws \<leftarrow> reset_window 0 (win_size ws) ws; Some (r, ws) } }
          else Some (stopped SUCCESS, ws) }"

definition do_compute ::
  "memory \<Rightarrow> libm \<Rightarrow> int \<times> int \<Rightarrow> wf_info \<Rightarrow> step_info \<Rightarrow> analytics_value \<Rightarrow> 64 word \<Rightarrow> win_statistics
     \<Rightarrow> (step_result \<times> win_statistics) option" where
  "do_compute mem m now w step a hash ws =
     (case (a_key a, a_non_compute a, a_compute a) of
        (Some key, Some non_compute, Some compute) \<Rightarrow>
          if key = [] \<or> compute = [] then Some (stopped ERR_BAD_PARAM, ws)
          else
            do { t \<leftarrow> win_type ws;
                 if prefix ''time'' t then do_compute_time_window mem m now w step a non_compute compute hash ws
                 else do_compute_counter_window mem m now w step a compute hash ws }
      | _ \<Rightarrow> Some (stopped ERR_BAD_PARAM, ws))"

definition fill_first_sample ::
  "memory \<Rightarrow> libm \<Rightarrow> int \<times> int \<Rightarrow> wf_info \<Rightarrow> step_info \<Rightarrow> analytics_value \<Rightarrow> 64 word \<Rightarrow> win_statistics
     \<Rightarrow> (step_result \<times> win_statistics) option" where
  "fill_first_sample mem m now w step a hash ws =
     do { (rc, ws) \<leftarrow> fill_attributes mem (si_attributes step) ws;
          if rc \<noteq> SUCCESS then Some (stopped rc, ws) else do_compute mem m now w step a hash ws }"

text \<open>
  The module of the step is its statistics, which may not have been made yet.  The result has the statistics after
  the call.
\<close>

definition win_analyze ::
  "memory \<Rightarrow> libm \<Rightarrow> int \<times> int \<Rightarrow> win_statistics option caddy option \<Rightarrow> (step_result \<times> win_statistics option) option" where
  "win_analyze mem m now cd =
     (let rc = orcm_analytics_base_assert_caddy_data cd
      in if rc \<noteq> SUCCESS then Some (stopped rc, do { c \<leftarrow> cd; s \<leftarrow> imod c; s })
         else
           do { c \<leftarrow> cd; store \<leftarrow> imod c; w \<leftarrow> c_wf c; step \<leftarrow> c_step c; a \<leftarrow> c_value c;
                case (case store of Some ws \<Rightarrow> Some ws | None \<Rightarrow> if mem New_window then Some win_statistics_con else None) of
                  None \<Rightarrow> Some (stopped ERR_OUT_OF_RESOURCE, None)
                | Some ws \<Rightarrow>
                    do { (r, ws) \<leftarrow> (if num_sample_recv ws = 0 then fill_first_sample mem m now w step a (c_hash c) ws
                                     else do_compute mem m now w step a (c_hash c) ws);
                         Some (r, Some ws) } })"

end
