(* ===== verification/Orcm_Window_Laws.thy ===== *)
theory Orcm_Window_Laws
  imports Orcm_Window
begin

text \<open>
  What the window plugin computes: the statistics it accumulates are those of the list of all values in the
  window, and the windows are the ones of a specification that keeps these lists.
\<close>

section \<open>Statistics of a list\<close>

definition least :: "double \<Rightarrow> double \<Rightarrow> double" where
  "least a x = (if d_less x a then x else a)"

definition greatest :: "double \<Rightarrow> double \<Rightarrow> double" where
  "greatest a x = (if d_less a x then x else a)"

definition main_start :: "string \<Rightarrow> double" where
  "main_start c = (if prefix ''min'' c then DBL_MAX else if prefix ''max'' c then DBL_MIN else d_zero)"

definition main_step :: "string \<Rightarrow> double \<Rightarrow> double \<Rightarrow> double" where
  "main_step c = (if prefix ''average'' c then d_add else if prefix ''min'' c then least
     else if prefix ''max'' c then greatest else d_add)"

definition is_sd :: "string \<Rightarrow> bool" where
  "is_sd c \<longleftrightarrow> \<not> prefix ''average'' c \<and> \<not> prefix ''min'' c \<and> \<not> prefix ''max'' c"

definition main_sum :: "string \<Rightarrow> double list \<Rightarrow> double" where
  "main_sum c ns = foldl (main_step c) (main_start c) ns"

definition square_sum :: "libm \<Rightarrow> string \<Rightarrow> double list \<Rightarrow> double" where
  "square_sum m c ns = (if is_sd c then foldl (\<lambda>a x. d_add a (m_pow m x (d_of_int 2))) d_zero ns else d_zero)"

definition window_value :: "libm \<Rightarrow> string \<Rightarrow> double list \<Rightarrow> double" where
  "window_value m c ns =
     (let n = int (length ns)
      in if prefix ''average'' c then d_div (main_sum c ns) (d_of_int n)
         else if \<not> is_sd c then main_sum c ns
         else if n \<le> 1 then d_zero
         else let temp = d_sub (d_mul (d_of_int n) (square_sum m c ns)) (m_pow m (main_sum c ns) (d_of_int 2))
              in if d_le d_zero temp then m_sqrt m (d_div temp (d_of_int (n * (n - 1)))) else d_zero)"

section \<open>The statistics of a window\<close>

text \<open>\<open>k\<close> samples with the values \<open>ns\<close> have been accumulated.\<close>

definition holds_stats :: "libm \<Rightarrow> string \<Rightarrow> nat \<Rightarrow> double list \<Rightarrow> win_statistics \<Rightarrow> bool" where
  "holds_stats m c k ns ws \<longleftrightarrow> compute_type ws = Some c \<and> num_sample_recv ws = of_nat k \<and>
     num_data_point ws = of_nat (length ns) \<and> sum_min_max ws = main_sum c ns \<and> sum_square ws = square_sum m c ns"

abbreviation numbers :: "orcm_value list \<Rightarrow> double list" where
  "numbers data \<equiv> map orcm_util_get_number_orcm_value data"

lemma accumulate_numbers:
  "fold (\<lambda>v. accumulate_number m c (orcm_util_get_number_orcm_value v)) data ws =
     ws\<lparr>sum_min_max := foldl (main_step c) (sum_min_max ws) (numbers data),
        sum_square := (if is_sd c then foldl (\<lambda>a x. d_add a (m_pow m x (d_of_int 2))) (sum_square ws) (numbers data)
                       else sum_square ws)\<rparr>"
proof (induction data arbitrary: ws)
  case (Cons v data)
  have "accumulate_number m c x ws = ws\<lparr>sum_min_max := main_step c (sum_min_max ws) x,
      sum_square := (if is_sd c then d_add (sum_square ws) (m_pow m x (d_of_int 2)) else sum_square ws)\<rparr>" for x
    by (cases ws) (auto simp: accumulate_number_def main_step_def is_sd_def accumulate_data_average_def accumulate_data_min_def
        accumulate_data_max_def accumulate_data_sd_def least_def greatest_def Let_def)
  with Cons show ?case by simp
qed simp

lemma accumulate_data_holds:
  assumes "holds_stats m c k ns ws"
  shows "\<exists>ws'. accumulate_data m data ws = Some ws' \<and> holds_stats m c (k + 1) (ns @ numbers data) ws' \<and>
    win_size ws' = win_size ws \<and> win_left ws' = win_left ws \<and> win_right ws' = win_right ws \<and> win_type ws' = win_type ws"
proof (cases "data = []")
  case True
  with assms show ?thesis by (simp add: accumulate_data_def Let_def holds_stats_def)
next
  case False
  with assms show ?thesis
    by (auto simp: accumulate_data_def Let_def holds_stats_def accumulate_numbers main_sum_def square_sum_def)
qed

lemma reset_holds:
  assumes "compute_type ws = Some c"
  shows "\<exists>ws'. reset_window l i ws = Some ws' \<and> holds_stats m c 0 [] ws' \<and> win_size ws' = win_size ws \<and>
    win_left ws' = l \<and> win_right ws' = l + i \<and> win_type ws' = win_type ws"
  using assms by (simp add: reset_window_def holds_stats_def main_sum_def main_start_def square_sum_def)

lemma computing_value:
  assumes "holds_stats m c k ns ws" "length ns < 2 ^ 32"
  shows "computing m ws = Some (window_value m c ns)"
proof -
  have n: "uint (num_data_point ws) = int (length ns)"
    using assms by (simp add: holds_stats_def uint_nat unat_of_nat)
  have one: "1 < num_data_point ws \<longleftrightarrow> \<not> int (length ns) \<le> 1" by (simp add: word_less_def n) linarith
  have prod: "uint (num_data_point ws * (num_data_point ws - 1)) = int (length ns) * (int (length ns) - 1)"
    if "1 < num_data_point ws"
  proof -
    have m1: "uint (num_data_point ws - 1) = int (length ns) - 1"
      using that by (subst uint_minus_simple_alt [THEN iffD1]) (auto simp: word_le_def word_less_def n)
    have "int (length ns) * (int (length ns) - 1) < 2 ^ 32 * 2 ^ 32"
      using assms(2) one that by (intro mult_strict_mono) auto
    moreover have "uint (a * b) = uint a * uint b mod 2 ^ 64" for a b :: "64 word" by (simp add: uint_word_ariths)
    moreover have "0 \<le> int (length ns) * (int (length ns) - 1)" using one that by (intro mult_nonneg_nonneg) auto
    ultimately show ?thesis by (simp only: n m1) simp
  qed
  have c: "compute_type ws = Some c" "sum_min_max ws = main_sum c ns" "sum_square ws = square_sum m c ns"
    using assms(1) by (simp_all add: holds_stats_def)
  show ?thesis
  proof (cases "1 < num_data_point ws")
    case True
    with c one prod n show ?thesis by (auto simp: computing_def window_value_def Let_def is_sd_def)
  next
    case False
    with c one n show ?thesis by (auto simp: computing_def window_value_def Let_def is_sd_def)
  qed
qed

section \<open>A full window\<close>

definition granted :: memory where "granted = (\<lambda>_. True)"

lemma granted_requests [simp]:
  "granted New_value" "granted New_list" "granted New_analytics" "granted New_event" "granted New_filter"
  "granted New_window" "granted (Chars n)"
  by (simp_all add: granted_def)

lemma dup_granted [simp]: "dup granted s = s"
  by (cases s) simp_all

lemma load_granted [simp]:
  "orcm_util_load_orcm_value granted key (P_double x) units = Some (Some \<lparr>v_key = key, v_data = P_double x, v_units = units\<rparr>)"
  "orcm_util_load_orcm_value granted key (P_timeval s u) units = Some (Some \<lparr>v_key = key, v_data = P_timeval s u, v_units = units\<rparr>)"
  by (cases key; cases units; simp add: orcm_util_load_orcm_value_def opal_value_load_def)+

lemma copy_granted: "\<exists>c. orcm_util_copy_orcm_value granted v = Some c"
  by (auto simp: orcm_util_copy_orcm_value_def orcm_util_copy_opal_value_data_def split: payload.split)

lemma copy_without_time_granted: "\<exists>l. copy_without_time granted src dest = Some l"
proof (induction src arbitrary: dest)
  case (Cons v src)
  obtain c where c: "orcm_util_copy_orcm_value granted v = Some c" using copy_granted by blast
  show ?case using Cons c by (cases c) simp_all
qed simp

lemma time_compute_granted:
  "\<exists>n. orcm_util_load_analytics_time_compute granted now key non compute =
     Some (Some \<lparr>a_key = key, a_non_compute = n, a_compute = compute\<rparr>)"
proof -
  obtain l where l: "copy_without_time granted (case non of None \<Rightarrow> [] | Some l \<Rightarrow> l) [] = Some l"
    using copy_without_time_granted by blast
  have "\<exists>n. orcm_util_update_analytics_time granted now non = Some n"
    by (cases l) (simp_all add: orcm_util_update_analytics_time_def l orcm_util_append_orcm_value_def)
  then show ?thesis by (auto simp: orcm_util_load_analytics_time_compute_def)
qed

text \<open>The number a step has passed on, if it has.\<close>

definition passed :: "step_result \<Rightarrow> double option" where
  "passed r =
     do { n \<leftarrow> r_next r; vs \<leftarrow> a_compute (next_value n);
          case vs of [v] \<Rightarrow> (case v_data v of P_double x \<Rightarrow> Some x | _ \<Rightarrow> None) | _ \<Rightarrow> None }"

lemma passed_stopped [simp]: "passed (stopped rc) = None" "r_status (stopped rc) = rc"
  by (simp_all add: passed_def stopped_def)

lemma handle_full_window_passes:
  assumes "holds_stats m c k ns ws" "length ns < 2 ^ 32" "0 < k" "k < 2 ^ 64" "compute \<noteq> []"
    and "orcm_analytics_base_db_check (si_attributes step) = Some False"
  shows "\<exists>r. handle_full_window granted m now w step a compute hash ws = Some r \<and> r_status r = SUCCESS \<and>
    passed r = Some (window_value m c ns)"
proof -
  have k: "num_sample_recv ws \<noteq> 0" using assms(1,3,4) by (simp add: holds_stats_def of_nat_eq_0_iff word_of_nat_eq_0_iff nat_dvd_not_less)
  have c: "compute_type ws = Some c" using assms(1) by (simp add: holds_stats_def)
  obtain v vs where v: "compute = v # vs" using assms(5) by (cases compute) auto
  obtain key where key: "orcm_analytics_base_data_key granted c w step = Some key"
    unfolding orcm_analytics_base_data_key_def dup_granted by blast
  obtain n where n: "orcm_util_load_analytics_time_compute granted now (a_key a) (a_non_compute a)
      (Some [\<lparr>v_key = Some key, v_data = P_double (window_value m c ns), v_units = v_units v\<rparr>]) =
      Some (Some \<lparr>a_key = a_key a, a_non_compute = n,
        a_compute = Some [\<lparr>v_key = Some key, v_data = P_double (window_value m c ns), v_units = v_units v\<rparr>]\<rparr>)"
    using time_compute_granted by blast
  show ?thesis
    using k c v key n computing_value [OF assms(1,2)] assms(6)
    by (simp add: handle_full_window_def passed_def)
qed

section \<open>The specification\<close>

text \<open>
  Windows of \<open>n\<close> seconds.  The first sample opens a window; one before the window is ignored; one after it completes
  the window, and opens the one that follows, or, when that has passed too, one that starts at a multiple of
  \<open>n\<close>.  For each sample: the values of the window it completes, if it does.
\<close>

fun time_windows :: "nat \<Rightarrow> (nat \<times> double list) option \<Rightarrow> (nat \<times> double list) list \<Rightarrow> double list option list" where
  "time_windows n st [] = []"
| "time_windows n None ((t, xs) # rest) = None # time_windows n (Some (t, xs)) rest"
| "time_windows n (Some (l, ns)) ((t, xs) # rest) =
     (if t < l then None # time_windows n (Some (l, ns)) rest
      else if t < l + n then None # time_windows n (Some (l, ns @ xs)) rest
      else Some ns # time_windows n (Some (if l + 2 * n \<le> t then t - t mod n else l + n, xs)) rest)"

text \<open>Windows of \<open>n\<close> samples, where \<open>k\<close> are in the current one.\<close>

fun counter_windows :: "nat \<Rightarrow> nat \<Rightarrow> double list \<Rightarrow> double list list \<Rightarrow> double list option list" where
  "counter_windows n k ns [] = []"
| "counter_windows n k ns (xs # rest) =
     (if k + 1 < n then None # counter_windows n (k + 1) (ns @ xs) rest
      else Some (ns @ xs) # counter_windows n 0 [] rest)"

text \<open>Samples with values, and a time for windows of time; the calls of the step on them.\<close>

record win_call =
  wc_value :: analytics_value
  wc_now :: "int \<times> int"
  wc_hash :: "64 word"

definition sample_data :: "win_call \<Rightarrow> orcm_value list" where
  "sample_data x = (case a_compute (wc_value x) of None \<Rightarrow> [] | Some d \<Rightarrow> d)"

definition has_values :: "win_call \<Rightarrow> bool" where
  "has_values x \<longleftrightarrow> a_key (wc_value x) \<noteq> None \<and> a_key (wc_value x) \<noteq> Some [] \<and> a_non_compute (wc_value x) \<noteq> None \<and>
     a_compute (wc_value x) \<noteq> None \<and> sample_data x \<noteq> []"

definition has_time :: "64 word \<Rightarrow> win_call \<Rightarrow> bool" where
  "has_time t x \<longleftrightarrow>
     (case a_non_compute (wc_value x) of None \<Rightarrow> False | Some l \<Rightarrow> orcm_analytics_base_get_sample_time l = Some (SUCCESS, t))"

definition win_call :: "libm \<Rightarrow> wf_info \<Rightarrow> step_info \<Rightarrow> win_call \<Rightarrow> win_statistics option \<Rightarrow> (step_result \<times> win_statistics option) option" where
  "win_call m w step x store =
     win_analyze granted m (wc_now x)
       (Some \<lparr>imod = Some store, c_wf = Some w, c_step = Some step, c_value = Some (wc_value x), c_hash = wc_hash x\<rparr>)"

fun win_run :: "libm \<Rightarrow> wf_info \<Rightarrow> step_info \<Rightarrow> win_call list \<Rightarrow> win_statistics option \<Rightarrow> (step_result list \<times> win_statistics option) option" where
  "win_run m w step [] store = Some ([], store)"
| "win_run m w step (x # xs) store =
     do { (r, store) \<leftarrow> win_call m w step x store; (rs, store) \<leftarrow> win_run m w step xs store; Some (r # rs, store) }"

text \<open>The attributes of the step ask for windows of this kind.\<close>

definition configured :: "orcm_value list \<Rightarrow> string \<Rightarrow> string \<Rightarrow> 64 word \<Rightarrow> bool" where
  "configured attrs c ty n \<longleftrightarrow>
     (case fill_attributes granted attrs win_statistics_con of
        Some (rc, ws) \<Rightarrow> rc = SUCCESS \<and> compute_type ws = Some c \<and> win_type ws = Some ty \<and> win_size ws = n
      | None \<Rightarrow> False)"

lemma win_call_first:
  assumes "store = Some ws" "num_sample_recv ws = 0"
  shows "win_call m w step x store = do { (r, ws) \<leftarrow> fill_first_sample granted m (wc_now x) w step (wc_value x) (wc_hash x) ws; Some (r, Some ws) }"
  using assms by (simp add: win_call_def win_analyze_def orcm_analytics_base_assert_caddy_data_def Let_def)

lemma win_call_later:
  assumes "store = Some ws" "num_sample_recv ws \<noteq> 0"
  shows "win_call m w step x store = do { (r, ws) \<leftarrow> do_compute granted m (wc_now x) w step (wc_value x) (wc_hash x) ws; Some (r, Some ws) }"
  using assms by (simp add: win_call_def win_analyze_def orcm_analytics_base_assert_caddy_data_def Let_def)

lemma do_compute_sample:
  assumes "has_values x" "win_type ws = Some ty"
  shows "do_compute mem m now w step (wc_value x) hash ws =
    (if prefix ''time'' ty
     then do_compute_time_window mem m now w step (wc_value x) (the (a_non_compute (wc_value x))) (sample_data x) hash ws
     else do_compute_counter_window mem m now w step (wc_value x) (sample_data x) hash ws)"
  using assms by (auto simp: do_compute_def has_values_def sample_data_def)

lemma reset_keeps: "reset_window l i ws = Some ws' \<Longrightarrow> win_type ws' = win_type ws \<and> win_size ws' = win_size ws \<and> compute_type ws' = compute_type ws"
  by (cases "compute_type ws") (auto simp: reset_window_def)

lemma fill_win_reset:
  assumes "fill_win_statistics mem ws0 = Some (SUCCESS, ws)" "win_type ws = Some ty"
  shows "\<exists>ws1. reset_window 0 (if prefix ''time'' ty then 0 else win_size ws1) ws1 = Some ws \<and> win_size ws1 \<noteq> 0"
proof -
  define ws1 where "ws1 = (if win_type ws0 = None then ws0\<lparr>win_type := dup mem (Some ''time'')\<rparr> else ws0)"
  have size: "win_size ws0 \<noteq> 0" "win_size ws1 = win_size ws0"
    using assms(1) by (auto simp: fill_win_statistics_def ws1_def simp del: dup.simps)
  obtain t where t: "win_type ws1 = Some t"
    using assms(1) size(1) by (cases "win_type ws1") (simp_all add: fill_win_statistics_def ws1_def [symmetric] Let_def)
  have "(if prefix ''time'' t then reset_window 0 0 ws1 else reset_window 0 (win_size ws1) ws1) = Some ws"
    using assms(1) size(1) t
    by (simp add: fill_win_statistics_def ws1_def [symmetric] Let_def bind_eq_Some_conv split: if_splits)
  then have r: "reset_window 0 (if prefix ''time'' t then 0 else win_size ws1) ws1 = Some ws" by (simp split: if_splits)
  with reset_keeps [OF r] t assms(2) size show ?thesis by (intro exI [of _ ws1]) simp
qed

lemma filled:
  assumes "fill_attributes mem attrs ws0 = Some (SUCCESS, ws)" "compute_type ws = Some c" "win_type ws = Some ty"
  shows "win_size ws \<noteq> 0" "holds_stats m c 0 [] ws" "win_left ws = 0" "win_right ws = (if prefix ''time'' ty then 0 else win_size ws)"
proof -
  obtain ws2 where "fill_win_statistics mem ws2 = Some (SUCCESS, ws)"
    using assms(1) by (auto simp: fill_attributes_def bind_eq_Some_conv split: if_splits)
  from fill_win_reset [OF this assms(3)] obtain ws1 where
    r: "reset_window 0 (if prefix ''time'' ty then 0 else win_size ws1) ws1 = Some ws" "win_size ws1 \<noteq> 0" by blast
  have "compute_type ws1 = Some c" using reset_keeps [OF r(1)] assms(2) by simp
  from reset_holds [OF this, of 0 "if prefix ''time'' ty then 0 else win_size ws1" m] r
  show "win_size ws \<noteq> 0" "holds_stats m c 0 [] ws" "win_left ws = 0" "win_right ws = (if prefix ''time'' ty then 0 else win_size ws)"
    by auto
qed

lemma configuredE:
  assumes "configured attrs c ty n"
  obtains ws where "fill_attributes granted attrs win_statistics_con = Some (SUCCESS, ws)" "compute_type ws = Some c"
    "win_type ws = Some ty" "win_size ws = n"
  using assms by (auto simp: configured_def split: option.splits)

section \<open>Windows of time\<close>

definition in_time_window :: "libm \<Rightarrow> string \<Rightarrow> string \<Rightarrow> 64 word \<Rightarrow> nat \<times> double list \<Rightarrow> win_statistics \<Rightarrow> bool" where
  "in_time_window m c ty n st ws \<longleftrightarrow> win_type ws = Some ty \<and> win_size ws = n \<and>
     unat (win_left ws) = fst st \<and> win_right ws = win_left ws + n \<and> fst st + 2 * unat n < 2 ^ 64 \<and>
     (\<exists>k. holds_stats m c k (snd st) ws \<and> 0 < k \<and> k \<le> length (snd st))"

lemma samples_received: "holds_stats m c k ns ws \<Longrightarrow> 0 < k \<Longrightarrow> k < 2 ^ 64 \<Longrightarrow> num_sample_recv ws \<noteq> 0"
  by (simp add: holds_stats_def word_of_nat_eq_0_iff nat_dvd_not_less)

lemma sample_time: "has_time t x \<Longrightarrow> orcm_analytics_base_get_sample_time (the (a_non_compute (wc_value x))) = Some (SUCCESS, t)"
  by (auto simp: has_time_def split: option.splits)

lemma numbers_grow: "has_values x \<Longrightarrow> 0 < length (numbers (sample_data x))"
  by (simp add: has_values_def)

lemma time_first:
  assumes cfg: "configured (si_attributes step) c ty n" "prefix ''time'' ty"
    and x: "has_values x" "has_time t x" "unat t + 2 * unat n < 2 ^ 64"
  shows "\<exists>r ws. win_call m w step x (Some win_statistics_con) = Some (r, Some ws) \<and> passed r = None \<and>
    in_time_window m c ty n (unat t, numbers (sample_data x)) ws"
proof -
  obtain ws where ws: "fill_attributes granted (si_attributes step) win_statistics_con = Some (SUCCESS, ws)"
      "compute_type ws = Some c" "win_type ws = Some ty" "win_size ws = n"
    using cfg(1) by (rule configuredE)
  note reset = filled [OF ws(1-3)]
  let ?ws = "ws\<lparr>win_left := t, win_right := t + n\<rparr>"
  have "holds_stats m c 0 [] ?ws" using reset(2) by (simp add: holds_stats_def)
  from accumulate_data_holds [OF this, of "sample_data x"] obtain ws' where
    ws': "accumulate_data m (sample_data x) ?ws = Some ws'" "holds_stats m c 1 (numbers (sample_data x)) ws'"
      "win_size ws' = n" "win_left ws' = t" "win_right ws' = t + n" "win_type ws' = Some ty"
    using ws by auto
  have "do_compute granted m (wc_now x) w step (wc_value x) (wc_hash x) ws = Some (stopped SUCCESS, ws')"
    using cfg(2) reset(3,4) ws ws'(1)
    by (simp add: do_compute_sample [OF x(1) ws(3)] do_compute_time_window_def sample_time [OF x(2)])
  moreover have "in_time_window m c ty n (unat t, numbers (sample_data x)) ws'"
    using ws' x(3) numbers_grow [OF x(1)] by (auto simp: in_time_window_def Suc_le_eq intro!: exI [of _ 1])
  ultimately show ?thesis
    using ws(1) by (subst win_call_first [OF refl]) (simp_all add: win_statistics_con_def fill_first_sample_def)
qed

text \<open>The new window and its values, and whether the sample completed one.\<close>

definition time_next :: "nat \<Rightarrow> nat \<times> double list \<Rightarrow> nat \<Rightarrow> double list \<Rightarrow> double list option \<times> nat \<times> double list" where
  "time_next n st t xs =
     (if t < fst st then (None, st)
      else if t < fst st + n then (None, fst st, snd st @ xs)
      else (Some (snd st), if fst st + 2 * n \<le> t then t - t mod n else fst st + n, xs))"

lemma time_windows_next:
  "time_windows n (Some st) ((t, xs) # rest) = fst (time_next n st t xs) # time_windows n (Some (snd (time_next n st t xs))) rest"
  by (cases st) (simp add: time_next_def)

lemma time_later:
  assumes st: "in_time_window m c ty n st ws" and ty: "prefix ''time'' ty" and n: "n \<noteq> 0"
    and db: "orcm_analytics_base_db_check (si_attributes step) = Some False"
    and x: "has_values x" "has_time t x" "unat t + 2 * unat n < 2 ^ 64"
    and len: "length (snd st) + length (sample_data x) < 2 ^ 32"
  shows "\<exists>r ws'. win_call m w step x (Some ws) = Some (r, Some ws') \<and>
    passed r = map_option (window_value m c) (fst (time_next (unat n) st (unat t) (numbers (sample_data x)))) \<and>
    in_time_window m c ty n (snd (time_next (unat n) st (unat t) (numbers (sample_data x)))) ws'"
proof -
  obtain l ns where lns: "st = (l, ns)" by (cases st)
  obtain k where ws: "win_type ws = Some ty" "win_size ws = n" "unat (win_left ws) = l" "win_right ws = win_left ws + n"
      "l + 2 * unat n < 2 ^ 64" "holds_stats m c k ns ws" "0 < k" "k \<le> length ns"
    using st by (auto simp: in_time_window_def lns)
  have k: "k < 2 ^ 64" using ws(8) len by (simp add: lns)
  have n0: "0 < unat n" using n by (simp add: unat_gt_0)
  have right: "unat (win_right ws) = l + unat n" using ws(3,4,5) by (simp add: unat_word_ariths)
  have right2: "unat (win_right ws + n) = l + 2 * unat n" using right ws(5) by (simp add: unat_word_ariths)
  have ne: "win_left ws \<noteq> win_right ws" using right ws(3) n0 by auto
  have cmp: "t < win_left ws \<longleftrightarrow> unat t < l" "win_right ws \<le> t \<longleftrightarrow> l + unat n \<le> unat t"
    "win_right ws + n \<le> t \<longleftrightarrow> l + 2 * unat n \<le> unat t"
    using right right2 ws(3) by (simp_all add: word_less_nat_alt word_le_nat_alt)
  have call: "win_call m w step x (Some ws) = do { (r, ws) \<leftarrow>
      do_compute_time_window granted m (wc_now x) w step (wc_value x) (the (a_non_compute (wc_value x))) (sample_data x) (wc_hash x) ws; Some (r, Some ws) }"
    using ty by (simp add: win_call_later [OF refl samples_received [OF ws(6,7) k]] do_compute_sample [OF x(1) ws(1)])
  note defs = do_compute_time_window_def sample_time [OF x(2)]
  consider (before) "unat t < l" | (inside) "l \<le> unat t" "unat t < l + unat n" | (after) "l + unat n \<le> unat t" by linarith
  then show ?thesis
  proof cases
    case before
    then show ?thesis
      using st cmp by (simp add: call defs time_next_def lns)
  next
    case inside
    from accumulate_data_holds [OF ws(6), of "sample_data x"] obtain ws' where
      ws': "accumulate_data m (sample_data x) ws = Some ws'" "holds_stats m c (k + 1) (ns @ numbers (sample_data x)) ws'"
        "win_size ws' = win_size ws" "win_left ws' = win_left ws" "win_right ws' = win_right ws" "win_type ws' = win_type ws" by blast
    have "in_time_window m c ty n (l, ns @ numbers (sample_data x)) ws'"
      unfolding in_time_window_def using ws ws' numbers_grow [OF x(1)]
      by (intro conjI exI [of _ "k + 1"]) (auto simp: Suc_le_eq simp del: length_greater_0_conv)
    then show ?thesis
      using inside cmp ne ws'(1) by (simp add: call defs time_next_def lns)
  next
    case after
    obtain r where r: "handle_full_window granted m (wc_now x) w step (wc_value x) (sample_data x) (wc_hash x) ws = Some r"
        "r_status r = SUCCESS" "passed r = Some (window_value m c ns)"
    proof -
      have "sample_data x \<noteq> []" "length ns < 2 ^ 32" using x(1) len by (simp_all add: has_values_def lns)
      from handle_full_window_passes [OF ws(6) this(2) ws(7) k this(1) db] that show thesis by blast
    qed
    define left where "left = (if win_right ws + n \<le> t then t - t mod n else win_right ws)"
    have left: "unat left = (if l + 2 * unat n \<le> unat t then unat t - unat t mod unat n else l + unat n)"
    proof -
      have "t mod n \<le> t" by (simp add: word_le_nat_alt unat_mod)
      then show ?thesis using cmp(3) right by (simp add: left_def unat_sub unat_mod)
    qed
    have le: "unat left \<le> unat t" using left after by (auto split: if_splits)
    have "compute_type ws = Some c" using ws(6) by (simp add: holds_stats_def)
    from reset_holds [OF this, of left n m] obtain ws1 where
      ws1: "reset_window left n ws = Some ws1" "holds_stats m c 0 [] ws1" "win_size ws1 = n" "win_left ws1 = left"
        "win_right ws1 = left + n" "win_type ws1 = Some ty" using ws by auto
    from accumulate_data_holds [OF ws1(2), of "sample_data x"] obtain ws' where
      ws': "accumulate_data m (sample_data x) ws1 = Some ws'" "holds_stats m c 1 (numbers (sample_data x)) ws'"
        "win_size ws' = win_size ws1" "win_left ws' = win_left ws1" "win_right ws' = win_right ws1" "win_type ws' = win_type ws1"
      by auto
    have "in_time_window m c ty n (unat left, numbers (sample_data x)) ws'"
      using ws1 ws' x(3) le numbers_grow [OF x(1)] by (auto simp: in_time_window_def Suc_le_eq intro!: exI [of _ 1])
    moreover have "(if win_right ws + win_size ws \<le> t then reset_window (t - t mod win_size ws) (win_size ws) ws
        else reset_window (win_right ws) (win_size ws) ws) = Some ws1"
      using ws1(1) ws(2) by (simp add: left_def split: if_splits)
    ultimately show ?thesis
    proof (cases "l + 2 * unat n \<le> unat t")
      case True
      with \<open>in_time_window m c ty n (unat left, numbers (sample_data x)) ws'\<close>
        \<open>(if win_right ws + win_size ws \<le> t then _ else _) = Some ws1\<close> show ?thesis
        using after cmp ne ws'(1) r left ws(2) n by (simp add: call defs time_next_def lns)
    next
      case False
      with \<open>in_time_window m c ty n (unat left, numbers (sample_data x)) ws'\<close>
        \<open>(if win_right ws + win_size ws \<le> t then _ else _) = Some ws1\<close> show ?thesis
        using after cmp ne ws'(1) r left ws(2) n by (simp add: call defs time_next_def lns)
    qed
  qed
qed

lemma time_next_length: "length (snd (snd (time_next n st t xs))) \<le> length (snd st) + length xs"
  by (simp add: time_next_def)

definition timed :: "64 word \<Rightarrow> win_call \<Rightarrow> 64 word \<Rightarrow> bool" where
  "timed n x t \<longleftrightarrow> has_values x \<and> has_time t x \<and> unat t + 2 * unat n < 2 ^ 64"

definition timed_numbers :: "win_call list \<Rightarrow> 64 word list \<Rightarrow> (nat \<times> double list) list" where
  "timed_numbers xs ts = map (\<lambda>(x, t). (unat t, numbers (sample_data x))) (zip xs ts)"

definition total_values :: "win_call list \<Rightarrow> nat" where
  "total_values xs = sum_list (map (length \<circ> sample_data) xs)"

lemma time_run:
  assumes "prefix ''time'' ty" "n \<noteq> 0" "orcm_analytics_base_db_check (si_attributes step) = Some False"
    and "list_all2 (timed n) xs ts" "in_time_window m c ty n st ws" "length (snd st) + total_values xs < 2 ^ 32"
  shows "\<exists>rs store. win_run m w step xs (Some ws) = Some (rs, store) \<and>
    map passed rs = map (map_option (window_value m c)) (time_windows (unat n) (Some st) (timed_numbers xs ts))"
  using assms(4-)
proof (induction xs ts arbitrary: st ws rule: list_all2_induct)
  case Nil
  then show ?case by (simp add: timed_numbers_def)
next
  case (Cons x xs t ts)
  let ?next = "time_next (unat n) st (unat t) (numbers (sample_data x))"
  have x: "has_values x" "has_time t x" "unat t + 2 * unat n < 2 ^ 64" using Cons.hyps(1) by (simp_all add: timed_def)
  have len: "length (snd st) + length (sample_data x) < 2 ^ 32" using Cons.prems(2) by (simp add: total_values_def)
  obtain r ws' where r: "win_call m w step x (Some ws) = Some (r, Some ws')"
      "passed r = map_option (window_value m c) (fst ?next)" "in_time_window m c ty n (snd ?next) ws'"
    using time_later [OF Cons.prems(1) assms(1-3) x len] by blast
  have "length (snd (snd ?next)) + total_values xs < 2 ^ 32"
    using time_next_length [of "unat n" st "unat t" "numbers (sample_data x)"] Cons.prems(2) by (simp add: total_values_def)
  from Cons.IH [OF r(3) this] r(1,2) show ?case
    by (auto simp: timed_numbers_def time_windows_next)
qed


section \<open>Windows of samples\<close>

lemma unat_bound: "unat (w :: 64 word) < 2 ^ 64"
  by (rule order_less_le_trans [OF unsigned_less]) simp

definition in_counter_window :: "libm \<Rightarrow> string \<Rightarrow> string \<Rightarrow> 64 word \<Rightarrow> nat \<Rightarrow> double list \<Rightarrow> win_statistics \<Rightarrow> bool" where
  "in_counter_window m c ty n k ns ws \<longleftrightarrow> win_type ws = Some ty \<and> win_size ws = n \<and> win_right ws = n \<and>
     holds_stats m c k ns ws \<and> k < unat n"

text \<open>Reading the attributes again when the types are known changes nothing but the size, to the same.\<close>

lemma read_again:
  assumes "read_attributes mem attrs ws = Some (SUCCESS, ws1)" "compute_type ws' \<noteq> None" "win_type ws' \<noteq> None"
    and "win_size ws' = win_size ws \<or> win_size ws' = win_size ws1"
  shows "read_attributes mem attrs ws' = Some (SUCCESS, ws'\<lparr>win_size := win_size ws1\<rparr>)"
  using assms
proof (induction attrs arbitrary: ws ws')
  case Nil
  then show ?case by auto
next
  case (Cons v attrs)
  obtain k s where v: "v_key v = Some k" "str_of v = Some (Some s)"
    using Cons.prems(1) by (auto split: option.splits bind_splits)
  show ?case
  proof (cases "k = ''win_size''")
    case True
    then obtain a where a: "orcm_util_get_time_in_sec mem (Some s) = Some a"
        "read_attributes mem attrs (ws\<lparr>win_size := a\<rparr>) = Some (SUCCESS, ws1)"
      using Cons.prems(1) v by (auto simp: bind_eq_Some_conv)
    from Cons.IH [OF a(2), of "ws'\<lparr>win_size := a\<rparr>"] Cons.prems(2,3) a(1) True v show ?thesis by simp
  next
    case False
    have "\<exists>ws2. read_attributes mem attrs ws2 = Some (SUCCESS, ws1) \<and> win_size ws2 = win_size ws"
      using Cons.prems(1) v False by (auto split: if_splits)
    then obtain ws2 where "read_attributes mem attrs ws2 = Some (SUCCESS, ws1)" "win_size ws2 = win_size ws" by blast
    from Cons.IH [OF this(1) Cons.prems(2,3)] this(2) Cons.prems(2-) False v show ?thesis by auto
  qed
qed

lemma fill_again:
  assumes "fill_attributes granted attrs ws0 = Some (SUCCESS, ws1)" "compute_type ws1 = Some c" "win_type ws1 = Some ty"
    and "\<not> prefix ''time'' ty" "compute_type ws = Some c" "win_type ws = Some ty" "win_size ws = win_size ws1"
  shows "\<exists>ws'. fill_attributes granted attrs ws = Some (SUCCESS, ws') \<and> holds_stats m c 0 [] ws' \<and>
    win_type ws' = Some ty \<and> win_size ws' = win_size ws \<and> win_right ws' = win_size ws"
proof -
  obtain wsr where read: "read_attributes granted attrs ws0 = Some (SUCCESS, wsr)" "fill_win_statistics granted wsr = Some (SUCCESS, ws1)"
    using assms(1) by (auto simp: fill_attributes_def bind_eq_Some_conv split: if_splits)
  define wsd where "wsd = (if win_type wsr = None then wsr\<lparr>win_type := dup granted (Some ''time'')\<rparr> else wsr)"
  have n: "win_size wsr \<noteq> 0" using read(2) by (auto simp: fill_win_statistics_def)
  obtain t where t: "win_type wsd = Some t"
    using read(2) n by (cases "win_type wsd") (simp_all add: fill_win_statistics_def wsd_def [symmetric] Let_def)
  have d: "prefix ''time'' t \<or> prefix ''counter'' t" "known_compute (compute_type wsd)"
      "(if prefix ''time'' t then reset_window 0 0 wsd else reset_window 0 (win_size wsd) wsd) = Some ws1"
    using read(2) n t
    by (auto simp: fill_win_statistics_def wsd_def [symmetric] Let_def bind_eq_Some_conv split: if_splits)
  have keep: "win_type ws1 = win_type wsd" "win_size ws1 = win_size wsd" "compute_type ws1 = compute_type wsd"
    using d(3) reset_keeps by (auto split: if_splits)
  have size: "win_size wsd = win_size wsr" by (simp add: wsd_def)
  have again: "read_attributes granted attrs ws = Some (SUCCESS, ws)"
    using read_again [OF read(1), of ws] assms(5-) keep size by simp
  obtain ws' where ws': "reset_window 0 (win_size ws) ws = Some ws'" "holds_stats m c 0 [] ws'" "win_size ws' = win_size ws"
      "win_right ws' = win_size ws" "win_type ws' = win_type ws"
    using reset_holds [OF assms(5), of 0 "win_size ws" m] by auto
  have "fill_win_statistics granted ws = Some (SUCCESS, ws')"
    using d(1,2) keep assms(2-) t n size ws'(1) by (simp add: fill_win_statistics_def)
  with again ws' assms(6) show ?thesis by (simp add: fill_attributes_def)
qed

lemma counter_window_step:
  assumes st: "in_counter_window m c ty n k ns ws" and ty: "\<not> prefix ''time'' ty"
    and db: "orcm_analytics_base_db_check (si_attributes step) = Some False"
    and x: "has_values x" and len: "length ns + length (sample_data x) < 2 ^ 32"
  shows "\<exists>r ws'. do_compute granted m (wc_now x) w step (wc_value x) (wc_hash x) ws = Some (r, ws') \<and>
    (if k + 1 < unat n then passed r = None \<and> in_counter_window m c ty n (k + 1) (ns @ numbers (sample_data x)) ws'
     else passed r = Some (window_value m c (ns @ numbers (sample_data x))) \<and> in_counter_window m c ty n 0 [] ws')"
proof -
  have ws: "win_type ws = Some ty" "win_size ws = n" "win_right ws = n" "holds_stats m c k ns ws" "k < unat n"
    using st by (simp_all add: in_counter_window_def)
  let ?ns = "ns @ numbers (sample_data x)"
  obtain ws1 where ws1: "accumulate_data m (sample_data x) ws = Some ws1" "holds_stats m c (k + 1) ?ns ws1"
      "win_size ws1 = n" "win_right ws1 = n" "win_type ws1 = Some ty"
    using accumulate_data_holds [OF ws(4), of "sample_data x"] ws by auto
  have k: "k + 1 < 2 ^ 64" using ws(5) unat_bound [of n] by simp
  have "unat (of_nat (k + 1) :: 64 word) = k + 1"
    using k by (simp add: unat_of_nat del: of_nat_add of_nat_Suc)
  moreover have "num_sample_recv ws1 = of_nat (k + 1)" using ws1(2) unfolding holds_stats_def by blast
  ultimately have recv: "n \<le> num_sample_recv ws1 \<longleftrightarrow> \<not> k + 1 < unat n"
    by (simp only: word_le_nat_alt not_less)
  show ?thesis
  proof (cases "k + 1 < unat n")
    case True
    then show ?thesis
      using ty ws1 recv by (simp add: do_compute_sample [OF x ws(1)] do_compute_counter_window_def in_counter_window_def)
  next
    case False
    have "sample_data x \<noteq> []" "length ?ns < 2 ^ 32" using x len by (simp_all add: has_values_def)
    from handle_full_window_passes [OF ws1(2) this(2) _ k this(1) db, of "wc_now x" w "wc_value x" "wc_hash x"] obtain r where
      r: "handle_full_window granted m (wc_now x) w step (wc_value x) (sample_data x) (wc_hash x) ws1 = Some r"
        "r_status r = SUCCESS" "passed r = Some (window_value m c ?ns)" by auto
    have "compute_type ws1 = Some c" using ws1(2) by (simp add: holds_stats_def)
    from reset_holds [OF this, of 0 n m] obtain ws2 where
      "reset_window 0 n ws1 = Some ws2" "holds_stats m c 0 [] ws2" "win_size ws2 = n" "win_right ws2 = n" "win_type ws2 = Some ty"
      using ws1 by auto
    then show ?thesis
      using False ty ws1 recv r ws(5)
      by (simp add: do_compute_sample [OF x ws(1)] do_compute_counter_window_def in_counter_window_def)
  qed
qed

lemma counter_call:
  assumes cfg: "configured (si_attributes step) c ty n" and ty: "\<not> prefix ''time'' ty"
    and db: "orcm_analytics_base_db_check (si_attributes step) = Some False"
    and st: "in_counter_window m c ty n k ns ws \<or> ws = win_statistics_con \<and> k = 0 \<and> ns = []"
    and x: "has_values x" and len: "length ns + length (sample_data x) < 2 ^ 32" and ns: "k = 0 \<longrightarrow> ns = []"
  shows "\<exists>r ws'. win_call m w step x (Some ws) = Some (r, Some ws') \<and>
    (if k + 1 < unat n then passed r = None \<and> in_counter_window m c ty n (k + 1) (ns @ numbers (sample_data x)) ws'
     else passed r = Some (window_value m c (ns @ numbers (sample_data x))) \<and> in_counter_window m c ty n 0 [] ws')"
proof (cases "k = 0")
  case False
  then have w: "in_counter_window m c ty n k ns ws" using st by simp
  have "num_sample_recv ws \<noteq> 0"
    using w False unat_bound [of n] by (intro samples_received [of m c k ns]) (auto simp: in_counter_window_def)
  then have later: "win_call m w step x (Some ws) = Some (r, Some ws')"
    if "do_compute granted m (wc_now x) w step (wc_value x) (wc_hash x) ws = Some (r, ws')" for r ws' w
    using that by (simp add: win_call_later)
  from counter_window_step [OF w ty db x len] show ?thesis by (blast intro: later)
next
  case True
  obtain ws1 where ws1: "fill_attributes granted (si_attributes step) win_statistics_con = Some (SUCCESS, ws1)"
      "compute_type ws1 = Some c" "win_type ws1 = Some ty" "win_size ws1 = n"
    using cfg by (rule configuredE)
  have n: "0 < unat n" using filled(1) [OF ws1(1-3)] ws1(4) by (simp add: unat_gt_0)
  have "\<exists>ws'. fill_attributes granted (si_attributes step) ws = Some (SUCCESS, ws') \<and> in_counter_window m c ty n 0 [] ws'"
    using st
  proof
    assume w: "in_counter_window m c ty n k ns ws"
    then have "compute_type ws = Some c" "win_type ws = Some ty" "win_size ws = win_size ws1"
      using ws1(4) by (simp_all add: in_counter_window_def holds_stats_def)
    from fill_again [OF ws1(1-3) ty this, of m] this(3) ws1(4) n show ?thesis by (auto simp: in_counter_window_def)
  next
    assume "ws = win_statistics_con \<and> k = 0 \<and> ns = []"
    then show ?thesis using ws1 filled [OF ws1(1-3)] ty n by (auto simp: in_counter_window_def)
  qed
  then obtain ws' where ws': "fill_attributes granted (si_attributes step) ws = Some (SUCCESS, ws')" "in_counter_window m c ty n 0 [] ws'"
    by blast
  have "num_sample_recv ws = 0" using st True by (auto simp: in_counter_window_def holds_stats_def win_statistics_con_def)
  moreover have "length [] + length (sample_data x) < 2 ^ 32" using len by simp
  from counter_window_step [OF ws'(2) ty db x this] obtain r ws2 where
    "do_compute granted m (wc_now x) w step (wc_value x) (wc_hash x) ws' = Some (r, ws2)"
    "if 0 + 1 < unat n then passed r = None \<and> in_counter_window m c ty n (0 + 1) ([] @ numbers (sample_data x)) ws2
     else passed r = Some (window_value m c ([] @ numbers (sample_data x))) \<and> in_counter_window m c ty n 0 [] ws2" by blast
  ultimately show ?thesis using True ns ws'(1) by (simp add: win_call_first fill_first_sample_def split: if_splits)
qed

lemma counter_run_windows:
  assumes "configured (si_attributes step) c ty n" "\<not> prefix ''time'' ty"
    and "orcm_analytics_base_db_check (si_attributes step) = Some False"
    and "list_all has_values xs" "length ns + total_values xs < 2 ^ 32"
    and "in_counter_window m c ty n k ns ws \<or> ws = win_statistics_con \<and> k = 0 \<and> ns = []" "k = 0 \<longrightarrow> ns = []"
  shows "\<exists>rs store. win_run m w step xs (Some ws) = Some (rs, store) \<and>
    map passed rs = map (map_option (window_value m c)) (counter_windows (unat n) k ns (map (\<lambda>x. numbers (sample_data x)) xs))"
  using assms(4-)
proof (induction xs arbitrary: k ns ws)
  case Nil
  then show ?case by simp
next
  case (Cons x xs)
  let ?ns = "ns @ numbers (sample_data x)"
  have len: "length ns + length (sample_data x) < 2 ^ 32" "total_values xs < 2 ^ 32" "length ?ns + total_values xs < 2 ^ 32"
    using Cons.prems(2) by (simp_all add: total_values_def)
  have x: "has_values x" "list_all has_values xs" using Cons.prems(1) by simp_all
  obtain r ws' where r: "win_call m w step x (Some ws) = Some (r, Some ws')"
      "if k + 1 < unat n then passed r = None \<and> in_counter_window m c ty n (k + 1) ?ns ws'
       else passed r = Some (window_value m c ?ns) \<and> in_counter_window m c ty n 0 [] ws'"
    using counter_call [OF assms(1-3) Cons.prems(3) x(1) len(1) Cons.prems(4)] by blast
  show ?case
  proof (cases "k + 1 < unat n")
    case True
    with r(2) have "in_counter_window m c ty n (k + 1) ?ns ws'" by simp
    with Cons.IH [OF x(2) len(3), of "k + 1" ws'] obtain rs store where
      "win_run m w step xs (Some ws') = Some (rs, store)"
      "map passed rs = map (map_option (window_value m c)) (counter_windows (unat n) (k + 1) ?ns (map (\<lambda>x. numbers (sample_data x)) xs))"
      by auto
    with r True show ?thesis by simp
  next
    case False
    with r(2) have "in_counter_window m c ty n 0 [] ws'" by simp
    with Cons.IH [OF x(2), of "[]" 0 ws'] len(2) obtain rs store where
      "win_run m w step xs (Some ws') = Some (rs, store)"
      "map passed rs = map (map_option (window_value m c)) (counter_windows (unat n) 0 [] (map (\<lambda>x. numbers (sample_data x)) xs))"
      by auto
    with r False show ?thesis by simp
  qed
qed


section \<open>Minimum and maximum\<close>

lemma least_fold:
  assumes "\<not> d_nan a" "list_all (\<lambda>x. \<not> d_nan x) ns"
  shows "foldl least a ns \<in> set (a # ns) \<and> \<not> d_nan (foldl least a ns) \<and> (\<forall>x\<in>set (a # ns). d_le (foldl least a ns) x)"
  using assms
proof (induction ns arbitrary: a)
  case Nil
  then show ?case by (simp add: d_le_def)
next
  case (Cons x ns)
  have "\<not> d_nan (least a x)" using Cons.prems by (simp add: least_def)
  from Cons.IH [OF this] Cons.prems show ?case
    by (auto simp: least_def d_le_def d_less_def split: if_splits)
qed

text \<open>
  For finite numbers a minimum is one of the values and none is less: the start value is the largest finite one.
\<close>

lemma DBL_MAX_top:
  assumes "\<not> d_nan x" "\<not> d_inf x"
  shows "d_le x DBL_MAX" and "d_le DBL_MAX x \<Longrightarrow> x = DBL_MAX"
proof -
  have top: "\<not> d_nan DBL_MAX" "d_key DBL_MAX = inf_mag - 1" "uint DBL_MAX = inf_mag - 1" by code_simp+
  have "d_mag x \<le> inf_mag - 1" "0 \<le> d_mag x" using assms by (simp_all add: d_nan_def d_inf_def d_mag_def)
  then show "d_le x DBL_MAX" using assms top by (simp add: d_le_def d_key_def)
  assume "d_le DBL_MAX x"
  then have "inf_mag - 1 \<le> d_key x" using top by (simp add: d_le_def)
  with \<open>0 \<le> d_mag x\<close> \<open>d_mag x \<le> inf_mag - 1\<close> have "\<not> d_neg x" "d_mag x = inf_mag - 1"
    by (auto simp: d_key_def inf_mag_def split: if_splits)
  then have "uint x = uint DBL_MAX" using top(3) uint_ge_0 [of x] by (simp add: d_neg_def d_mag_def)
  then show "x = DBL_MAX" by (simp add: word_uint_eq_iff)
qed

lemma window_minimum:
  assumes "prefix ''min'' c" "ns \<noteq> []" "list_all (\<lambda>x. \<not> d_nan x \<and> \<not> d_inf x) ns"
  shows "window_value m c ns \<in> set ns" "x \<in> set ns \<Longrightarrow> d_le (window_value m c ns) x"
proof -
  have "\<not> prefix ''average'' c" using assms(1) by (auto simp: prefix_def)
  with assms(1) have v: "window_value m c ns = foldl least DBL_MAX ns"
    by (simp add: window_value_def is_sd_def main_sum_def main_step_def [abs_def] main_start_def Let_def)
  have "\<not> d_nan DBL_MAX" by code_simp
  moreover have "list_all (\<lambda>x. \<not> d_nan x) ns" using assms(3) by (simp add: list_all_iff)
  ultimately have f: "foldl least DBL_MAX ns \<in> set (DBL_MAX # ns)" "\<forall>x\<in>set (DBL_MAX # ns). d_le (foldl least DBL_MAX ns) x"
    using least_fold by blast+
  then show "x \<in> set ns \<Longrightarrow> d_le (window_value m c ns) x" by (simp add: v)
  obtain y where y: "y \<in> set ns" using assms(2) by (cases ns) auto
  then have "d_le DBL_MAX y \<Longrightarrow> y = DBL_MAX" using assms(3) by (intro DBL_MAX_top) (simp_all add: list_all_iff)
  then show "window_value m c ns \<in> set ns" using f y by (auto simp: v)
qed

text \<open>A maximum starts at the smallest positive value, so negative values, and zero, never become it.\<close>

lemma window_maximum_negative:
  assumes "prefix ''max'' c" "list_all (\<lambda>x. d_less x DBL_MIN) ns"
  shows "window_value m c ns = DBL_MIN"
proof -
  have "\<not> prefix ''average'' c" "\<not> prefix ''min'' c" using assms(1) by (auto simp: prefix_def)
  with assms(1) have v: "window_value m c ns = foldl greatest DBL_MIN ns"
    by (simp add: window_value_def is_sd_def main_sum_def main_step_def [abs_def] main_start_def Let_def)
  have "foldl greatest DBL_MIN ns = DBL_MIN"
    using assms(2) by (induction ns) (auto simp: greatest_def d_less_def)
  with v show ?thesis by simp
qed

section \<open>Instances\<close>

definition sample_win_attrs :: "string \<Rightarrow> string \<Rightarrow> string \<Rightarrow> orcm_value list" where
  "sample_win_attrs sz c ty =
     map (\<lambda>(k, s). \<lparr>v_key = Some k, v_data = P_string (Some s), v_units = None\<rparr>)
       [(''win_size'', sz), (''compute'', c), (''type'', ty)]"

definition sample_win_step :: "orcm_value list \<Rightarrow> step_info" where
  "sample_win_step attrs = \<lparr>si_id = 1, si_analytic = ''window'', si_attributes = attrs\<rparr>"

definition sample_wf :: wf_info where
  "sample_wf = \<lparr>wfi_name = ''wf'', wfi_id = 1, hostname_regex = None\<rparr>"

definition sample_call :: "int \<Rightarrow> int \<Rightarrow> win_call" where
  "sample_call t x =
     \<lparr>wc_value = \<lparr>a_key = Some [\<lparr>v_key = Some ''hostname'', v_data = P_string (Some ''n1''), v_units = None\<rparr>],
                  a_non_compute = Some [\<lparr>v_key = Some ''ctime'', v_data = P_timeval t 0, v_units = None\<rparr>],
                  a_compute = Some [\<lparr>v_key = Some ''core0'', v_data = P_double (d_of_int x), v_units = None\<rparr>]\<rparr>,
      wc_now = (t, 0), wc_hash = 1\<rparr>"

text \<open>\<open>pow\<close> and \<open>sqrt\<close> are not called for an average.\<close>

definition sample_libm :: libm where
  "sample_libm = \<lparr>m_pow = (\<lambda>x _. d_mul x x), m_sqrt = (\<lambda>x. x)\<rparr>"

lemma sample_call_simps:
  "has_values (sample_call t x)" "sample_data (sample_call t x) = [\<lparr>v_key = Some ''core0'', v_data = P_double (d_of_int x), v_units = None\<rparr>]"
  "has_time (word_of_int t) (sample_call t x)" "numbers (sample_data (sample_call t x)) = [d_of_int x]"
proof -
  have k: "sublist ''time'' ''ctime''" by code_simp
  show d: "sample_data (sample_call t x) = [\<lparr>v_key = Some ''core0'', v_data = P_double (d_of_int x), v_units = None\<rparr>]"
    by (simp add: sample_data_def sample_call_def)
  show "has_values (sample_call t x)" by (simp add: has_values_def d) (simp add: sample_call_def)
  show "has_time (word_of_int t) (sample_call t x)"
    by (simp add: has_time_def sample_call_def k orcm_analytics_base_timeval_to_uint64_def)
  show "numbers (sample_data (sample_call t x)) = [d_of_int x]"
    by (simp add: d orcm_util_get_number_orcm_value_def)
qed



end
