(* ===== verification/Spec2Isabelle.thy ===== *)
theory Spec2Isabelle
  imports Orcm_Group_Config Orcm_Group_Expand Opal_Crc32 Orcm_Workflow_Commands Orcm_Cott_Laws Orcm_Values_Laws
    Orcm_Events_Laws Orcm_Window_Laws
begin

text \<open>
  Sensys (ORCM) monitors a cluster: daemons on the nodes sample sensors, aggregators receive the samples and run
  them through analytics workflows, and the tool \<^verbatim>\<open>octl\<close> controls the daemons.  It is built on the layers
  \<^verbatim>\<open>opal\<close> (containers, packing, utilities) and \<^verbatim>\<open>orte\<close> (run time).  This development models the parts of the
  program that compute: the containers and encodings at the bottom, node names and logical groups, and the analytics
  framework with its messages, events and two of its plugins.  All paths below are under \<^verbatim>\<open>src/\<close>.

  \<^bold>\<open>Conventions.\<close>
  Definitions have the names of the functions they translate.  Records and datatypes have the fields and
  alternatives of the structures.  A status is a value of the type \<open>status\<close>.  An outer \<open>option\<close> of a result is
  \<open>None\<close> when the call does not return or its behaviour is undefined (NULL is used, a block is left, a signed number
  overflows, a loop does not end); \<open>Some\<close> in a theorem therefore says that the call returns and is safe.  Inner options
  stand for NULL.  Whether an allocation succeeds is a parameter, so that each path for exhausted memory is a
  branch of the model.  Fixed-width integers are words, or integers with the conversions written out.

  \<^bold>\<open>Foundations.\<close>
  \<open>Orcm_Prelude\<close> has the status codes and the lemmas the other theories share.  \<open>C_Strings\<close> has what is used of
  the C library for text and numbers, \<open>C_Double\<close> binary64 arithmetic: the exact result rounded to nearest, ties to even.

  \<^bold>\<open>Hash table.\<close>
  \<open>Opal_Hash_Table\<close> models \<^verbatim>\<open>opal/class/opal_hash_table.c\<close>: open addressing with linear probing, growth, and removal
  that moves elements back.  \<open>Dictionary\<close> states as a locale what clients rely on; the table for each of the three
  types of keys interprets it.  Runs of calls refine a finite map, removal keeps all other keys, traversal
  meets each pair once, and keys of another type are refused.  A table that is full after a failed growth makes
  lookups of missing keys run for ever.  The fuel of the probing loops is the capacity: a probe that meets every slot
  without a free one or the key starts over.  Walks over a table have as fuel more than its capacity.

  \<^bold>\<open>Argument vectors and node lists.\<close>
  \<open>Opal_Argv\<close> models \<^verbatim>\<open>opal/util/argv.c\<close>: editing refines lists, and splitting and joining are inverse.
  \<open>Orte_Regex\<close> models \<^verbatim>\<open>orte/util/regex.c\<close>: node lists are compressed to expressions with ranges, and expanding
  gives all nodes back with their padding; the counts of processes per node are read correctly.

  \<^bold>\<open>Logical groups.\<close>
  \<open>Orcm_Logical_Group\<close>, \<open>Orcm_Group_Config\<close> and \<open>Orcm_Group_Expand\<close> model \<^verbatim>\<open>orcm/util/logical_group.c\<close>: the table of
  groups over the contract of the dictionary and a store of list objects, the configuration file, and the
  expansion of expressions.  Adding and removing change the named group only; saving and loading are inverse; the
  expansion of groups that nest without sharing ends with exactly the nodes reached.  Lemmas show what happens
  otherwise: released lists that are used again, groups that contain each other or share a group, and lines longer than
  the buffer.  The expansion is a partial function, and that it returns is part of the theorem.  The parser of the
  file, its creation and its lock are parameters.

  \<^bold>\<open>Packing.\<close>
  \<open>Opal_Dss\<close> models \<^verbatim>\<open>opal/dss\<close>: buffers, and packing and unpacking of each type.  \<open>Opal_Dss_Laws\<close> shows that
  unpacking gives back what was packed.  \<open>Opal_Dss_Safety\<close> is about buffers with arbitrary bytes: unpacking
  returns, stays inside the packed bytes, and stores elements of the requested type only.  The functions of the types
  call each other through the type table; the depth of these calls is bounded by 3, as a value refers to a name or a
  generic type, and that to a type of fixed size.
  Floating-point numbers and statistics of processes are packed by parameters.

  \<^bold>\<open>Checksums.\<close>
  \<open>Opal_Crc\<close> models \<^verbatim>\<open>opal/util/crc.c\<close> on a little-endian machine with 64-bit words.  \<open>Opal_Crc_Laws\<close> shows that sums
  over pieces add up to the sum over the whole, whatever the alignment, with a locale for the two sizes of words.
  \<open>Opal_Crc32\<close> shows that the table-driven CRC is the bit-serial one.

  \<^bold>\<open>Workflows.\<close>
  \<open>Opal_Progress_Threads\<close> models \<^verbatim>\<open>opal/runtime/opal_progress_threads.c\<close>.  \<open>Orcm_Workflow\<close> models the table of
  workflows of an aggregator (\<^verbatim>\<open>orcm/mca/analytics/base\<close>), the messages (\<^verbatim>\<open>orcm/util/workflow_util.c\<close>) and
  the commands of \<^verbatim>\<open>orcm/tools/octl/workflow.c\<close>.  \<open>Orcm_Workflow_Laws\<close> shows that a workflow arrives as it was
  described, \<open>Orcm_Workflow_Table\<close> that the table stays consistent under any messages, and
  \<open>Orcm_Workflow_Commands\<close> that listing and removing do what they report.  Plugins are given by what their
  functions return; messages arrive as they were sent.

  \<^bold>\<open>Samples and events.\<close>
  \<open>Orcm_Values\<close> models the values and samples (\<^verbatim>\<open>orcm/util/utils.c\<close>, \<^verbatim>\<open>opal/dss/dss_load_unload.c\<close>), \<open>Orcm_Events\<close> the
  events (\<^verbatim>\<open>orcm/mca/analytics/base/analytics_base_event.c\<close>), \<open>Orcm_Steps\<close> what the plugins share.
  \<open>Orcm_Values_Laws\<close> shows that copies are exact, and how times are read.  \<open>Orcm_Events_Laws\<close> shows that the
  suppression of repeated events, on top of the hash table through its interpretation of the dictionary, shows an
  event exactly when the interval since the last one shown has passed.

  \<^bold>\<open>Plugins.\<close>
  \<open>Orcm_Cott\<close> models the counter plugin (\<^verbatim>\<open>orcm/mca/analytics/cott\<close>).  \<open>Orcm_Cott_Laws\<close> shows that counters, which
  forget expired samples, fire as ones that keep all do; that hosts do not influence each other; what label masks match;
  and what a run of the step reports.  \<open>Orcm_Window\<close> models the window plugin (\<^verbatim>\<open>orcm/mca/analytics/window\<close>).
  \<open>Orcm_Window_Laws\<close> shows that what it passes on is the statistic of exactly the values of each window, for windows
  of time and of a number of samples.  The bounds there, fewer than \<open>2 ^ 32\<close> values and times that do not reach
  the end of 64 bits, keep the counts and the products of the standard deviation exact.  \<^verbatim>\<open>pow\<close> and
  \<^verbatim>\<open>sqrt\<close> are parameters.

  \<^bold>\<open>Not modelled.\<close>
  The object system with its reference counts, and the links of lists: the model has values and lists.  The
  event loop, threads, sockets, files and processes of \<^verbatim>\<open>opal\<close> and \<^verbatim>\<open>orte\<close>, and the loading of plugins: they are the
  operating system's.  The remaining containers and the copying, comparison and printing of packed types, which the
  modelled parts do not call.  The plugins filter, aggregate, threshold, spatial and genex, sensors, databases, the
  scheduler, diagnostics, dispatch and start-up, which work on devices, servers, stored data and the network.  The XML
  parser and the command lines of the tools.
\<close>

end
